(* ===== verification/LC_Prelude.thy ===== *)
theory LC_Prelude
  imports Main "HOL-Library.Word" "HOL-Library.List_Lexorder"
begin

unbundle bit_operations_syntax

text \<open>
  Shared vocabulary of the development: the fixed-width integers and byte strings of the
  C++ code, the ways a C++ computation can fail, little-endian \<open>memcpy\<close> of an integer,
  the searches of \<open>std::string\<close>, and \<open>std::map\<close> as a key-sorted association list
  together with the locale that states what its clients rely on.
\<close>

section \<open>Types\<close>

type_synonym byte = "8 word"
type_synonym u8 = "8 word"
type_synonym u16 = "16 word"
type_synonym u32 = "32 word"
type_synonym u64 = "64 word"

text \<open>\<open>char\<close> buffers, \<open>std::vector<char>\<close> and \<open>std::string\<close> are all byte lists.\<close>

type_synonym bytes = "byte list"

text \<open>
  The ways control can leave a C++ function other than by returning: undefined behaviour
  (an access outside an object, a null dereference), a failed \<open>assert\<close>, an uncaught exception.
\<close>

datatype cpp_error =
    Out_Of_Bounds
  | Null_Deref
  | Dangling
  | Assert_Failed
  | Out_Of_Range
  | Runtime_Error
  | Bad_Alloc

type_synonym 'a result = "cpp_error + 'a"

named_theorems wire_simps \<open>layout of the frames\<close>
named_theorems map_simps \<open>lookups in updated maps\<close>

section \<open>Definitions\<close>

definition str :: "string \<Rightarrow> bytes" where
  "str s = map of_char s"

definition rbind :: "'e + 'a \<Rightarrow> ('a \<Rightarrow> 'e + 'b) \<Rightarrow> 'e + 'b" where
  "rbind r f = (case r of Inl e \<Rightarrow> Inl e | Inr x \<Rightarrow> f x)"

text \<open>\<open>memcpy\<close> of an \<open>n\<close>-byte unsigned integer on a little-endian host, and back.\<close>

fun le_enc :: "nat \<Rightarrow> 'a::len word \<Rightarrow> bytes" where
  "le_enc 0 w = []"
| "le_enc (Suc n) w = ucast w # le_enc n (drop_bit 8 w)"

fun le_dec :: "bytes \<Rightarrow> 'a::len word" where
  "le_dec [] = 0"
| "le_dec (b # bs) = ucast b OR push_bit 8 (le_dec bs)"

text \<open>\<open>memcpy (buf + off, src, n)\<close> into an object of the given bytes.\<close>

definition memcpy_at :: "bytes \<Rightarrow> nat \<Rightarrow> bytes \<Rightarrow> bytes" where
  "memcpy_at buf off src = take off buf @ src @ drop (off + length src) buf"

definition zeros :: "nat \<Rightarrow> bytes" where
  "zeros n = replicate n 0"

text \<open>\<open>resize_file\<close> and \<open>std::string::resize\<close>: cut, or extend with zero bytes.\<close>

definition resize :: "nat \<Rightarrow> bytes \<Rightarrow> bytes" where
  "resize n xs = take n xs @ zeros (n - length xs)"

text \<open>\<open>std::string::find (c)\<close>: the first position, or \<open>npos\<close>.\<close>

fun find_first :: "byte \<Rightarrow> bytes \<Rightarrow> nat option" where
  "find_first c [] = None"
| "find_first c (x # xs) = (if x = c then Some 0 else map_option Suc (find_first c xs))"

text \<open>A string made from a fixed-size character field.\<close>

definition cstr :: "bytes \<Rightarrow> bytes result" where
  "cstr b = (if 0 \<in> set b then Inr (takeWhile (\<lambda>c. c \<noteq> 0) b) else Inl Out_Of_Bounds)"

text \<open>\<open>std::map\<close>: association lists kept sorted by key.\<close>

type_synonym ('k, 'v) omap = "('k \<times> 'v) list"

fun omap_put :: "'k::linorder \<Rightarrow> 'v \<Rightarrow> ('k, 'v) omap \<Rightarrow> ('k, 'v) omap" where
  "omap_put k v [] = [(k, v)]"
| "omap_put k v ((k', v') # m) =
     (if k < k' then (k, v) # (k', v') # m
      else if k = k' then (k, v) # m
      else (k', v') # omap_put k v m)"

fun omap_erase :: "'k::linorder \<Rightarrow> ('k, 'v) omap \<Rightarrow> ('k, 'v) omap" where
  "omap_erase k [] = []"
| "omap_erase k ((k', v') # m) = (if k = k' then omap_erase k m else (k', v') # omap_erase k m)"

definition omap_inv :: "('k::linorder, 'v) omap \<Rightarrow> bool" where
  "omap_inv m \<longleftrightarrow> sorted_wrt (<) (map fst m)"

section \<open>Sums as results\<close>

lemma rbind_simps [simp]:
  "rbind (Inl e) f = Inl e"
  "rbind (Inr x) f = f x"
  by (simp_all add: rbind_def)

lemma rbind_assoc: "rbind (rbind x f) g = rbind x (\<lambda>y. rbind (f y) g)"
  by (cases x) simp_all

lemma rbind_Inr: "rbind x Inr = x"
  by (cases x) simp_all

lemma rbind_eq_Inr: "rbind r f = Inr y \<longleftrightarrow> (\<exists>x. r = Inr x \<and> f x = Inr y)"
  by (cases r) auto

section \<open>Little-endian integers\<close>

lemma length_le_enc [simp]: "length (le_enc n w) = n"
  by (induction n arbitrary: w) auto

lemma le_dec_enc_take_bit:
  fixes w :: "'a::len word"
  shows "le_dec (le_enc n w) = take_bit (8 * n) w"
proof (induction n arbitrary: w)
  case 0
  then show ?case by simp
next
  case (Suc n)
  have "ucast (ucast w :: byte) OR push_bit 8 (take_bit (8 * n) (drop_bit 8 w)) = take_bit (8 * Suc n) w"
    by (rule bit_word_eqI)
      (auto simp: bit_simps not_less add_diff_inverse_nat dest: bit_imp_le_length)
  then show ?case by (simp add: Suc.IH)
qed

lemma le_dec_enc:
  fixes w :: "'a::len word"
  assumes "LENGTH('a) \<le> 8 * n"
  shows "le_dec (le_enc n w) = w"
  using assms by (simp add: le_dec_enc_take_bit take_bit_word_eq_self)

lemma le_dec_enc_u32 [simp]: "le_dec (le_enc 4 (w :: u32)) = w"
  by (rule le_dec_enc) simp

lemma le_dec_enc_u64 [simp]: "le_dec (le_enc 8 (w :: u64)) = w"
  by (rule le_dec_enc) simp

section \<open>Byte strings\<close>

lemma length_zeros [simp]: "length (zeros n) = n"
  by (simp add: zeros_def)

lemma zeros_0 [simp]: "zeros 0 = []"
  by (simp add: zeros_def)

lemma zeros_nth [simp]: "i < n \<Longrightarrow> zeros n ! i = 0"
  by (simp add: zeros_def)

lemma set_zeros [simp]: "set (zeros n) \<subseteq> {0}"
  by (auto simp: zeros_def)

lemma length_memcpy_at [simp]:
  "off + length src \<le> length buf \<Longrightarrow> length (memcpy_at buf off src) = length buf"
  by (simp add: memcpy_at_def)

lemma resize_append_exact: "resize (length xs) (xs @ ys) = xs"
  by (simp add: resize_def)

lemma length_resize [simp]: "length (resize n xs) = n"
  by (simp add: resize_def)

lemma find_first_append:
  "c \<notin> set xs \<Longrightarrow> find_first c (xs @ c # ys) = Some (length xs)"
  by (induction xs) auto

lemma find_first_None_iff: "find_first c xs = None \<longleftrightarrow> c \<notin> set xs"
  by (induction xs) auto

lemma takeWhile_stop: "x \<notin> set xs \<Longrightarrow> takeWhile (\<lambda>c. c \<noteq> x) (xs @ x # ys) = xs"
  by (induction xs) auto

text \<open>Blocks of one length.\<close>

lemma nth_concat_uniform:
  "\<forall>x \<in> set xss. length x = n \<Longrightarrow> i < length xss \<Longrightarrow> j < n \<Longrightarrow> concat xss ! (i * n + j) = xss ! i ! j"
proof (induction xss arbitrary: i)
  case (Cons x xss)
  then show ?case by (cases i) (simp_all add: nth_append add.assoc)
qed simp

lemma length_concat_uniform: "\<forall>x \<in> set xss. length x = n \<Longrightarrow> length (concat xss) = length xss * n"
  by (induction xss) simp_all

section \<open>Ordered maps\<close>

lemma map_of_omap_put [simp, map_simps]: "map_of (omap_put k v m) = (map_of m)(k \<mapsto> v)"
  by (induction m) (auto simp: fun_eq_iff)

lemma map_of_omap_erase [simp, map_simps]: "map_of (omap_erase k m) = (map_of m)(k := None)"
  by (induction m) (auto simp: fun_eq_iff)

lemma map_of_const_map: "x \<in> f ` set ks \<Longrightarrow> map_of (map (\<lambda>i. (f i, c)) ks) x = Some c"
  by (induction ks) auto

lemma keys_omap_put: "set (map fst (omap_put k v m)) = insert k (set (map fst m))"
  by (induction k v m rule: omap_put.induct) (simp_all add: insert_commute)

lemma omap_erase_filter: "omap_erase k m = filter (\<lambda>p. fst p \<noteq> k) m"
  by (induction m) auto

lemma omap_inv_Nil [simp]: "omap_inv []"
  by (simp add: omap_inv_def)

lemma omap_inv_put [simp]: "omap_inv m \<Longrightarrow> omap_inv (omap_put k v m)"
proof (induction m)
  case Nil
  then show ?case by (simp add: omap_inv_def)
next
  case (Cons p m)
  obtain k' v' where p: "p = (k', v')" by (cases p)
  have "omap_inv m" and lt: "\<And>x. x \<in> set (map fst m) \<Longrightarrow> k' < x"
    using Cons.prems by (auto simp: omap_inv_def p)
  then have "sorted_wrt (<) (map fst (omap_put k v m))"
    using Cons.IH by (simp add: omap_inv_def)
  then show ?case
    using Cons.prems lt keys_omap_put [of k v m]
    by (auto simp: omap_inv_def p simp del: set_map dest: less_trans)
qed

lemma omap_inv_erase [simp]: "omap_inv m \<Longrightarrow> omap_inv (omap_erase k m)"
  by (auto simp: omap_inv_def omap_erase_filter sorted_wrt_map intro: sorted_wrt_filter)

lemma omap_inv_distinct: "omap_inv m \<Longrightarrow> distinct (map fst m)"
  by (simp add: omap_inv_def strict_sorted_iff)

lemma omap_put_again: "omap_put k v (omap_put k v' m) = omap_put k v m"
  by (induction k v m rule: omap_put.induct) auto

lemma omap_put_same: "omap_inv m \<Longrightarrow> map_of m k = Some v \<Longrightarrow> omap_put k v m = m"
  by (induction k v m rule: omap_put.induct) (auto simp: omap_inv_def split: if_splits dest!: map_of_SomeD)

text \<open>
  The contract of \<open>std::map\<close> its clients use: \<open>operator[]\<close> assignment, \<open>erase\<close>,
  \<open>find\<close>/\<open>at\<close>, and iteration in key order.
\<close>

locale std_map =
  fixes empty :: 'm
    and put :: "'k::linorder \<Rightarrow> 'v \<Rightarrow> 'm \<Rightarrow> 'm"
    and erase :: "'k \<Rightarrow> 'm \<Rightarrow> 'm"
    and find :: "'m \<Rightarrow> 'k \<Rightarrow> 'v option"
    and entries :: "'m \<Rightarrow> ('k \<times> 'v) list"
    and invar :: "'m \<Rightarrow> bool"
  assumes find_empty: "find empty k = None"
    and find_put: "invar m \<Longrightarrow> find (put k v m) k' = (if k' = k then Some v else find m k')"
    and find_erase: "invar m \<Longrightarrow> find (erase k m) k' = (if k' = k then None else find m k')"
    and entries_sorted: "invar m \<Longrightarrow> sorted_wrt (<) (map fst (entries m))"
    and entries_find: "invar m \<Longrightarrow> (k, v) \<in> set (entries m) \<longleftrightarrow> find m k = Some v"
    and invar_empty: "invar empty"
    and invar_put: "invar m \<Longrightarrow> invar (put k v m)"
    and invar_erase: "invar m \<Longrightarrow> invar (erase k m)"
begin

lemma put_put_same: "invar m \<Longrightarrow> find (put k v (put k w m)) = find (put k v m)"
  by (auto simp: find_put invar_put)

lemma erase_put_fresh: "invar m \<Longrightarrow> find m k = None \<Longrightarrow> find (erase k (put k v m)) = find m"
  by (auto simp: find_put find_erase invar_put)

lemma entries_keys_distinct: "invar m \<Longrightarrow> distinct (map fst (entries m))"
  using entries_sorted [of m] by (simp add: strict_sorted_iff)

lemma entries_put:
  "invar m \<Longrightarrow> set (entries (put k v m)) = insert (k, v) {p \<in> set (entries m). fst p \<noteq> k}"
  by (auto simp: entries_find invar_put find_put split: if_splits)

lemma entries_erase:
  "invar m \<Longrightarrow> set (entries (erase k m)) = {p \<in> set (entries m). fst p \<noteq> k}"
  by (auto simp: entries_find invar_erase find_erase split: if_splits)

end

interpretation om: std_map "[]" omap_put omap_erase map_of "\<lambda>m. m" omap_inv
  by unfold_locales
    (auto simp: omap_inv_def [symmetric] map_of_eq_Some_iff omap_inv_distinct)

end
