(* ===== verification/Common_Types.thy ===== *)
theory Common_Types
  imports LC_Prelude
begin

text \<open>
  The data the components exchange: status codes (\<open>include/BV.hpp\<close>), events and messages
  (\<open>include/BVEvent.hpp\<close>, \<open>include/BVMessage.hpp\<close>), service descriptions, nodes, chat messages and
  chat logs (\<open>include/BVTCPCommon.hpp\<close>), the resolution result of the C layer
  (\<open>include/api_common.h\<close>). A message's \<open>std::any\<close> payload is a datatype with one constructor
  per type the program stores in it; \<open>any_cast\<close> to another type is the bad-cast branch.
\<close>

section \<open>Status and events\<close>

datatype BVStatus =
    BVSTATUS_OK
  | BVSTATUS_NOK
  | BVSTATUS_IN_PROGRESS
  | BVSTATUS_FATAL_ERROR
  | BVSTATUS_DEAD
  | BVSTATUS_MAX_COMPONENTS

text \<open>The enumerators of \<open>BVEventType\<close>, in their order, which \<open>std::map\<close> uses.\<close>

datatype BVEventType =
    BVEVENTTYPE_DISCOVERY_REQUEST_START
  | BVEVENTTYPE_DISCOVERY_REQUEST_PAUSE
  | BVEVENTTYPE_DISCOVERY_REQUEST_RESUME
  | BVEVENTTYPE_DISCOVERY_REQUEST_SHUTDOWN
  | BVEVENTTYPE_DISCOVERY_REQUEST_RESTART
  | BVEVENTTYPE_DISCOVERY_REQUEST_RESOLVE
  | BVEVENTTYPE_APP_PUBLISHED_SERVICE
  | BVEVENTTYPE_APP_DEREGISTERED_SERVICE
  | BVEVENTTYPE_APP_DISCOVERY_RESUMED
  | BVEVENTTYPE_APP_DISCOVERY_PAUSED
  | BVEVENTTYPE_APP_DISCOVERY_SERVICE_RESOLVED
  | BVEVENTTYPE_SERVICE_REQUEST_START
  | BVEVENTTYPE_SERVICE_REQUEST_SHUTDOWN
  | BVEVENTTYPE_TERMINATE_ALL
  | REDUNDANT_BVEVENTTYPE_APP_SERVICE_DEREGISTERED
  | BVEVENTTYPE_APP_MESSAGE_INCOMING
  | BVEVENTTYPE_APP_FILE_OFFER
  | BVEVENTTYPE_APP_FILE_TRANSFER_BEGIN
  | BVEVENTTYPE_APP_FILE_TRANSFER_CHUNK_SENT
  | BVEVENTTYPE_APP_FILE_TRANSFER_END
  | BVEVENTTYPE_APP_FILE_TRANSFER_CANCELLED
  | BVEVENTTYPE_TEST_ECHO
  | BVEVENTTYPE_TEST_HEARTBEAT
  | BVEVENTTYPE_TEST_HEARTBEAT_ACK
  | BVEVENTTYPE_TEST_HEARTBEAT_NACK
  | BVEVENTTYPE_TEST_REQUEST_START
  | BVEVENTTYPE_TEST_REQUEST_PAUSE
  | BVEVENTTYPE_TEST_REQUEST_RESUME
  | BVEVENTTYPE_TEST_REQUEST_SHUTDOWN
  | BVEVENTTYPE_TEST_REQUEST_RESTART
  | BVEVENTTYPE_TEST_APP_ANNOUNCE_SERVICES

fun event_index :: "BVEventType \<Rightarrow> nat" where
  "event_index BVEVENTTYPE_DISCOVERY_REQUEST_START = 0"
| "event_index BVEVENTTYPE_DISCOVERY_REQUEST_PAUSE = 1"
| "event_index BVEVENTTYPE_DISCOVERY_REQUEST_RESUME = 2"
| "event_index BVEVENTTYPE_DISCOVERY_REQUEST_SHUTDOWN = 3"
| "event_index BVEVENTTYPE_DISCOVERY_REQUEST_RESTART = 4"
| "event_index BVEVENTTYPE_DISCOVERY_REQUEST_RESOLVE = 5"
| "event_index BVEVENTTYPE_APP_PUBLISHED_SERVICE = 6"
| "event_index BVEVENTTYPE_APP_DEREGISTERED_SERVICE = 7"
| "event_index BVEVENTTYPE_APP_DISCOVERY_RESUMED = 8"
| "event_index BVEVENTTYPE_APP_DISCOVERY_PAUSED = 9"
| "event_index BVEVENTTYPE_APP_DISCOVERY_SERVICE_RESOLVED = 10"
| "event_index BVEVENTTYPE_SERVICE_REQUEST_START = 11"
| "event_index BVEVENTTYPE_SERVICE_REQUEST_SHUTDOWN = 12"
| "event_index BVEVENTTYPE_TERMINATE_ALL = 13"
| "event_index REDUNDANT_BVEVENTTYPE_APP_SERVICE_DEREGISTERED = 14"
| "event_index BVEVENTTYPE_APP_MESSAGE_INCOMING = 15"
| "event_index BVEVENTTYPE_APP_FILE_OFFER = 16"
| "event_index BVEVENTTYPE_APP_FILE_TRANSFER_BEGIN = 17"
| "event_index BVEVENTTYPE_APP_FILE_TRANSFER_CHUNK_SENT = 18"
| "event_index BVEVENTTYPE_APP_FILE_TRANSFER_END = 19"
| "event_index BVEVENTTYPE_APP_FILE_TRANSFER_CANCELLED = 20"
| "event_index BVEVENTTYPE_TEST_ECHO = 21"
| "event_index BVEVENTTYPE_TEST_HEARTBEAT = 22"
| "event_index BVEVENTTYPE_TEST_HEARTBEAT_ACK = 23"
| "event_index BVEVENTTYPE_TEST_HEARTBEAT_NACK = 24"
| "event_index BVEVENTTYPE_TEST_REQUEST_START = 25"
| "event_index BVEVENTTYPE_TEST_REQUEST_PAUSE = 26"
| "event_index BVEVENTTYPE_TEST_REQUEST_RESUME = 27"
| "event_index BVEVENTTYPE_TEST_REQUEST_SHUTDOWN = 28"
| "event_index BVEVENTTYPE_TEST_REQUEST_RESTART = 29"
| "event_index BVEVENTTYPE_TEST_APP_ANNOUNCE_SERVICES = 30"

definition all_events :: "BVEventType list" where
  "all_events =
    [BVEVENTTYPE_DISCOVERY_REQUEST_START,
     BVEVENTTYPE_DISCOVERY_REQUEST_PAUSE,
     BVEVENTTYPE_DISCOVERY_REQUEST_RESUME,
     BVEVENTTYPE_DISCOVERY_REQUEST_SHUTDOWN,
     BVEVENTTYPE_DISCOVERY_REQUEST_RESTART,
     BVEVENTTYPE_DISCOVERY_REQUEST_RESOLVE,
     BVEVENTTYPE_APP_PUBLISHED_SERVICE,
     BVEVENTTYPE_APP_DEREGISTERED_SERVICE,
     BVEVENTTYPE_APP_DISCOVERY_RESUMED,
     BVEVENTTYPE_APP_DISCOVERY_PAUSED,
     BVEVENTTYPE_APP_DISCOVERY_SERVICE_RESOLVED,
     BVEVENTTYPE_SERVICE_REQUEST_START,
     BVEVENTTYPE_SERVICE_REQUEST_SHUTDOWN,
     BVEVENTTYPE_TERMINATE_ALL,
     REDUNDANT_BVEVENTTYPE_APP_SERVICE_DEREGISTERED,
     BVEVENTTYPE_APP_MESSAGE_INCOMING,
     BVEVENTTYPE_APP_FILE_OFFER,
     BVEVENTTYPE_APP_FILE_TRANSFER_BEGIN,
     BVEVENTTYPE_APP_FILE_TRANSFER_CHUNK_SENT,
     BVEVENTTYPE_APP_FILE_TRANSFER_END,
     BVEVENTTYPE_APP_FILE_TRANSFER_CANCELLED,
     BVEVENTTYPE_TEST_ECHO,
     BVEVENTTYPE_TEST_HEARTBEAT,
     BVEVENTTYPE_TEST_HEARTBEAT_ACK,
     BVEVENTTYPE_TEST_HEARTBEAT_NACK,
     BVEVENTTYPE_TEST_REQUEST_START,
     BVEVENTTYPE_TEST_REQUEST_PAUSE,
     BVEVENTTYPE_TEST_REQUEST_RESUME,
     BVEVENTTYPE_TEST_REQUEST_SHUTDOWN,
     BVEVENTTYPE_TEST_REQUEST_RESTART,
     BVEVENTTYPE_TEST_APP_ANNOUNCE_SERVICES]"

lemma all_events_index: "all_events ! event_index e = e"
  by (cases e) (simp_all add: all_events_def)

instantiation BVEventType :: linorder
begin

definition less_eq_BVEventType :: "BVEventType \<Rightarrow> BVEventType \<Rightarrow> bool" where
  "less_eq_BVEventType a b \<longleftrightarrow> event_index a \<le> event_index b"

definition less_BVEventType :: "BVEventType \<Rightarrow> BVEventType \<Rightarrow> bool" where
  "less_BVEventType a b \<longleftrightarrow> event_index a < event_index b"

instance
proof
  fix x y z :: BVEventType
  have inj: "event_index x = event_index y \<Longrightarrow> x = y"
    by (metis all_events_index)
  show "x < y \<longleftrightarrow> x \<le> y \<and> \<not> y \<le> x"
    by (auto simp: less_eq_BVEventType_def less_BVEventType_def)
  show "x \<le> x" by (simp add: less_eq_BVEventType_def)
  show "x \<le> y \<Longrightarrow> y \<le> z \<Longrightarrow> x \<le> z" by (simp add: less_eq_BVEventType_def)
  show "x \<le> y \<Longrightarrow> y \<le> x \<Longrightarrow> x = y"
    unfolding less_eq_BVEventType_def by (rule inj) (rule antisym)
  show "x \<le> y \<or> y \<le> x" by (auto simp: less_eq_BVEventType_def)
qed

end

section \<open>Constants of const.h\<close>

definition N_BYTES_SERVNAME_MAX :: nat where "N_BYTES_SERVNAME_MAX = 24"
definition N_BYTES_REGTYPE_MAX :: nat where "N_BYTES_REGTYPE_MAX = 24"
definition N_BYTES_REPLDOMN_MAX :: nat where "N_BYTES_REPLDOMN_MAX = 16"
definition N_BYTES_SERVICE_STR_TOTAL :: nat where
  "N_BYTES_SERVICE_STR_TOTAL = N_BYTES_SERVNAME_MAX + N_BYTES_REGTYPE_MAX + N_BYTES_REPLDOMN_MAX"
definition N_SERVICES_MAX :: u8 where "N_SERVICES_MAX = 255"
definition SERVICETYPE_STR :: bytes where "SERVICETYPE_STR = str ''_localchathost._tcp.''"
definition PORT :: int where "PORT = 50001"
definition MAX_TEXT_DATA_MSG_BYTES :: nat where "MAX_TEXT_DATA_MSG_BYTES = 128"

lemmas const_h_defs =
  N_BYTES_SERVNAME_MAX_def N_BYTES_REGTYPE_MAX_def N_BYTES_REPLDOMN_MAX_def
  N_BYTES_SERVICE_STR_TOTAL_def N_SERVICES_MAX_def PORT_def MAX_TEXT_DATA_MSG_BYTES_def

section \<open>Services and nodes\<close>

record BVServiceBrowseInstance =
  bi_serviceName :: bytes
  bi_regType :: bytes
  bi_replyDomain :: bytes

record BVServiceData =
  sd_port :: int
  sd_hostname :: bytes
  sd_domain :: bytes
  sd_regtype :: bytes

text \<open>\<open>ResolveCallbackContext\<close> and \<open>DNSResolutionResult\<close>, with their fixed-size fields.\<close>

record ResolveCallbackContext =
  rcc_serviceName :: bytes
  rcc_regType :: bytes
  rcc_replyDomain :: bytes

record DNSResolutionResult =
  dr_fullname :: bytes
  dr_hosttarget :: bytes
  dr_port :: u16
  dr_txtLen :: u16
  dr_txtRecord :: bytes
  dr_serviceName :: bytes
  dr_regType :: bytes
  dr_replyDomain :: bytes

text \<open>An endpoint is an address and a port; Boost's resolver results are a list of them.\<close>

type_synonym endpoint = "bytes \<times> int"

record BVNode =
  n_id :: u8
  n_serviceName :: bytes
  n_hostname :: bytes
  n_port :: int
  n_ep :: endpoint
  n_address :: bytes
  n_results :: "endpoint list"

definition BVNode_default :: BVNode where
  "BVNode_default = \<lparr>n_id = 0, n_serviceName = [], n_hostname = [], n_port = 0, n_ep = ([], 0),
     n_address = [], n_results = []\<rparr>"

definition BVNode_results :: "bytes \<Rightarrow> bytes \<Rightarrow> int \<Rightarrow> endpoint list \<Rightarrow> BVNode" where
  "BVNode_results sn hn p rs =
     BVNode_default\<lparr>n_serviceName := sn, n_hostname := hn, n_port := p, n_results := rs\<rparr>"

section \<open>Chat messages and logs\<close>

record BVChatMessage =
  cm_textData :: bytes
  cm_sender :: bytes
  cm_timestamp :: u64

record BVChatMessageLog =
  cl_serviceName :: bytes
  cl_logV :: "BVChatMessage list"

definition AddMessage :: "BVChatMessage \<Rightarrow> BVChatMessageLog \<Rightarrow> BVChatMessageLog" where
  "AddMessage msg log = log\<lparr>cl_logV := cl_logV log @ [msg]\<rparr>"

definition new_BVChatMessageLog :: "bytes \<Rightarrow> BVChatMessage \<Rightarrow> BVChatMessageLog" where
  "new_BVChatMessageLog sn msg = AddMessage msg \<lparr>cl_serviceName = sn, cl_logV = []\<rparr>"

definition ReturnNLastMessages :: "nat \<Rightarrow> BVChatMessageLog \<Rightarrow> BVChatMessage list" where
  "ReturnNLastMessages n log =
     (let count = min n (length (cl_logV log)) in drop (length (cl_logV log) - count) (cl_logV log))"

definition log_Clear :: "BVChatMessageLog \<Rightarrow> BVChatMessageLog" where
  "log_Clear log = log\<lparr>cl_logV := []\<rparr>"

text \<open>
  \<open>dateStr.substr (4, dateStr.length () - 8 - 5)\<close>: the position is checked, the count is an
  unsigned 64-bit difference.
\<close>

definition FormatDate :: "bytes \<Rightarrow> bytes result" where
  "FormatDate d =
     (if length d < 4 then Inl Out_Of_Range
      else Inr (take (unat (word_of_nat (length d) - 8 - 5 :: u64)) (drop 4 d)))"

text \<open>
  One line of \<open>PrintNLastMessages\<close>. The local \<open>timestamp\<close> is set from the message and then
  overwritten by \<open>time (&timestamp)\<close>; \<open>now\<close> is what the clock returns, \<open>ctime\<close> the C
  library's conversion.
\<close>

definition log_line :: "(nat \<Rightarrow> bytes) \<Rightarrow> nat \<Rightarrow> BVChatMessage \<Rightarrow> bytes result" where
  "log_line ctime now msg =
     (let timestamp = unat (cm_timestamp msg); timestamp = now; datetime = ctime timestamp in
      rbind (FormatDate datetime) (\<lambda>d.
        Inr (d @ str '' ['' @ cm_sender msg @ str '']: '' @ cm_textData msg)))"

fun log_lines :: "(nat \<Rightarrow> bytes) \<Rightarrow> nat \<Rightarrow> BVChatMessage list \<Rightarrow> bytes list result" where
  "log_lines ctime now [] = Inr []"
| "log_lines ctime now (m # ms) =
     rbind (log_line ctime now m) (\<lambda>l. rbind (log_lines ctime now ms) (\<lambda>ls. Inr (l # ls)))"

definition PrintNLastMessages :: "(nat \<Rightarrow> bytes) \<Rightarrow> nat \<Rightarrow> nat \<Rightarrow> BVChatMessageLog \<Rightarrow> bytes list result" where
  "PrintNLastMessages ctime now n log =
     rbind (log_lines ctime now (ReturnNLastMessages n log)) (\<lambda>ls.
       Inr (str ''+------+'' # ls @ [str ''+------+'']))"

section \<open>Messages\<close>

record BVTCPFileData =
  fd_correlationKey :: u32
  fd_csize :: u32
  fd_fsize :: u32
  fd_fdata :: bytes

datatype any =
    Any_BrowseList "BVServiceBrowseInstance list"
  | Any_Browse BVServiceBrowseInstance
  | Any_Resolution DNSResolutionResult
  | Any_Chat BVChatMessage
  | Any_FileData BVTCPFileData

record BVMessage =
  event_t :: BVEventType
  data_p :: "any option"  \<comment> \<open>\<open>unique_ptr<std::any>\<close>\<close>

section \<open>Lemmas\<close>

lemma ReturnNLastMessages_suffix:
  "\<exists>old. cl_logV log = old @ ReturnNLastMessages n log"
  by (metis append_take_drop_id ReturnNLastMessages_def)

lemma length_ReturnNLastMessages:
  "length (ReturnNLastMessages n log) = min n (length (cl_logV log))"
  by (simp add: ReturnNLastMessages_def Let_def)

lemma ReturnNLastMessages_AddMessage:
  "0 < n \<Longrightarrow> last (ReturnNLastMessages n (AddMessage m log)) = m"
  by (simp add: ReturnNLastMessages_def AddMessage_def Let_def)

text \<open>The printed chat log does not depend on the times stored in its messages: \<open>time (&timestamp)\<close> overwrites the message's time with the current one, so every line shows the time of printing.\<close>

theorem log_ignores_timestamps:
  "PrintNLastMessages ctime now n (log\<lparr>cl_logV := map (\<lambda>m. m\<lparr>cm_timestamp := f m\<rparr>) (cl_logV log)\<rparr>) =
   PrintNLastMessages ctime now n log"
proof -
  have line: "log_line ctime now (m\<lparr>cm_timestamp := t\<rparr>) = log_line ctime now m" for m t
    by (simp add: log_line_def)
  have "log_lines ctime now (map (\<lambda>m. m\<lparr>cm_timestamp := f m\<rparr>) ms) = log_lines ctime now ms" for ms
    by (induction ms) (simp_all add: line)
  then show ?thesis
    by (simp add: PrintNLastMessages_def ReturnNLastMessages_def Let_def drop_map)
qed

end
