(* ===== verification/Wire_Format.thy ===== *)
theory Wire_Format
  imports Common_Types
begin

text \<open>
  The frames on the TCP connection (\<open>include/BVTCPCommon.hpp\<close> and the parsing and building code of
  \<open>include/BVTCPSession.hpp\<close>). A message frame is 138 bytes: length, timestamp, type, 128 bytes of
  payload. A file frame is a 21-byte header followed by a payload whose length both ends
  must know. Integers are copied with \<open>memcpy\<close>, so they travel in host order, little-endian
  on every supported machine. Reading past a buffer is an error of the model.
\<close>

section \<open>Sizes and message types\<close>

definition MESSAGE_FRAME_SIZE_BYTES :: nat where "MESSAGE_FRAME_SIZE_BYTES = 138"
definition HEADER_SIZE_BYTES :: nat where "HEADER_SIZE_BYTES = 10"
definition PAYLOAD_SIZE_BYTES :: nat where "PAYLOAD_SIZE_BYTES = 128"
definition FILE_HEADER_SIZE_BYTES :: nat where "FILE_HEADER_SIZE_BYTES = 4 + 8 + 1 + 8"
definition MAX_MESSAGE_SIZE_BYTES :: nat where "MAX_MESSAGE_SIZE_BYTES = 256"
definition TEN_LAST_MESSAGES :: nat where "TEN_LAST_MESSAGES = 10"

definition CTRL_HELLO :: u8 where "CTRL_HELLO = 0"
definition CTRL_HELLOBACK :: u8 where "CTRL_HELLOBACK = 1"
definition CTRL_CONFIRM_ESTABLISHED :: u8 where "CTRL_CONFIRM_ESTABLISHED = 3"
definition CTRL_CONFIRM_CAN_RECEIVE_FILE :: u8 where "CTRL_CONFIRM_CAN_RECEIVE_FILE = 4"
definition REG_CHATMESSAGE :: u8 where "REG_CHATMESSAGE = 5"
definition REG_FILE_TRANSFER_BEGIN :: u8 where "REG_FILE_TRANSFER_BEGIN = 6"
definition REG_FILE_TRANSFER_CHUNK_SENT :: u8 where "REG_FILE_TRANSFER_CHUNK_SENT = 7"
definition REG_FILE_TRANSFER_END :: u8 where "REG_FILE_TRANSFER_END = 8"
definition REG_FILE_OFFER :: u8 where "REG_FILE_OFFER = 9"
definition REG_FILE_ACCEPT :: u8 where "REG_FILE_ACCEPT = 10"
definition REG_FILE_REJECT :: u8 where "REG_FILE_REJECT = 11"

lemmas size_defs [wire_simps] =
  MESSAGE_FRAME_SIZE_BYTES_def HEADER_SIZE_BYTES_def PAYLOAD_SIZE_BYTES_def
  FILE_HEADER_SIZE_BYTES_def MAX_MESSAGE_SIZE_BYTES_def

lemmas msgtype_defs [wire_simps] =
  CTRL_HELLO_def CTRL_HELLOBACK_def CTRL_CONFIRM_ESTABLISHED_def
  CTRL_CONFIRM_CAN_RECEIVE_FILE_def REG_CHATMESSAGE_def REG_FILE_TRANSFER_BEGIN_def
  REG_FILE_TRANSFER_CHUNK_SENT_def REG_FILE_TRANSFER_END_def REG_FILE_OFFER_def
  REG_FILE_ACCEPT_def REG_FILE_REJECT_def

section \<open>Headers, messages, chunks\<close>

record BVTCPFileHeader =
  fh_correlationKey :: u32
  fh_timestamp :: u64
  fh_msgType :: u8
  fh_metadata :: u64

record BVTCPFileChunk =
  fc_header :: BVTCPFileHeader
  fc_payload :: bytes

record BVTCPMessageHeader =
  mh_dataLen :: u8
  mh_timestamp :: u64
  mh_msgType :: u8

record BVTCPMessage =
  m_header :: BVTCPMessageHeader
  m_payload :: bytes  \<comment> \<open>both payload types are 128 characters\<close>

text \<open>\<open>now\<close> is the system clock in milliseconds.\<close>

definition ConstructFileHeader :: "u64 \<Rightarrow> u8 \<Rightarrow> u32 \<Rightarrow> u64 \<Rightarrow> BVTCPFileHeader" where
  "ConstructFileHeader now t key meta =
     \<lparr>fh_correlationKey = key, fh_timestamp = now, fh_msgType = t, fh_metadata = meta\<rparr>"

text \<open>\<open>dataLen\<close> is left uninitialised by the code; \<open>ConstructMessage\<close> stores it.\<close>

definition ConstructMessageHeader :: "u64 \<Rightarrow> u8 \<Rightarrow> BVTCPMessageHeader" where
  "ConstructMessageHeader now t = \<lparr>mh_dataLen = 0, mh_timestamp = now, mh_msgType = t\<rparr>"

definition ConstructMessage :: "BVTCPMessageHeader \<Rightarrow> bytes \<Rightarrow> BVTCPMessage" where
  "ConstructMessage h payload =
     \<lparr>m_header = h\<lparr>mh_dataLen := word_of_nat (length payload)\<rparr>, m_payload = payload\<rparr>"

definition ConstructFileChunk :: "BVTCPFileHeader \<Rightarrow> bytes \<Rightarrow> BVTCPFileChunk" where
  "ConstructFileChunk h payload = \<lparr>fc_header = h, fc_payload = payload\<rparr>"

section \<open>Building frames\<close>

text \<open>The stores \<open>WriteMessageFrame\<close> makes into \<open>writeBuf\<close>.\<close>

definition put_message :: "BVTCPMessage \<Rightarrow> bytes \<Rightarrow> bytes" where
  "put_message m buf =
     (let buf = buf[0 := mh_dataLen (m_header m)];
          buf = memcpy_at buf 1 (le_enc 8 (mh_timestamp (m_header m)));
          buf = buf[9 := mh_msgType (m_header m)]
      in memcpy_at buf HEADER_SIZE_BYTES (m_payload m))"

text \<open>The stores of a file header, as both \<open>WriteFileChunk\<close> functions make them.\<close>

definition put_file_header :: "BVTCPFileHeader \<Rightarrow> bytes \<Rightarrow> bytes" where
  "put_file_header h buf =
     (let buf = memcpy_at buf 0 (le_enc 4 (fh_correlationKey h));
          buf = memcpy_at buf 4 (le_enc 8 (fh_timestamp h));
          buf = memcpy_at buf 12 [fh_msgType h]
      in memcpy_at buf 13 (le_enc 8 (fh_metadata h)))"

text \<open>The zero-initialised frame of \<open>WriteFileChunkSync\<close>.\<close>

definition file_frame :: "BVTCPFileChunk \<Rightarrow> nat \<Rightarrow> bytes" where
  "file_frame chunk payloadBytes =
     (let frame = put_file_header (fc_header chunk) (zeros (FILE_HEADER_SIZE_BYTES + payloadBytes)) in
      if payloadBytes > 0 then
        (let toCopy = (if payloadBytes < length (fc_payload chunk) then payloadBytes
                       else length (fc_payload chunk))
         in memcpy_at frame FILE_HEADER_SIZE_BYTES (take toCopy (fc_payload chunk)))
      else frame)"

text \<open>\<open>csize\<close> in the high half, \<open>fsize\<close> in the low half, and the two masks of the receiver.\<close>

definition pack_metadata :: "u32 \<Rightarrow> u32 \<Rightarrow> u64" where
  "pack_metadata csize fsize = push_bit 32 (ucast csize) OR ucast fsize"

definition metadata_csize :: "u64 \<Rightarrow> u32" where
  "metadata_csize m = ucast (drop_bit 32 (m AND 0xFFFFFFFF00000000))"

definition metadata_fsize :: "u64 \<Rightarrow> u32" where
  "metadata_fsize m = ucast (m AND 0x0000000FFFFFFFFF)"

section \<open>Parsing frames\<close>

definition GetMsgHeader :: "bytes option \<Rightarrow> BVTCPMessageHeader result" where
  "GetMsgHeader b =
     (case b of
        None \<Rightarrow> Inl Null_Deref
      | Some buf \<Rightarrow>
          (if length buf < HEADER_SIZE_BYTES then Inl Out_Of_Bounds
           else Inr \<lparr>mh_dataLen = buf ! 0, mh_timestamp = le_dec (take 8 (drop 1 buf)),
                     mh_msgType = buf ! 9\<rparr>))"

definition GetFileHeader :: "bytes option \<Rightarrow> BVTCPFileHeader result" where
  "GetFileHeader b =
     (case b of
        None \<Rightarrow> Inl Null_Deref
      | Some buf \<Rightarrow>
          (if length buf < FILE_HEADER_SIZE_BYTES then Inl Out_Of_Bounds
           else Inr \<lparr>fh_correlationKey = le_dec (take 4 buf), fh_timestamp = le_dec (take 8 (drop 4 buf)),
                     fh_msgType = buf ! 12, fh_metadata = le_dec (take 8 (drop 13 buf))\<rparr>))"

text \<open>The one-argument \<open>GetFileData\<close>: copies up to the first zero byte, wherever it is.\<close>

definition GetFileData_str :: "bytes option \<Rightarrow> bytes result" where
  "GetFileData_str b =
     (case b of
        None \<Rightarrow> Inl Null_Deref
      | Some buf \<Rightarrow>
          (let rest = drop FILE_HEADER_SIZE_BYTES buf in
           if 0 \<in> set rest then Inr (takeWhile (\<lambda>c. c \<noteq> 0) rest) else Inl Out_Of_Bounds))"

definition GetFileData :: "bytes option \<Rightarrow> nat \<Rightarrow> bytes result" where
  "GetFileData b csize =
     (case b of
        None \<Rightarrow> Inl Null_Deref
      | Some buf \<Rightarrow>
          (if length buf < FILE_HEADER_SIZE_BYTES + csize then Inl Out_Of_Bounds
           else Inr (take csize (drop FILE_HEADER_SIZE_BYTES buf))))"

text \<open>
  \<open>reinterpret_cast<const HelloMsg *> (readBuf.get ())->header.msgType\<close>: in the struct the
  64-bit timestamp is aligned to offset 8, so \<open>msgType\<close> is the byte at offset 16.
\<close>

definition HelloMsg_msgType :: "bytes option \<Rightarrow> u8 result" where
  "HelloMsg_msgType b =
     (case b of
        None \<Rightarrow> Inl Null_Deref
      | Some buf \<Rightarrow> (if length buf < 17 then Inl Out_Of_Bounds else Inr (buf ! 16)))"

text \<open>The layout of a frame, written as a concatenation.\<close>

definition msg_bytes :: "BVTCPMessage \<Rightarrow> bytes" where
  "msg_bytes m = mh_dataLen (m_header m) # le_enc 8 (mh_timestamp (m_header m)) @
     mh_msgType (m_header m) # m_payload m"

definition file_header_bytes :: "BVTCPFileHeader \<Rightarrow> bytes" where
  "file_header_bytes h = le_enc 4 (fh_correlationKey h) @ le_enc 8 (fh_timestamp h) @
     [fh_msgType h] @ le_enc 8 (fh_metadata h)"

section \<open>Layout\<close>

lemma length_file_header_bytes [simp]: "length (file_header_bytes h) = 21"
  by (simp add: file_header_bytes_def)

lemma length_msg_bytes [simp]: "length (msg_bytes m) = 10 + length (m_payload m)"
  by (simp add: msg_bytes_def)

lemma memcpy_at_0: "memcpy_at buf 0 src = src @ drop (length src) buf"
  by (simp add: memcpy_at_def)

lemma memcpy_at_append:
  "length pre = off \<Longrightarrow> memcpy_at (pre @ buf) off src = pre @ src @ drop (length src) buf"
  by (simp add: memcpy_at_def)

lemma put_message_layout:
  assumes "138 \<le> length buf" and "length (m_payload m) = 128"
  shows "put_message m buf = msg_bytes m @ drop 138 buf"
proof -
  obtain b0 r0 where b0: "buf = b0 # r0" using assms(1) by (cases buf) auto
  have "9 \<le> length (drop 8 r0)" using assms(1) b0 by simp
  then obtain b9 r1 where b9: "drop 8 r0 = b9 # r1" by (cases "drop 8 r0") auto
  have r1: "drop 128 r1 = drop 138 buf"
  proof -
    have "drop 128 r1 = drop 129 (drop 8 r0)" using b9 by simp
    also have "\<dots> = drop 137 r0" by simp
    finally show ?thesis using b0 by simp
  qed
  let ?ts = "le_enc 8 (mh_timestamp (m_header m))"
  have "memcpy_at (buf[0 := mh_dataLen (m_header m)]) 1 ?ts = (mh_dataLen (m_header m) # ?ts) @ b9 # r1"
    using b0 b9 memcpy_at_append [of "[mh_dataLen (m_header m)]" 1 r0 ?ts] by simp
  moreover have "((mh_dataLen (m_header m) # ?ts) @ b9 # r1)[9 := mh_msgType (m_header m)] =
      (mh_dataLen (m_header m) # ?ts @ [mh_msgType (m_header m)]) @ r1"
    by (simp add: list_update_append)
  ultimately show ?thesis
    using r1 assms(2)
    by (simp add: put_message_def msg_bytes_def HEADER_SIZE_BYTES_def
        memcpy_at_append [of "mh_dataLen (m_header m) # ?ts @ [mh_msgType (m_header m)]", simplified])
qed

lemma put_file_header_layout:
  assumes "21 \<le> length buf"
  shows "put_file_header h buf = file_header_bytes h @ drop 21 buf"
  using assms
  by (simp add: put_file_header_def file_header_bytes_def memcpy_at_def take_Cons' drop_Cons')

lemma drop_zeros [simp]: "drop k (zeros n) = zeros (n - k)"
  by (simp add: zeros_def)

lemma file_frame_layout:
  "file_frame c n = file_header_bytes (fc_header c) @ take n (fc_payload c) @
     zeros (n - length (fc_payload c))"
proof -
  have "put_file_header (fc_header c) (zeros (21 + n)) = file_header_bytes (fc_header c) @ zeros n"
    by (simp add: put_file_header_layout)
  then show ?thesis
    by (auto simp: file_frame_def FILE_HEADER_SIZE_BYTES_def memcpy_at_append Let_def)
qed

lemma length_file_frame [simp]: "length (file_frame c n) = 21 + n"
  by (simp add: file_frame_layout)

section \<open>Round trips\<close>

lemma GetMsgHeader_msg_bytes: "GetMsgHeader (Some (msg_bytes m @ rest)) = Inr (m_header m)"
  by (simp add: GetMsgHeader_def msg_bytes_def HEADER_SIZE_BYTES_def nth_append)

lemma GetFileHeader_bytes: "GetFileHeader (Some (file_header_bytes h @ rest)) = Inr h"
  by (simp add: GetFileHeader_def file_header_bytes_def FILE_HEADER_SIZE_BYTES_def nth_append)

lemma GetFileHeader_frame: "GetFileHeader (Some (file_frame c n)) = Inr (fc_header c)"
  by (simp add: file_frame_layout GetFileHeader_bytes)

lemma GetFileData_frame:
  "GetFileData (Some (file_frame c n)) n = Inr (take n (fc_payload c) @ zeros (n - length (fc_payload c)))"
  by (simp add: GetFileData_def file_frame_layout FILE_HEADER_SIZE_BYTES_def)

lemma GetFileData_str_frame:
  assumes "0 \<notin> set s" and "length s < n"
  shows "GetFileData_str (Some (file_frame \<lparr>fc_header = h, fc_payload = s @ [0]\<rparr> n)) = Inr s"
  using assms
  by (simp add: GetFileData_str_def file_frame_layout FILE_HEADER_SIZE_BYTES_def takeWhile_stop)

lemma high_mask: "(0xFFFFFFFF00000000 :: u64) = push_bit 32 (mask 32)"
  by (simp add: mask_eq_exp_minus_1 push_bit_eq_mult)

lemma low_mask: "(0x0000000FFFFFFFFF :: u64) = mask 36"
  by (simp add: mask_eq_exp_minus_1)

lemma metadata_csize_pack [simp]: "metadata_csize (pack_metadata c f) = c"
  unfolding metadata_csize_def pack_metadata_def high_mask
  by (rule bit_word_eqI) (auto simp: bit_simps dest: bit_imp_le_length)

lemma metadata_fsize_pack [simp]: "metadata_fsize (pack_metadata c f) = f"
  unfolding metadata_fsize_def pack_metadata_def low_mask
  by (rule bit_word_eqI) (auto simp: bit_simps dest: bit_imp_le_length)

section \<open>Properties\<close>

text \<open>C19: a message written into the write buffer by \<open>WriteMessageFrame\<close> is read back by the receiver's \<open>GetMsgHeader\<close> and payload pointer with the same length, timestamp, type and payload, and the bytes of the buffer behind the frame are left as they were.\<close>

theorem message_frame_roundtrip:
  assumes "138 \<le> length buf" and "length (m_payload m) = 128"
  shows "GetMsgHeader (Some (put_message m buf)) = Inr (m_header m) \<and>
    take PAYLOAD_SIZE_BYTES (drop HEADER_SIZE_BYTES (put_message m buf)) = m_payload m \<and>
    length (put_message m buf) = length buf \<and> drop MESSAGE_FRAME_SIZE_BYTES (put_message m buf) = drop MESSAGE_FRAME_SIZE_BYTES buf"
proof -
  have eq: "put_message m buf = msg_bytes m @ drop 138 buf" by (rule put_message_layout [OF assms])
  have "take 128 (drop 10 (msg_bytes m @ drop 138 buf)) = m_payload m" using assms(2) by (simp add: msg_bytes_def)
  moreover have "length (msg_bytes m) = 138" using assms(2) by (simp add: msg_bytes_def)
  ultimately show ?thesis
    unfolding eq using assms GetMsgHeader_msg_bytes [of m "drop 138 buf"]
    by (simp add: PAYLOAD_SIZE_BYTES_def HEADER_SIZE_BYTES_def MESSAGE_FRAME_SIZE_BYTES_def)
qed

theorem message_frame_roundtrip_witness:
  "GetMsgHeader (Some (put_message \<lparr>m_header = \<lparr>mh_dataLen = 2, mh_timestamp = 1700000000000, mh_msgType = REG_CHATMESSAGE\<rparr>,
      m_payload = zeros 128\<rparr> (zeros 138))) = Inr \<lparr>mh_dataLen = 2, mh_timestamp = 1700000000000, mh_msgType = REG_CHATMESSAGE\<rparr>"
  using message_frame_roundtrip [of "zeros 138" "\<lparr>m_header = \<lparr>mh_dataLen = 2, mh_timestamp = 1700000000000, mh_msgType = REG_CHATMESSAGE\<rparr>,
      m_payload = zeros 128\<rparr>"] by simp

text \<open>C20: a file frame is 21 bytes longer than its payload; the receiver reads back its header, its payload padded with zero bytes, and from the metadata word the chunk size and the file size the sender packed.\<close>

theorem file_frame_roundtrip:
  "length (file_frame c n) = FILE_HEADER_SIZE_BYTES + n \<and> GetFileHeader (Some (file_frame c n)) = Inr (fc_header c) \<and>
   GetFileData (Some (file_frame c n)) n = Inr (take n (fc_payload c) @ zeros (n - length (fc_payload c))) \<and>
   metadata_csize (pack_metadata cs fs) = cs \<and> metadata_fsize (pack_metadata cs fs) = fs"
  by (simp add: GetFileHeader_frame GetFileData_frame FILE_HEADER_SIZE_BYTES_def)

end
