(* ===== verification/Tcp_Session.thy ===== *)
theory Tcp_Session
  imports Wire_Format
begin

text \<open>
  The state of one TCP session (\<open>BVTCPNodeConnectionSessionData\<close> and \<open>BVTCPSession\<close>) and the
  operations on its buffers and its socket; the handlers of received frames, which call the
  connection manager, are in \<open>Session_Handlers\<close>.

  Boost.Asio is not part of the repository. What the code relies on is made explicit in the
  socket record. \<open>rx\<close> holds the bytes that have arrived and were not read, \<open>tx\<close> the bytes handed
  to the connection, in order. \<open>async_read\<close> of \<open>n\<close> bytes completes when \<open>n\<close> bytes have been
  stored at the given place of the buffer; requests are served in the order they were made.
  Asio may store the bytes at any time from the call on: \<open>speculative\<close> selects whether a read
  that can be satisfied at once is performed inside the call (as its reactors do) or only
  when the event loop gets to it. A write hands its bytes over at the call; a broken
  connection makes writes fail.
\<close>

section \<open>State\<close>

datatype BVSessionState =
    BVSESSIONSTATE_UNPREPARED
  | BVSESSIONSTATE_ESTABLISHED
  | BVSESSIONSTATE_CLOSED

datatype BVSessionOrigin =
    BVSESSIONORIGIN_INGOING
  | BVSESSIONORIGIN_OUTGOING

datatype read_target = To_readBuf | To_fileReadBuf

record read_req =
  rr_target :: read_target
  rr_off :: nat
  rr_len :: nat
  rr_filled :: bool

record sock =
  rx :: bytes
  tx :: bytes
  reads :: "read_req list"
  writes :: "(bool \<times> nat) list"  \<comment> \<open>finished writes whose handlers are due: error?, bytes\<close>
  speculative :: bool
  broken :: bool
  remote_endpoint :: endpoint

record session =
  sessionID :: u16
  nodeData :: BVNode
  sstate :: BVSessionState
  origin :: "BVSessionOrigin option"
  alive :: bool
  writeBuf :: bytes
  readBuf :: "bytes option"
  fileReadBuf :: "bytes option"
  s_fsize :: u32
  s_csize :: u32
  totalBytesWritten :: nat
  totalBytesRead :: nat
  thisMachineServiceName :: bytes
  sk :: sock

section \<open>Buffers\<close>

definition ClearReadBuffer :: "session \<Rightarrow> session result" where
  "ClearReadBuffer s =
     (case readBuf s of
        None \<Rightarrow> Inl Null_Deref
      | Some b \<Rightarrow>
          (if length b < MESSAGE_FRAME_SIZE_BYTES then Inl Out_Of_Bounds
           else Inr (s\<lparr>readBuf := Some (zeros MESSAGE_FRAME_SIZE_BYTES @ drop MESSAGE_FRAME_SIZE_BYTES b),
                       totalBytesRead := 0\<rparr>)))"

definition ClearWriteBuffer :: "session \<Rightarrow> session" where
  "ClearWriteBuffer s = s\<lparr>totalBytesWritten := 0, writeBuf := zeros MESSAGE_FRAME_SIZE_BYTES\<rparr>"

definition ClearFileBuffer :: "session \<Rightarrow> session" where
  "ClearFileBuffer s = s\<lparr>fileReadBuf := Some (zeros 1)\<rparr>"

definition GetPayloadPtr :: "session \<Rightarrow> bytes option" where
  "GetPayloadPtr s = map_option (drop HEADER_SIZE_BYTES) (readBuf s)"

definition new_sessionData :: "BVNode \<Rightarrow> sock \<Rightarrow> u16 \<Rightarrow> bytes \<Rightarrow> session" where
  "new_sessionData node k sid name =
     \<lparr>sessionID = sid, nodeData = node, sstate = BVSESSIONSTATE_UNPREPARED, origin = None,
      alive = False, writeBuf = [], readBuf = None, fileReadBuf = None, s_fsize = 0, s_csize = 0,
      totalBytesWritten = 0, totalBytesRead = 0, thisMachineServiceName = name, sk = k\<rparr>"

definition BVTCPSession_ctor :: "session \<Rightarrow> session result" where
  "BVTCPSession_ctor d =
     rbind (ClearReadBuffer
       (d\<lparr>sstate := BVSESSIONSTATE_UNPREPARED, alive := True,
          readBuf := Some (zeros MESSAGE_FRAME_SIZE_BYTES), fileReadBuf := Some (zeros 1)\<rparr>))
       (\<lambda>s. Inr (ClearWriteBuffer s))"

definition Close :: "session \<Rightarrow> session" where
  "Close s =
     s\<lparr>sstate := BVSESSIONSTATE_CLOSED, sk := (sk s)\<lparr>reads := []\<rparr>, readBuf := None, writeBuf := []\<rparr>"

definition session_dtor :: "session \<Rightarrow> session" where
  "session_dtor s = (if sstate s \<noteq> BVSESSIONSTATE_CLOSED then Close s else s)"

section \<open>Reading from the socket\<close>

text \<open>Perform the oldest read request if enough bytes have arrived.\<close>

definition fill_read :: "session \<Rightarrow> session result" where
  "fill_read s =
     (case reads (sk s) of
        [] \<Rightarrow> Inr s
      | r # rs \<Rightarrow>
          (if rr_filled r \<or> length (rx (sk s)) < rr_len r then Inr s
           else
             (let data = take (rr_len r) (rx (sk s));
                  s' = s\<lparr>sk := (sk s)\<lparr>rx := drop (rr_len r) (rx (sk s)),
                                        reads := r\<lparr>rr_filled := True\<rparr> # rs\<rparr>\<rparr>
              in case rr_target r of
                   To_readBuf \<Rightarrow>
                     (case readBuf s of
                        None \<Rightarrow> Inl Null_Deref
                      | Some b \<Rightarrow>
                          (if length b < rr_off r + rr_len r then Inl Out_Of_Bounds
                           else Inr (s'\<lparr>readBuf := Some (memcpy_at b (rr_off r) data)\<rparr>)))
                 | To_fileReadBuf \<Rightarrow>
                     (case fileReadBuf s of
                        None \<Rightarrow> Inl Null_Deref
                      | Some b \<Rightarrow>
                          (if length b < rr_off r + rr_len r then Inl Out_Of_Bounds
                           else Inr (s'\<lparr>fileReadBuf := Some (memcpy_at b (rr_off r) data)\<rparr>))))))"

definition async_read :: "read_target \<Rightarrow> nat \<Rightarrow> nat \<Rightarrow> session \<Rightarrow> session result" where
  "async_read t off n s =
     (let r = \<lparr>rr_target = t, rr_off = off, rr_len = n, rr_filled = False\<rparr>;
          s' = s\<lparr>sk := (sk s)\<lparr>reads := reads (sk s) @ [r]\<rparr>\<rparr>
      in if speculative (sk s) \<and> reads (sk s) = [] then fill_read s' else Inr s')"

definition StartReadingFrames :: "session \<Rightarrow> session result" where
  "StartReadingFrames s =
     (if readBuf s = None then Inl Null_Deref
      else if totalBytesRead s > MESSAGE_FRAME_SIZE_BYTES then Inl Out_Of_Bounds
      else async_read To_readBuf (totalBytesRead s) (MESSAGE_FRAME_SIZE_BYTES - totalBytesRead s) s)"

definition RequestReadingFrames :: "session \<Rightarrow> session result" where
  "RequestReadingFrames s = StartReadingFrames s"

definition StartReadingChunks :: "u32 \<Rightarrow> session \<Rightarrow> session result" where
  "StartReadingChunks csize s =
     (if fileReadBuf s = None then Inr s
      else if totalBytesRead s > unat csize then Inr s
      else
        (let remaining = unat csize - totalBytesRead s in
         if remaining = 0 then Inr s
         else async_read To_fileReadBuf (totalBytesRead s) remaining s))"

section \<open>Writing to the socket\<close>

definition async_write :: "bytes \<Rightarrow> session \<Rightarrow> session" where
  "async_write d s =
     (if broken (sk s) then s\<lparr>sk := (sk s)\<lparr>writes := writes (sk s) @ [(True, 0)]\<rparr>\<rparr>
      else s\<lparr>sk := (sk s)\<lparr>tx := tx (sk s) @ d, writes := writes (sk s) @ [(False, length d)]\<rparr>\<rparr>)"

definition WriteMessageFrame :: "BVTCPMessage \<Rightarrow> session \<Rightarrow> session result" where
  "WriteMessageFrame m s =
     (let s = s\<lparr>totalBytesWritten := 0\<rparr> in
      if length (m_payload m) > MESSAGE_FRAME_SIZE_BYTES - 10 then Inr s
      else if length (writeBuf s) < 10 + length (m_payload m) then Inl Out_Of_Bounds
      else (let s = s\<lparr>writeBuf := put_message m (writeBuf s)\<rparr> in
            if writeBuf s = [] then Inl Assert_Failed else Inr (async_write (writeBuf s) s)))"

definition WriteMessageFrameCallback :: "bool \<Rightarrow> nat \<Rightarrow> session \<Rightarrow> session" where
  "WriteMessageFrameCallback ec bytes_transferred s =
     (if ec then s
      else
        (let s = s\<lparr>totalBytesWritten := totalBytesWritten s + bytes_transferred\<rparr> in
         if totalBytesWritten s = length (writeBuf s) \<or> writeBuf s = [] \<or>
            totalBytesWritten s = MESSAGE_FRAME_SIZE_BYTES
         then (if sstate s \<noteq> BVSESSIONSTATE_CLOSED then ClearWriteBuffer s else s)
         else async_write (writeBuf s) s))"

definition WriteFileChunk :: "BVTCPFileChunk \<Rightarrow> nat \<Rightarrow> session \<Rightarrow> session result" where
  "WriteFileChunk chunk payloadBytes s =
     (let s = s\<lparr>totalBytesWritten := 0\<rparr> in
      if payloadBytes > length (fc_payload chunk) \<and>
         fh_msgType (fc_header chunk) \<noteq> REG_FILE_TRANSFER_BEGIN then Inr s
      else if payloadBytes > 2 ^ 32 - 1 then Inr s
      else if payloadBytes > length (fc_payload chunk) then Inl Out_Of_Bounds
      else
        (let buf = resize (FILE_HEADER_SIZE_BYTES + payloadBytes) (writeBuf s);
             buf = put_file_header (fc_header chunk) buf;
             buf = (if payloadBytes > 0
                    then memcpy_at buf FILE_HEADER_SIZE_BYTES (take payloadBytes (fc_payload chunk))
                    else buf)
         in Inr (async_write buf (s\<lparr>writeBuf := buf\<rparr>))))"

definition WriteFileChunkCallback :: "bool \<Rightarrow> nat \<Rightarrow> session \<Rightarrow> session" where
  "WriteFileChunkCallback ec bytes_transferred s =
     (if ec then s else ClearWriteBuffer (s\<lparr>totalBytesWritten := bytes_transferred\<rparr>))"

definition WriteFileChunkSync :: "BVTCPFileChunk \<Rightarrow> nat \<Rightarrow> session \<Rightarrow> bool \<times> session" where
  "WriteFileChunkSync chunk payloadBytes s =
     (if payloadBytes > 2 ^ 32 - 1 then (False, s)
      else if broken (sk s) then (False, s)
      else (True, s\<lparr>sk := (sk s)\<lparr>tx := tx (sk s) @ file_frame chunk payloadBytes\<rparr>\<rparr>))"

definition SendFileOffer :: "u64 \<Rightarrow> u32 \<Rightarrow> u32 \<Rightarrow> bytes \<Rightarrow> session \<Rightarrow> session" where
  "SendFileOffer now key fsize name s =
     (let payload = thisMachineServiceName s @ str ''|'' @ name @ [0];
          header = ConstructFileHeader now REG_FILE_OFFER key (ucast fsize)
      in snd (WriteFileChunkSync (ConstructFileChunk header payload)
                (MESSAGE_FRAME_SIZE_BYTES - FILE_HEADER_SIZE_BYTES) s))"

definition SendFileControl :: "u64 \<Rightarrow> u32 \<Rightarrow> u8 \<Rightarrow> session \<Rightarrow> session" where
  "SendFileControl now key t s =
     snd (WriteFileChunkSync (ConstructFileChunk (ConstructFileHeader now t key 0) [])
            (MESSAGE_FRAME_SIZE_BYTES - FILE_HEADER_SIZE_BYTES) s)"

text \<open>
  The buffers of an open session: a whole message frame in each direction, and room for the
  outstanding reads.
\<close>

definition req_fits :: "session \<Rightarrow> read_req \<Rightarrow> bool" where
  "req_fits s r \<longleftrightarrow>
     (case rr_target r of
        To_readBuf \<Rightarrow> (case readBuf s of Some b \<Rightarrow> rr_off r + rr_len r \<le> length b | None \<Rightarrow> False)
      | To_fileReadBuf \<Rightarrow>
          (case fileReadBuf s of Some b \<Rightarrow> rr_off r + rr_len r \<le> length b | None \<Rightarrow> False))"

definition session_inv :: "session \<Rightarrow> bool" where
  "session_inv s \<longleftrightarrow>
     (sstate s \<noteq> BVSESSIONSTATE_CLOSED \<longrightarrow>
        (\<exists>b. readBuf s = Some b \<and> length b = 138) \<and> fileReadBuf s \<noteq> None) \<and>
     (\<forall>r \<in> set (reads (sk s)). req_fits s r) \<and>
     totalBytesRead s \<le> 138"

section \<open>The invariant\<close>

text \<open>The invariant speaks of the read side only.\<close>

lemma session_inv_cong:
  assumes "session_inv s" and "readBuf s' = readBuf s" "fileReadBuf s' = fileReadBuf s"
    and "reads (sk s') = reads (sk s)" "totalBytesRead s' = totalBytesRead s"
    and "sstate s = BVSESSIONSTATE_CLOSED \<Longrightarrow> sstate s' = BVSESSIONSTATE_CLOSED"
  shows "session_inv s'"
proof -
  have "req_fits s' = req_fits s" unfolding fun_eq_iff req_fits_def assms(2,3) by simp
  then show ?thesis using assms by (auto simp: session_inv_def)
qed

lemma ClearReadBuffer_ok:
  "readBuf s = Some b \<Longrightarrow> length b = 138 \<Longrightarrow>
     ClearReadBuffer s = Inr (s\<lparr>readBuf := Some (zeros 138), totalBytesRead := 0\<rparr>)"
  by (simp add: ClearReadBuffer_def MESSAGE_FRAME_SIZE_BYTES_def)

lemma ctor_session_inv:
  "reads k = [] \<Longrightarrow>
     \<exists>s. BVTCPSession_ctor (new_sessionData node k sid name) = Inr s \<and> session_inv s \<and>
         length (writeBuf s) = 138 \<and> sstate s = BVSESSIONSTATE_UNPREPARED"
  by (simp add: BVTCPSession_ctor_def new_sessionData_def ClearReadBuffer_def ClearWriteBuffer_def
      session_inv_def MESSAGE_FRAME_SIZE_BYTES_def)

lemma Close_session_inv: "session_inv s \<Longrightarrow> session_inv (Close s)"
  by (simp add: session_inv_def Close_def)

lemma fill_read_ok:
  assumes "session_inv s"
  shows "\<exists>s'. fill_read s = Inr s' \<and> session_inv s'"
proof (cases "reads (sk s)")
  case Nil
  then show ?thesis using assms by (simp add: fill_read_def)
next
  case (Cons r rs)
  have fits: "req_fits s r" using assms Cons by (simp add: session_inv_def)
  have rs: "\<forall>x \<in> set rs. req_fits s x" using assms Cons by (simp add: session_inv_def)
  show ?thesis
  proof (cases "rr_filled r \<or> length (rx (sk s)) < rr_len r")
    case True
    then show ?thesis using assms Cons by (auto simp: fill_read_def)
  next
    case False
    show ?thesis
    proof (cases "rr_target r")
      case To_readBuf
      with fits obtain b where b: "readBuf s = Some b" "rr_off r + rr_len r \<le> length b"
        by (auto simp: req_fits_def split: option.splits)
      show ?thesis
        using assms Cons False To_readBuf b rs fits
        by (auto simp: fill_read_def session_inv_def req_fits_def Let_def
            split: read_target.splits)
    next
      case To_fileReadBuf
      with fits obtain b where b: "fileReadBuf s = Some b" "rr_off r + rr_len r \<le> length b"
        by (auto simp: req_fits_def split: option.splits)
      show ?thesis
        using assms Cons False To_fileReadBuf b rs fits
        by (auto simp: fill_read_def session_inv_def req_fits_def Let_def
            split: read_target.splits)
    qed
  qed
qed

lemma async_read_ok:
  assumes "session_inv s" and "req_fits s \<lparr>rr_target = t, rr_off = off, rr_len = n, rr_filled = False\<rparr>"
  shows "\<exists>s'. async_read t off n s = Inr s' \<and> session_inv s'"
proof -
  have "session_inv (s\<lparr>sk := (sk s)\<lparr>reads := reads (sk s) @
          [\<lparr>rr_target = t, rr_off = off, rr_len = n, rr_filled = False\<rparr>]\<rparr>\<rparr>)"
    using assms by (auto simp: session_inv_def req_fits_def split: read_target.splits option.splits)
  with fill_read_ok show ?thesis
    by (auto simp: async_read_def Let_def)
qed

lemma StartReadingFrames_ok:
  assumes "session_inv s" and "sstate s \<noteq> BVSESSIONSTATE_CLOSED"
  shows "\<exists>s'. StartReadingFrames s = Inr s' \<and> session_inv s'"
proof -
  obtain b where b: "readBuf s = Some b" "length b = 138" "totalBytesRead s \<le> 138"
    using assms by (auto simp: session_inv_def)
  then have "req_fits s \<lparr>rr_target = To_readBuf, rr_off = totalBytesRead s,
      rr_len = MESSAGE_FRAME_SIZE_BYTES - totalBytesRead s, rr_filled = False\<rparr>"
    by (simp add: req_fits_def MESSAGE_FRAME_SIZE_BYTES_def)
  from async_read_ok [OF assms(1) this] b show ?thesis
    by (simp add: StartReadingFrames_def MESSAGE_FRAME_SIZE_BYTES_def)
qed

section \<open>What the write operations put on the connection\<close>

lemma WriteMessageFrame_tx:
  assumes "length (writeBuf s) = 138" and "length (m_payload m) = 128" and "\<not> broken (sk s)"
  shows "WriteMessageFrame m s =
    Inr (s\<lparr>totalBytesWritten := 0, writeBuf := msg_bytes m,
           sk := (sk s)\<lparr>tx := tx (sk s) @ msg_bytes m, writes := writes (sk s) @ [(False, 138)]\<rparr>\<rparr>)"
proof -
  have "put_message m (writeBuf s) = msg_bytes m"
    using assms by (simp add: put_message_layout)
  moreover have "msg_bytes m \<noteq> []" by (simp add: msg_bytes_def)
  ultimately show ?thesis
    using assms
    by (simp add: WriteMessageFrame_def async_write_def MESSAGE_FRAME_SIZE_BYTES_def Let_def)
qed

lemma WriteFileChunkSync_tx:
  "n < 2 ^ 32 \<Longrightarrow> \<not> broken (sk s) \<Longrightarrow>
     WriteFileChunkSync c n s = (True, s\<lparr>sk := (sk s)\<lparr>tx := tx (sk s) @ file_frame c n\<rparr>\<rparr>)"
  by (simp add: WriteFileChunkSync_def)

text \<open>The completion handler of a whole frame restores the 138-byte write buffer.\<close>

lemma WriteMessageFrameCallback_restores:
  assumes "sstate s \<noteq> BVSESSIONSTATE_CLOSED" and "totalBytesWritten s + n = 138"
  shows "writeBuf (WriteMessageFrameCallback False n s) = zeros 138"
  using assms by (simp add: WriteMessageFrameCallback_def ClearWriteBuffer_def
      MESSAGE_FRAME_SIZE_BYTES_def)

section \<open>What reads and writes leave alone\<close>

definition same_peer :: "session \<Rightarrow> session \<Rightarrow> bool" where
  "same_peer s s' \<longleftrightarrow>
     sessionID s' = sessionID s \<and> nodeData s' = nodeData s \<and> sstate s' = sstate s \<and>
     origin s' = origin s \<and> thisMachineServiceName s' = thisMachineServiceName s \<and>
     broken (sk s') = broken (sk s) \<and> remote_endpoint (sk s') = remote_endpoint (sk s) \<and>
     s_csize s' = s_csize s \<and> s_fsize s' = s_fsize s"

lemma same_peer_refl [simp]: "same_peer s s"
  by (simp add: same_peer_def)

lemma fill_read_frame:
  "fill_read s = Inr s' \<Longrightarrow>
     same_peer s s' \<and> tx (sk s') = tx (sk s) \<and> writeBuf s' = writeBuf s \<and> writes (sk s') = writes (sk s) \<and>
     totalBytesRead s' = totalBytesRead s"
  by (auto simp: fill_read_def same_peer_def Let_def
      split: list.splits option.splits if_splits read_target.splits)

lemma async_read_frame:
  "async_read t off n s = Inr s' \<Longrightarrow>
     same_peer s s' \<and> tx (sk s') = tx (sk s) \<and> writeBuf s' = writeBuf s \<and> writes (sk s') = writes (sk s) \<and>
     totalBytesRead s' = totalBytesRead s"
  by (auto simp: async_read_def Let_def same_peer_def dest!: fill_read_frame split: if_splits)

lemma StartReadingFrames_frame:
  "StartReadingFrames s = Inr s' \<Longrightarrow>
     same_peer s s' \<and> tx (sk s') = tx (sk s) \<and> writeBuf s' = writeBuf s \<and> writes (sk s') = writes (sk s) \<and>
     totalBytesRead s' = totalBytesRead s"
  by (auto simp: StartReadingFrames_def dest!: async_read_frame split: if_splits)

text \<open>A request that cannot be served at once is only queued.\<close>

lemma StartReadingFrames_queued:
  assumes "readBuf s = Some b" and "totalBytesRead s = 0"
    and "\<not> speculative (sk s) \<or> reads (sk s) \<noteq> [] \<or> length (rx (sk s)) < 138"
  shows "StartReadingFrames s = Inr (s\<lparr>sk := (sk s)\<lparr>reads := reads (sk s) @
       [\<lparr>rr_target = To_readBuf, rr_off = 0, rr_len = 138, rr_filled = False\<rparr>]\<rparr>\<rparr>)"
  using assms by (auto simp: StartReadingFrames_def async_read_def fill_read_def MESSAGE_FRAME_SIZE_BYTES_def Let_def)

section \<open>A concrete session\<close>

text \<open>An established session with a quiet peer, used where a property is shown at concrete values.\<close>

definition example_sock :: sock where
  "example_sock = \<lparr>rx = [], tx = [], reads = [], writes = [], speculative = False, broken = False, remote_endpoint = ([], 0)\<rparr>"

definition example_session :: "bytes \<Rightarrow> bytes \<Rightarrow> session" where
  "example_session me peer =
     \<lparr>sessionID = 0, nodeData = BVNode_default\<lparr>n_serviceName := peer\<rparr>, sstate = BVSESSIONSTATE_ESTABLISHED,
      origin = None, alive = True, writeBuf = zeros 138, readBuf = Some (zeros 138), fileReadBuf = Some (zeros 1),
      s_fsize = 0, s_csize = 0, totalBytesWritten = 0, totalBytesRead = 0, thisMachineServiceName = me,
      sk = example_sock\<lparr>reads := [\<lparr>rr_target = To_readBuf, rr_off = 0, rr_len = 138, rr_filled = False\<rparr>]\<rparr>\<rparr>"

end
