(* ===== verification/File_Transfer.thy ===== *)
theory File_Transfer
  imports Tcp_Session
begin

text \<open>
  \<open>include/BVFileTransferContext.hpp\<close>: the sending side of a file transfer. The file is the byte
  list still to be read; \<open>ft_good\<close> is the stream state the worker loop tests. Sizes are
  \<open>uint32_t\<close> and wrap. The worker loop is \<open>partial_function (option)\<close>; the theorems show that it
  returns and what it has then written, and name the inputs on which it never returns.
\<close>

section \<open>State\<close>

datatype FileTransferState =
    FILETRANSFERSTATE_FIRST_CHUNK
  | FILETRANSFERSTATE_ONGOING
  | FILETRANSFERSTATE_LAST_CHUNK

record ftctx =
  ft_handle :: bytes  \<comment> \<open>what \<open>fhandle\<close> has not read yet\<close>
  ft_good :: bool
  ft_open :: bool
  ft_fsize :: u32
  ft_ftcid :: u32
  ft_fname :: bytes
  ft_state :: FileTransferState
  ft_csize :: u32
  ft_bytesSent :: u32
  ft_isRunning :: bool

type_synonym progress = "u32 \<times> u32 \<times> bytes"

section \<open>Operations\<close>

definition DetermineChunkSize :: "u32 \<Rightarrow> u32" where
  "DetermineChunkSize fsize =
     (if fsize < 256 then 64
      else if fsize < 1000 then 256
      else if fsize > 1024 \<and> fsize < 8000 then 512
      else if fsize > 8000 \<and> fsize < 64000 then 4096
      else if fsize > 64000 \<and> fsize < 256000 then 32768
      else if fsize > 256000 \<and> fsize < 1000000 then 65536
      else if fsize > 1000000 \<and> fsize < 5000000 then 524288
      else 1048676)"

definition BVFileTransferContext_ctor :: "bool \<Rightarrow> bytes \<Rightarrow> bytes \<Rightarrow> u32 \<Rightarrow> ftctx" where
  "BVFileTransferContext_ctor opened content fname ftcid =
     (let fsize = word_of_nat (length content) in
      \<lparr>ft_handle = content, ft_good = opened, ft_open = opened, ft_fsize = fsize, ft_ftcid = ftcid,
       ft_fname = fname, ft_state = FILETRANSFERSTATE_FIRST_CHUNK,
       ft_csize = DetermineChunkSize fsize, ft_bytesSent = 0, ft_isRunning = True\<rparr>)"

definition begin_payload :: "bytes \<Rightarrow> bytes \<Rightarrow> bytes" where
  "begin_payload service fname = service @ str ''|'' @ fname @ [0]"

definition TransferNextChunk :: "u64 \<Rightarrow> ftctx \<Rightarrow> session \<Rightarrow> ftctx \<times> session \<times> progress option" where
  "TransferNextChunk now c s =
     (if ft_state c = FILETRANSFERSTATE_FIRST_CHUNK then
        (let metadata = pack_metadata (ft_csize c) (ft_fsize c);
             header = ConstructFileHeader now REG_FILE_TRANSFER_BEGIN (ft_ftcid c) metadata;
             chunk = ConstructFileChunk header (begin_payload (thisMachineServiceName s) (ft_fname c))
         in (c\<lparr>ft_state := FILETRANSFERSTATE_ONGOING\<rparr>,
             snd (WriteFileChunkSync chunk (MESSAGE_FRAME_SIZE_BYTES - FILE_HEADER_SIZE_BYTES) s),
             None))
      else
        (let csz = unat (ft_csize c);
             got = take csz (ft_handle c);
             bytesRead = length got;
             buffer = got @ zeros (csz - bytesRead);
             c = c\<lparr>ft_handle := drop csz (ft_handle c), ft_good := (ft_good c \<and> csz \<le> length (ft_handle c))\<rparr>
         in if bytesRead > 0 then
              (let st = (if ft_state c = FILETRANSFERSTATE_ONGOING \<and> ft_bytesSent c + ft_csize c \<ge> ft_fsize c
                         then FILETRANSFERSTATE_LAST_CHUNK else ft_state c);
                   msgType = (if st = FILETRANSFERSTATE_LAST_CHUNK then REG_FILE_TRANSFER_END
                              else REG_FILE_TRANSFER_CHUNK_SENT);
                   running = (if st = FILETRANSFERSTATE_LAST_CHUNK then False else ft_isRunning c);
                   header = ConstructFileHeader now msgType (ft_ftcid c) 0;
                   s = snd (WriteFileChunkSync (ConstructFileChunk header buffer) csz s);
                   sent = ft_bytesSent c + word_of_nat bytesRead
               in (c\<lparr>ft_state := FILETRANSFERSTATE_ONGOING, ft_isRunning := running, ft_bytesSent := sent\<rparr>,
                   s, Some (sent, ft_fsize c, ft_fname c)))
            else (c\<lparr>ft_isRunning := False\<rparr>, s, None)))"

text \<open>The worker loop: \<open>while (isRunning) { if (fhandle) TransferNextChunk (); }\<close>. \<open>clk\<close> is the clock.\<close>

partial_function (option) transfer_loop ::
  "(nat \<Rightarrow> u64) \<Rightarrow> nat \<Rightarrow> ftctx \<Rightarrow> session \<Rightarrow> progress list \<Rightarrow> (ftctx \<times> session \<times> progress list) option" where
  "transfer_loop clk k c s ps =
     (if ft_isRunning c then
        (if ft_good c then
           (case TransferNextChunk (clk k) c s of
              (c', s', p) \<Rightarrow>
                transfer_loop clk (Suc k) c' s' (case p of None \<Rightarrow> ps | Some x \<Rightarrow> ps @ [x]))
         else transfer_loop clk (Suc k) c s ps)
      else Some (c, s, ps))"

definition LaunchFileTransfer ::
  "(nat \<Rightarrow> u64) \<Rightarrow> ftctx \<Rightarrow> session \<Rightarrow> (ftctx \<times> session \<times> progress list) option" where
  "LaunchFileTransfer clk c s = (if ft_open c then transfer_loop clk 0 c s [] else Some (c, s, []))"

definition CancelFileTransfer :: "ftctx \<Rightarrow> ftctx" where
  "CancelFileTransfer c = c\<lparr>ft_isRunning := False, ft_open := False\<rparr>"

text \<open>The percentage both progress displays compute.\<close>

definition progress_pct :: "u32 \<Rightarrow> u32 \<Rightarrow> u32" where
  "progress_pct sent tot = (if tot > 0 then ucast (((ucast sent :: u64) * 100) div ucast tot) else 100)"

text \<open>The frames a transfer should consist of: the specification of the sender.\<close>

definition begin_frame :: "u64 \<Rightarrow> u32 \<Rightarrow> u32 \<Rightarrow> u32 \<Rightarrow> bytes \<Rightarrow> bytes \<Rightarrow> bytes" where
  "begin_frame now key csize fsize service fname =
     file_frame \<lparr>fc_header = ConstructFileHeader now REG_FILE_TRANSFER_BEGIN key (pack_metadata csize fsize),
                 fc_payload = begin_payload service fname\<rparr> 117"

definition data_frame :: "u64 \<Rightarrow> u32 \<Rightarrow> nat \<Rightarrow> u8 \<Rightarrow> bytes \<Rightarrow> bytes" where
  "data_frame now key n t xs =
     file_frame \<lparr>fc_header = ConstructFileHeader now t key 0, fc_payload = take n xs @ zeros (n - length xs)\<rparr> n"

function data_frames :: "(nat \<Rightarrow> u64) \<Rightarrow> nat \<Rightarrow> u32 \<Rightarrow> nat \<Rightarrow> bytes \<Rightarrow> bytes list" where
  "data_frames clk k key n xs =
     (if n = 0 \<or> xs = [] then []
      else data_frame (clk k) key n
             (if length xs \<le> n then REG_FILE_TRANSFER_END else REG_FILE_TRANSFER_CHUNK_SENT) xs
           # data_frames clk (Suc k) key n (drop n xs))"
  by pat_completeness auto
termination
  by (relation "measure (\<lambda>(clk, k, key, n, xs). length xs)") auto

declare data_frames.simps [simp del]

text \<open>A context in the middle of sending \<open>rest\<close>, the last part of a file of \<open>len\<close> bytes.\<close>

definition sending :: "ftctx \<Rightarrow> nat \<Rightarrow> bytes \<Rightarrow> bool" where
  "sending c len rest \<longleftrightarrow>
     ft_state c = FILETRANSFERSTATE_ONGOING \<and> ft_isRunning c \<and> ft_good c \<and>
     ft_handle c = rest \<and> rest \<noteq> [] \<and> length rest \<le> len \<and>
     ft_fsize c = word_of_nat len \<and> ft_bytesSent c = word_of_nat (len - length rest) \<and>
     0 < unat (ft_csize c) \<and> len + unat (ft_csize c) < 2 ^ 32"

section \<open>Chunk sizes\<close>

lemma DetermineChunkSize_bounds:
  "64 \<le> unat (DetermineChunkSize f)" "unat (DetermineChunkSize f) \<le> 1048676"
  by (simp_all add: DetermineChunkSize_def)

section \<open>One chunk\<close>

lemma unat_word_of_nat32: "n < 2 ^ 32 \<Longrightarrow> unat (word_of_nat n :: u32) = n"
  by (simp add: unat_of_nat take_bit_nat_eq_self)

lemma last_chunk_test:
  assumes "sending c len rest"
  shows "ft_bytesSent c + ft_csize c \<ge> ft_fsize c \<longleftrightarrow> length rest \<le> unat (ft_csize c)"
proof -
  have le: "length rest \<le> len" and sum: "len + unat (ft_csize c) < 2 ^ 32"
    using assms by (simp_all add: sending_def)
  have b: "ft_bytesSent c = word_of_nat (len - length rest)" and f: "unat (ft_fsize c) = len"
    using assms sum by (simp_all add: sending_def unat_word_of_nat32 del: of_nat_diff)
  have "unat (ft_bytesSent c) = len - length rest"
    unfolding b by (rule unat_word_of_nat32) (use sum in simp)
  then have "unat (ft_bytesSent c + ft_csize c) = len - length rest + unat (ft_csize c)"
    using sum by (subst unat_add_lem [THEN iffD1]) auto
  then show ?thesis
    using f le by (simp add: word_le_nat_alt) arith
qed

lemma TransferNextChunk_data:
  assumes snd: "sending c len rest" and ok: "\<not> broken (sk s)"
  shows "\<exists>c'. TransferNextChunk now c s =
      (c', s\<lparr>sk := (sk s)\<lparr>tx := tx (sk s) @ data_frame now (ft_ftcid c) (unat (ft_csize c))
           (if length rest \<le> unat (ft_csize c) then REG_FILE_TRANSFER_END else REG_FILE_TRANSFER_CHUNK_SENT) rest\<rparr>\<rparr>,
       Some (ft_bytesSent c', ft_fsize c, ft_fname c)) \<and>
      ft_ftcid c' = ft_ftcid c \<and> ft_csize c' = ft_csize c \<and> ft_fsize c' = ft_fsize c \<and>
      ft_fname c' = ft_fname c \<and>
      (if length rest \<le> unat (ft_csize c)
       then \<not> ft_isRunning c' \<and> ft_bytesSent c' = word_of_nat len
       else sending c' len (drop (unat (ft_csize c)) rest))"
proof -
  let ?n = "unat (ft_csize c)"
  have s: "ft_state c = FILETRANSFERSTATE_ONGOING" "ft_isRunning c" "ft_good c" "ft_handle c = rest"
      "rest \<noteq> []" "length rest \<le> len" "0 < ?n" "ft_bytesSent c = word_of_nat (len - length rest)"
      "len + ?n < 2 ^ 32"
    using snd by (simp_all add: sending_def)
  have got: "0 < length (take ?n rest)" using s by simp
  have n32: "?n < 2 ^ 32" using s by simp
  have eq: "TransferNextChunk now c s =
     (c\<lparr>ft_handle := drop ?n rest, ft_good := (?n \<le> length rest), ft_isRunning := \<not> length rest \<le> ?n,
        ft_bytesSent := ft_bytesSent c + word_of_nat (min ?n (length rest))\<rparr>,
      s\<lparr>sk := (sk s)\<lparr>tx := tx (sk s) @ data_frame now (ft_ftcid c) ?n
           (if length rest \<le> ?n then REG_FILE_TRANSFER_END else REG_FILE_TRANSFER_CHUNK_SENT) rest\<rparr>\<rparr>,
      Some (ft_bytesSent c + word_of_nat (min ?n (length rest)), ft_fsize c, ft_fname c))"
    using s got n32 last_chunk_test [OF snd] ok
    by (simp add: TransferNextChunk_def Let_def WriteFileChunkSync_tx data_frame_def
        ConstructFileChunk_def min.commute split: if_splits)
  show ?thesis
  proof (cases "length rest \<le> ?n")
    case True
    then have "ft_bytesSent c + word_of_nat (min ?n (length rest)) = word_of_nat len"
      using s by (simp add: min_absorb2 flip: of_nat_add)
    with True eq show ?thesis by simp
  next
    case False
    then have "len - length rest + ?n = len - (length rest - ?n)" using s by arith
    then have "ft_bytesSent c + word_of_nat ?n = word_of_nat (len - (length rest - ?n))"
      using s(8) by (metis of_nat_add)
    with False eq s snd show ?thesis
      by (auto simp: sending_def min_absorb1 simp del: of_nat_diff)
  qed
qed

section \<open>The whole transfer\<close>

lemma transfer_loop_data:
  assumes "sending c len rest" and "\<not> broken (sk s)"
  shows "\<exists>c' ps'. transfer_loop clk k c s ps =
     Some (c', s\<lparr>sk := (sk s)\<lparr>tx := tx (sk s) @
        concat (data_frames clk k (ft_ftcid c) (unat (ft_csize c)) rest)\<rparr>\<rparr>, ps') \<and>
     \<not> ft_isRunning c' \<and> ft_bytesSent c' = word_of_nat len \<and>
     ps' \<noteq> [] \<and> last ps' = (word_of_nat len, ft_fsize c, ft_fname c)"
  using assms
proof (induction "length rest" arbitrary: rest c s k ps rule: less_induct)
  case less
  let ?n = "unat (ft_csize c)"
  have run: "ft_isRunning c" "ft_good c" "rest \<noteq> []" "0 < ?n"
    using less.prems(1) by (simp_all add: sending_def)
  let ?t = "if length rest \<le> ?n then REG_FILE_TRANSFER_END else REG_FILE_TRANSFER_CHUNK_SENT"
  let ?f = "data_frame (clk k) (ft_ftcid c) ?n ?t rest"
  let ?s = "s\<lparr>sk := (sk s)\<lparr>tx := tx (sk s) @ ?f\<rparr>\<rparr>"
  obtain c1 where c1: "TransferNextChunk (clk k) c s = (c1, ?s, Some (ft_bytesSent c1, ft_fsize c, ft_fname c))"
      "ft_ftcid c1 = ft_ftcid c" "ft_csize c1 = ft_csize c" "ft_fsize c1 = ft_fsize c" "ft_fname c1 = ft_fname c"
      "if length rest \<le> ?n then \<not> ft_isRunning c1 \<and> ft_bytesSent c1 = word_of_nat len
       else sending c1 len (drop ?n rest)"
    using TransferNextChunk_data [OF less.prems] by blast
  let ?ps = "ps @ [(ft_bytesSent c1, ft_fsize c, ft_fname c)]"
  have loop: "transfer_loop clk k c s ps = transfer_loop clk (Suc k) c1 ?s ?ps"
    using run c1(1) by (subst transfer_loop.simps) simp
  have frames: "data_frames clk k (ft_ftcid c) ?n rest = ?f # data_frames clk (Suc k) (ft_ftcid c) ?n (drop ?n rest)"
    using run by (subst data_frames.simps) simp
  show ?case
  proof (cases "length rest \<le> ?n")
    case True
    then have "data_frames clk (Suc k) (ft_ftcid c) ?n (drop ?n rest) = []"
      by (subst data_frames.simps) simp
    with True loop frames c1 show ?thesis
      by (auto simp: transfer_loop.simps [of clk "Suc k" c1])
  next
    case False
    then have snd1: "sending c1 len (drop ?n rest)" and smaller: "length (drop ?n rest) < length rest"
      using c1(6) run by auto
    from less.hyps [OF smaller snd1, of ?s "Suc k" ?ps] less.prems(2) c1 loop frames show ?thesis
      by auto
  qed
qed

lemma sending_after_begin:
  assumes "content \<noteq> []" and "length content + unat (DetermineChunkSize (word_of_nat (length content))) < 2 ^ 32"
  shows "sending ((BVFileTransferContext_ctor True content fname ftcid)\<lparr>ft_state := FILETRANSFERSTATE_ONGOING\<rparr>)
           (length content) content"
  using assms DetermineChunkSize_bounds(1) [of "word_of_nat (length content)"]
  by (simp add: sending_def BVFileTransferContext_ctor_def Let_def)

text \<open>The bytes a whole transfer should put on the connection.\<close>

definition transfer_bytes :: "(nat \<Rightarrow> u64) \<Rightarrow> u32 \<Rightarrow> bytes \<Rightarrow> bytes \<Rightarrow> bytes \<Rightarrow> bytes" where
  "transfer_bytes clk key service fname content =
     (let fs = word_of_nat (length content); cs = DetermineChunkSize fs in
      begin_frame (clk 0) key cs fs service fname @ concat (data_frames clk 1 key (unat cs) content))"

lemma TransferNextChunk_begin:
  assumes "\<not> broken (sk s)"
  shows "TransferNextChunk now (BVFileTransferContext_ctor op content fname key) s =
     ((BVFileTransferContext_ctor op content fname key)\<lparr>ft_state := FILETRANSFERSTATE_ONGOING\<rparr>,
      s\<lparr>sk := (sk s)\<lparr>tx := tx (sk s) @ begin_frame now key (DetermineChunkSize (word_of_nat (length content)))
          (word_of_nat (length content)) (thisMachineServiceName s) fname\<rparr>\<rparr>, None)"
  using assms
  by (simp add: TransferNextChunk_def BVFileTransferContext_ctor_def Let_def begin_frame_def WriteFileChunkSync_tx
      MESSAGE_FRAME_SIZE_BYTES_def FILE_HEADER_SIZE_BYTES_def ConstructFileChunk_def)

lemma LaunchFileTransfer_sends:
  assumes "content \<noteq> []" and "length content + unat (DetermineChunkSize (word_of_nat (length content))) < 2 ^ 32"
    and ok: "\<not> broken (sk s)"
  shows "\<exists>c' ps. LaunchFileTransfer clk (BVFileTransferContext_ctor True content fname key) s =
      Some (c', s\<lparr>sk := (sk s)\<lparr>tx := tx (sk s) @ transfer_bytes clk key (thisMachineServiceName s) fname content\<rparr>\<rparr>, ps) \<and>
    \<not> ft_isRunning c' \<and> ps \<noteq> [] \<and> last ps = (word_of_nat (length content), word_of_nat (length content), fname)"
proof -
  define c where "c = BVFileTransferContext_ctor True content fname key"
  define c1 where "c1 = c\<lparr>ft_state := FILETRANSFERSTATE_ONGOING\<rparr>"
  define s1 where "s1 = s\<lparr>sk := (sk s)\<lparr>tx := tx (sk s) @ begin_frame (clk 0) key (DetermineChunkSize (word_of_nat (length content)))
          (word_of_nat (length content)) (thisMachineServiceName s) fname\<rparr>\<rparr>"
  have c: "ft_isRunning c" "ft_good c" "ft_open c" "ft_ftcid c1 = key" "ft_fname c1 = fname"
      "ft_csize c1 = DetermineChunkSize (word_of_nat (length content))" "ft_fsize c1 = word_of_nat (length content)"
    by (simp_all add: c_def c1_def BVFileTransferContext_ctor_def Let_def)
  have "sending c1 (length content) content"
    using sending_after_begin [OF assms(1,2)] by (simp add: c1_def c_def)
  moreover have "\<not> broken (sk s1)" using ok by (simp add: s1_def)
  ultimately obtain c' ps where r: "transfer_loop clk 1 c1 s1 [] =
      Some (c', s1\<lparr>sk := (sk s1)\<lparr>tx := tx (sk s1) @
        concat (data_frames clk 1 (ft_ftcid c1) (unat (ft_csize c1)) content)\<rparr>\<rparr>, ps)"
      "\<not> ft_isRunning c'" "ps \<noteq> []" "last ps = (word_of_nat (length content), ft_fsize c1, ft_fname c1)"
    using transfer_loop_data by blast
  have "LaunchFileTransfer clk c s = transfer_loop clk 1 c1 s1 []"
    unfolding LaunchFileTransfer_def transfer_loop.simps [of clk 0 c s]
    using c TransferNextChunk_begin [OF ok, of "clk 0" True content fname key] by (simp add: c_def c1_def s1_def)
  then show ?thesis
    using r c by (simp add: c_def [symmetric] s1_def transfer_bytes_def Let_def)
qed

text \<open>A stream in a failed state while \<open>isRunning\<close> is set: the worker thread spins for ever.\<close>

lemma transfer_loop_spins:
  assumes "ft_isRunning c" and "\<not> ft_good c"
  shows "transfer_loop clk k c s ps = None"
proof (rule ccontr)
  assume "transfer_loop clk k c s ps \<noteq> None"
  then obtain r where r: "transfer_loop clk k c s ps = Some r" by auto
  have "\<not> (ft_isRunning c \<and> \<not> ft_good c)"
  proof (rule transfer_loop.raw_induct [where P = "\<lambda>clk k c s ps r. \<not> (ft_isRunning c \<and> \<not> ft_good c)", OF _ r])
    fix f :: "(nat \<Rightarrow> u64) \<Rightarrow> nat \<Rightarrow> ftctx \<Rightarrow> session \<Rightarrow> progress list \<Rightarrow> (ftctx \<times> session \<times> progress list) option"
    fix clk k c s ps r
    assume IH: "\<And>clk k c s ps r. f clk k c s ps = Some r \<Longrightarrow> \<not> (ft_isRunning c \<and> \<not> ft_good c)"
      and eq: "(if ft_isRunning c then
        (if ft_good c then
           (case TransferNextChunk (clk k) c s of
              (c', s', p) \<Rightarrow> f clk (Suc k) c' s' (case p of None \<Rightarrow> ps | Some x \<Rightarrow> ps @ [x]))
         else f clk (Suc k) c s ps)
      else Some (c, s, ps)) = Some r"
    then show "\<not> (ft_isRunning c \<and> \<not> ft_good c)"
      using IH by (auto split: if_splits)
  qed
  with assms show False by simp
qed

section \<open>Properties\<close>

text \<open>C16: for a non-empty file small enough for the 32-bit counters, the worker loop of a file transfer ends, having written the BEGIN frame and then all chunks in order, the last one marked END, and having reported 100 percent.\<close>

theorem transfer_completes:
  assumes "content \<noteq> []" and "length content + unat (DetermineChunkSize (word_of_nat (length content))) < 2 ^ 32"
    and "\<not> broken (sk s)"
  shows "\<exists>c' s' ps. LaunchFileTransfer clk (BVFileTransferContext_ctor True content fname key) s = Some (c', s', ps) \<and>
    \<not> ft_isRunning c' \<and> tx (sk s') = tx (sk s) @ transfer_bytes clk key (thisMachineServiceName s) fname content \<and>
    ps \<noteq> [] \<and> (case last ps of (sent, tot, nm) \<Rightarrow> sent = tot \<and> progress_pct sent tot = 100 \<and> nm = fname)"
proof -
  have len: "0 < length content" "length content < 2 ^ 32" using assms(1,2) by simp_all
  define w :: u32 where "w = word_of_nat (length content)"
  have u: "unat w = length content" using len(2) by (simp add: w_def unat_word_of_nat32)
  then have "0 < w" using len(1) by (simp add: word_less_nat_alt)
  moreover have "(ucast w :: u64) * 100 div ucast w = 100"
  proof -
    have c: "unat (ucast w :: u64) = length content"
      using u len(2) by (simp add: unsigned_ucast_eq take_bit_nat_eq_self)
    moreover have "unat ((ucast w :: u64) * 100) = length content * 100"
      using c len(2) by (subst unat_mult_lem [THEN iffD1]) simp_all
    ultimately have "unat ((ucast w :: u64) * 100 div ucast w) = 100" using len(1) by (simp add: unat_div)
    then show ?thesis by (simp add: word_unat_eq_iff)
  qed
  ultimately have "progress_pct w w = 100" by (simp add: progress_pct_def)
  then show ?thesis using LaunchFileTransfer_sends [OF assms, of clk fname key] by (auto simp: w_def)
qed

text \<open>For an empty file the worker loop ends after the BEGIN frame: no END frame is ever sent, so the receiver is left waiting for chunks.\<close>

theorem empty_file_has_no_end:
  assumes "\<not> broken (sk s)"
  shows "\<exists>c' s' ps. LaunchFileTransfer clk (BVFileTransferContext_ctor True [] fname key) s = Some (c', s', ps) \<and>
    \<not> ft_isRunning c' \<and> ps = [] \<and>
    tx (sk s') = tx (sk s) @ begin_frame (clk 0) key 64 0 (thisMachineServiceName s) fname"
proof -
  have d: "DetermineChunkSize 0 = 64" by (simp add: DetermineChunkSize_def)
  let ?c = "(BVFileTransferContext_ctor True [] fname key)\<lparr>ft_state := FILETRANSFERSTATE_ONGOING\<rparr>"
  have c: "TransferNextChunk now ?c t = (?c\<lparr>ft_isRunning := False, ft_good := False\<rparr>, t, None)" for now t
    by (simp add: TransferNextChunk_def BVFileTransferContext_ctor_def Let_def DetermineChunkSize_def)
  show ?thesis
    using TransferNextChunk_begin [OF assms, of "clk 0" True "[]" fname key]
    by (simp add: LaunchFileTransfer_def transfer_loop.simps [of clk 0] transfer_loop.simps [of clk "Suc 0"]
        transfer_loop.simps [of clk "Suc (Suc 0)"] c d)
      (simp add: BVFileTransferContext_ctor_def Let_def)
qed

theorem transfer_completes_witness:
  "\<exists>c' s' ps. LaunchFileTransfer (\<lambda>k. word_of_nat k) (BVFileTransferContext_ctor True [1, 2, 3] (str ''n'') 9)
      (example_session (str ''alice'') (str ''bob'')) = Some (c', s', ps) \<and> \<not> ft_isRunning c'"
  using transfer_completes [of "[1, 2, 3]" "example_session (str ''alice'') (str ''bob'')" "\<lambda>k. word_of_nat k" "str ''n''" 9]
  by (auto simp: DetermineChunkSize_def example_session_def example_sock_def)

theorem empty_file_has_no_end_witness:
  "\<exists>c' s'. LaunchFileTransfer (\<lambda>k. 0) (BVFileTransferContext_ctor True [] (str ''n'') 9)
      (example_session (str ''alice'') (str ''bob'')) = Some (c', s', []) \<and> length (tx (sk s')) = 138"
  using empty_file_has_no_end [of "example_session (str ''alice'') (str ''bob'')" "\<lambda>k. 0" "str ''n''" 9]
  by (auto simp: example_session_def example_sock_def begin_frame_def)

end
