(* ===== verification/Received_File.thy ===== *)
theory Received_File
  imports Common_Types
begin

text \<open>
  \<open>include/BVReceivedFile.hpp\<close>: assembling an incoming file on disk, over a model of the part of
  \<open>std::filesystem\<close> it uses. Paths are byte strings with the POSIX rules of \<open>operator/\<close>;
  a file system holds regular files and directories and says which operations the host
  allows. The locale \<open>file_sink\<close> is what the application relies on when it writes chunks.
\<close>

section \<open>Paths and the file system\<close>

definition slash :: byte where "slash = 47"

definition path_append :: "bytes \<Rightarrow> bytes \<Rightarrow> bytes" where
  "path_append p q =
     (if q \<noteq> [] \<and> hd q = slash then q
      else if p = [] \<or> last p = slash then p @ q
      else p @ slash # q)"

text \<open>The text after, and before, the last separator.\<close>

definition path_filename :: "bytes \<Rightarrow> bytes" where
  "path_filename p = rev (takeWhile (\<lambda>c. c \<noteq> slash) (rev p))"

definition parent_path :: "bytes \<Rightarrow> bytes" where
  "parent_path p = rev (drop 1 (dropWhile (\<lambda>c. c \<noteq> slash) (rev p)))"

record fsys =
  fs_files :: "bytes \<Rightarrow> bytes option"
  fs_dirs :: "bytes \<Rightarrow> bool"
  fs_mkdir_ok :: "bytes \<Rightarrow> bool"
  fs_open_ok :: "bytes \<Rightarrow> bool"
  fs_resize_ok :: "bytes \<Rightarrow> bool"
  fs_full :: bool

definition create_directories :: "bytes \<Rightarrow> fsys \<Rightarrow> bool \<times> fsys" where
  "create_directories d fs =
     (if fs_dirs fs d then (True, fs)
      else if fs_mkdir_ok fs d then (True, fs\<lparr>fs_dirs := (fs_dirs fs)(d := True)\<rparr>)
      else (False, fs))"

definition can_open :: "fsys \<Rightarrow> bytes \<Rightarrow> bool" where
  "can_open fs p \<longleftrightarrow> fs_open_ok fs p \<and> fs_dirs fs (parent_path p)"

text \<open>\<open>std::ofstream (p, trunc)\<close> and \<open>std::ofstream (p, app)\<close>: \<open>None\<close> when the open fails.\<close>

definition open_trunc :: "bytes \<Rightarrow> fsys \<Rightarrow> fsys option" where
  "open_trunc p fs =
     (if can_open fs p then Some (fs\<lparr>fs_files := (fs_files fs)(p \<mapsto> [])\<rparr>) else None)"

definition open_app :: "bytes \<Rightarrow> fsys \<Rightarrow> fsys option" where
  "open_app p fs =
     (if can_open fs p
      then Some (fs\<lparr>fs_files := (fs_files fs)(p \<mapsto> (case fs_files fs p of None \<Rightarrow> [] | Some c \<Rightarrow> c))\<rparr>)
      else None)"

definition write_app :: "bytes \<Rightarrow> bytes \<Rightarrow> fsys \<Rightarrow> bool \<times> fsys" where
  "write_app p d fs =
     (if fs_full fs then (False, fs)
      else (True, fs\<lparr>fs_files := (fs_files fs)(p \<mapsto> (case fs_files fs p of None \<Rightarrow> [] | Some c \<Rightarrow> c) @ d)\<rparr>))"

definition resize_file :: "bytes \<Rightarrow> nat \<Rightarrow> fsys \<Rightarrow> bool \<times> fsys" where
  "resize_file p n fs =
     (case fs_files fs p of
        None \<Rightarrow> (False, fs)
      | Some c \<Rightarrow>
          (if fs_resize_ok fs p then (True, fs\<lparr>fs_files := (fs_files fs)(p \<mapsto> resize n c)\<rparr>)
           else (False, fs)))"

section \<open>BVReceivedFile\<close>

definition DirFor :: "bytes \<Rightarrow> bytes \<Rightarrow> bytes" where
  "DirFor root serviceName = path_append (path_append root (str ''data'')) serviceName"

definition PathFor :: "bytes \<Rightarrow> bytes \<Rightarrow> bytes \<Rightarrow> bytes" where
  "PathFor root serviceName fname = path_append (DirFor root serviceName) fname"

definition Begin :: "bytes \<Rightarrow> bytes \<Rightarrow> bytes \<Rightarrow> fsys \<Rightarrow> BVStatus \<times> fsys" where
  "Begin root serviceName fname fs =
     (case create_directories (DirFor root serviceName) fs of
        (ok, fs) \<Rightarrow>
          (if \<not> ok then (BVSTATUS_FATAL_ERROR, fs)
           else
             (case open_trunc (PathFor root serviceName fname) fs of
                None \<Rightarrow> (BVSTATUS_FATAL_ERROR, fs)
              | Some fs \<Rightarrow> (BVSTATUS_OK, fs))))"

definition AppendChunk :: "bytes \<Rightarrow> bytes \<Rightarrow> bytes \<Rightarrow> bytes \<Rightarrow> fsys \<Rightarrow> BVStatus \<times> fsys" where
  "AppendChunk root serviceName fname data fs =
     (let p = PathFor root serviceName fname in
      case open_app p fs of
        None \<Rightarrow> (BVSTATUS_FATAL_ERROR, fs)
      | Some fs \<Rightarrow>
          (case write_app p data fs of
             (ok, fs) \<Rightarrow> (if ok then BVSTATUS_OK else BVSTATUS_NOK, fs)))"

text \<open>\<open>Finish\<close> does not look at the state of the stream after its write.\<close>

definition Finish :: "bytes \<Rightarrow> bytes \<Rightarrow> bytes \<Rightarrow> bytes \<Rightarrow> nat \<Rightarrow> fsys \<Rightarrow> BVStatus \<times> fsys" where
  "Finish root serviceName fname finalData fsize fs =
     (let p = PathFor root serviceName fname in
      case open_app p fs of
        None \<Rightarrow> (BVSTATUS_FATAL_ERROR, fs)
      | Some fs \<Rightarrow>
          (case resize_file p fsize (snd (write_app p finalData fs)) of
             (ok, fs) \<Rightarrow> (if ok then BVSTATUS_OK else BVSTATUS_NOK, fs)))"

text \<open>The host allows the three operations on the destination of this transfer.\<close>

definition writable :: "bytes \<Rightarrow> bytes \<Rightarrow> bytes \<Rightarrow> fsys \<Rightarrow> bool" where
  "writable root serviceName fname fs \<longleftrightarrow>
     serviceName \<noteq> [] \<and> last serviceName \<noteq> slash \<and> slash \<notin> set fname \<and>
     (fs_dirs fs (DirFor root serviceName) \<or> fs_mkdir_ok fs (DirFor root serviceName)) \<and>
     fs_open_ok fs (PathFor root serviceName fname) \<and>
     fs_resize_ok fs (PathFor root serviceName fname) \<and> \<not> fs_full fs"

definition prepared :: "bytes \<Rightarrow> bytes \<Rightarrow> bytes \<Rightarrow> fsys \<Rightarrow> bool" where
  "prepared root serviceName fname fs \<longleftrightarrow>
     writable root serviceName fname fs \<and> fs_dirs fs (DirFor root serviceName)"

definition stored :: "bytes \<Rightarrow> bytes \<Rightarrow> bytes \<Rightarrow> fsys \<Rightarrow> bytes option" where
  "stored root serviceName fname fs = fs_files fs (PathFor root serviceName fname)"

fun append_all :: "(bytes \<Rightarrow> 's \<Rightarrow> BVStatus \<times> 's) \<Rightarrow> bytes list \<Rightarrow> 's \<Rightarrow> BVStatus \<times> 's" where
  "append_all app [] s = (BVSTATUS_OK, s)"
| "append_all app (c # cs) s =
     (case app c s of (st, s') \<Rightarrow> (if st = BVSTATUS_OK then append_all app cs s' else (st, s')))"

section \<open>Paths\<close>

lemma path_append_absolute: "path_append p (slash # q) = slash # q"
  by (simp add: path_append_def)

lemma parent_path_append:
  assumes "p \<noteq> []" and "last p \<noteq> slash" and "slash \<notin> set q"
  shows "parent_path (path_append p q) = p"
proof -
  have "q = [] \<or> hd q \<noteq> slash" using assms(3) by (cases q) auto
  then have "path_append p q = p @ slash # q"
    using assms by (auto simp: path_append_def)
  moreover have "dropWhile (\<lambda>c. c \<noteq> slash) (rev q @ slash # rev p) = slash # rev p"
    using assms(3) by (subst dropWhile_append2) auto
  ultimately show ?thesis
    by (simp add: parent_path_def)
qed

lemma last_path_append: "q \<noteq> [] \<Longrightarrow> last (path_append p q) = last q"
  by (simp add: path_append_def)

lemma path_append_Nil_iff: "path_append p q = [] \<longleftrightarrow> p = [] \<and> q = []"
  by (auto simp: path_append_def)

lemma parent_PathFor:
  assumes "serviceName \<noteq> []" and "last serviceName \<noteq> slash" and "slash \<notin> set fname"
  shows "parent_path (PathFor root serviceName fname) = DirFor root serviceName"
  unfolding PathFor_def using assms
  by (intro parent_path_append) (auto simp: DirFor_def last_path_append path_append_Nil_iff)

section \<open>The contract of an incoming file\<close>

locale file_sink =
  fixes bgn :: "'s \<Rightarrow> BVStatus \<times> 's"
    and app :: "bytes \<Rightarrow> 's \<Rightarrow> BVStatus \<times> 's"
    and fin :: "bytes \<Rightarrow> nat \<Rightarrow> 's \<Rightarrow> BVStatus \<times> 's"
    and content :: "'s \<Rightarrow> bytes option"
    and usable :: "'s \<Rightarrow> bool"
    and opened :: "'s \<Rightarrow> bool"
  assumes bgn_ok: "usable s \<Longrightarrow> \<exists>s'. bgn s = (BVSTATUS_OK, s') \<and> opened s' \<and> content s' = Some []"
    and app_ok: "opened s \<Longrightarrow> content s = Some c \<Longrightarrow>
       \<exists>s'. app d s = (BVSTATUS_OK, s') \<and> opened s' \<and> content s' = Some (c @ d)"
    and fin_ok: "opened s \<Longrightarrow> content s = Some c \<Longrightarrow>
       \<exists>s'. fin d n s = (BVSTATUS_OK, s') \<and> content s' = Some (resize n (c @ d))"
begin

lemma append_all_ok:
  "opened s \<Longrightarrow> content s = Some c \<Longrightarrow>
     \<exists>s'. append_all app cs s = (BVSTATUS_OK, s') \<and> opened s' \<and> content s' = Some (c @ concat cs)"
proof (induction cs arbitrary: s c)
  case Nil
  then show ?case by simp
next
  case (Cons d cs)
  from app_ok [OF Cons.prems, of d] obtain s1
    where s1: "app d s = (BVSTATUS_OK, s1)" "opened s1" "content s1 = Some (c @ d)" by blast
  from Cons.IH [OF s1(2,3)] s1 show ?case by auto
qed

text \<open>Whatever the destination held before, the file is the chunks, cut to the given size.\<close>

lemma whole_file:
  assumes "usable s"
  shows "\<exists>s1 s2 s3. bgn s = (BVSTATUS_OK, s1) \<and> append_all app cs s1 = (BVSTATUS_OK, s2) \<and>
           fin d n s2 = (BVSTATUS_OK, s3) \<and> content s3 = Some (resize n (concat cs @ d))"
proof -
  obtain s1 where s1: "bgn s = (BVSTATUS_OK, s1)" "opened s1" "content s1 = Some []"
    using bgn_ok [OF assms] by blast
  from append_all_ok [OF s1(2,3)] obtain s2
    where s2: "append_all app cs s1 = (BVSTATUS_OK, s2)" "opened s2" "content s2 = Some (concat cs)"
    by fastforce
  from fin_ok [OF s2(2,3), of d n] s1 s2 show ?thesis by blast
qed

end

lemma Begin_ok:
  assumes "writable root sn fn fs"
  shows "\<exists>fs'. Begin root sn fn fs = (BVSTATUS_OK, fs') \<and> prepared root sn fn fs' \<and>
           stored root sn fn fs' = Some []"
proof -
  have par: "parent_path (PathFor root sn fn) = DirFor root sn"
    using assms by (intro parent_PathFor) (simp_all add: writable_def)
  show ?thesis
    using assms
    by (auto simp: Begin_def create_directories_def open_trunc_def can_open_def par prepared_def
        writable_def stored_def)
qed

lemma prepared_can_open: "prepared root sn fn fs \<Longrightarrow> can_open fs (PathFor root sn fn)"
  by (simp add: prepared_def writable_def can_open_def parent_PathFor)

lemma AppendChunk_ok:
  "prepared root sn fn fs \<Longrightarrow> stored root sn fn fs = Some c \<Longrightarrow>
     \<exists>fs'. AppendChunk root sn fn d fs = (BVSTATUS_OK, fs') \<and> prepared root sn fn fs' \<and>
           stored root sn fn fs' = Some (c @ d)"
  using prepared_can_open [of root sn fn fs]
  by (auto simp: AppendChunk_def open_app_def write_app_def prepared_def writable_def stored_def)

lemma Finish_ok:
  "prepared root sn fn fs \<Longrightarrow> stored root sn fn fs = Some c \<Longrightarrow>
     \<exists>fs'. Finish root sn fn d n fs = (BVSTATUS_OK, fs') \<and>
           stored root sn fn fs' = Some (resize n (c @ d))"
  using prepared_can_open [of root sn fn fs]
  by (auto simp: Finish_def open_app_def write_app_def resize_file_def prepared_def writable_def
      stored_def)

interpretation rf: file_sink "Begin root sn fn" "AppendChunk root sn fn" "Finish root sn fn"
  "stored root sn fn" "writable root sn fn" "prepared root sn fn"
  for root sn fn
  using Begin_ok AppendChunk_ok Finish_ok by unfold_locales metis+

section \<open>Properties\<close>

definition example_fs :: fsys where
  "example_fs = \<lparr>fs_files = [str ''/w/notes.txt'' \<mapsto> [1, 2, 3]], fs_dirs = (\<lambda>d. d = str ''/w''), fs_mkdir_ok = (\<lambda>_. True),
     fs_open_ok = (\<lambda>_. True), fs_resize_ok = (\<lambda>_. True), fs_full = False\<rparr>"

lemma example_writable: "writable (str ''/w'') (str ''alice'') (str ''notes.txt'') example_fs"
  by (simp add: writable_def example_fs_def str_def slash_def)

text \<open>C17: an incoming file stored with \<open>Begin\<close>, any number of \<open>AppendChunk\<close> and \<open>Finish\<close> holds, whatever the destination held before, the concatenated chunks cut (or zero-extended) to the announced size.\<close>

theorem received_file_whole:
  assumes "writable root sn fn fs"
  shows "\<exists>fs1 fs2 fs3. Begin root sn fn fs = (BVSTATUS_OK, fs1) \<and>
    append_all (AppendChunk root sn fn) cs fs1 = (BVSTATUS_OK, fs2) \<and>
    Finish root sn fn d n fs2 = (BVSTATUS_OK, fs3) \<and> stored root sn fn fs3 = Some (resize n (concat cs @ d))"
  by (rule rf.whole_file [OF assms])

theorem received_file_whole_witness:
  "\<exists>fs1 fs2 fs3. Begin (str ''/w'') (str ''alice'') (str ''notes.txt'') example_fs = (BVSTATUS_OK, fs1) \<and>
    append_all (AppendChunk (str ''/w'') (str ''alice'') (str ''notes.txt'')) [[1, 2], [3, 4]] fs1 = (BVSTATUS_OK, fs2) \<and>
    Finish (str ''/w'') (str ''alice'') (str ''notes.txt'') [5, 0] 5 fs2 = (BVSTATUS_OK, fs3) \<and>
    stored (str ''/w'') (str ''alice'') (str ''notes.txt'') fs3 = Some [1, 2, 3, 4, 5]"
  using received_file_whole [OF example_writable, of "[[1, 2], [3, 4]]" "[5, 0]" 5] by (simp add: resize_def zeros_def)

text \<open>On a full disk \<open>Finish\<close> reports success although the final data was not written, and the file is zero-extended to the announced size; \<open>AppendChunk\<close> reports the same failure.\<close>

theorem Finish_hides_write_failure:
  assumes "can_open fs (PathFor root sn fn)" and "fs_resize_ok fs (PathFor root sn fn)" and "fs_full fs"
    and "stored root sn fn fs = Some c"
  shows "\<exists>fs'. Finish root sn fn d n fs = (BVSTATUS_OK, fs') \<and> stored root sn fn fs' = Some (resize n c) \<and>
    AppendChunk root sn fn d fs = (BVSTATUS_NOK, fs\<lparr>fs_files := (fs_files fs)(PathFor root sn fn \<mapsto> c)\<rparr>)"
  using assms by (simp add: Finish_def AppendChunk_def open_app_def write_app_def resize_file_def stored_def Let_def)

definition example_full_disk :: fsys where
  "example_full_disk = example_fs\<lparr>fs_full := True, fs_dirs := (\<lambda>_. True), fs_files := (\<lambda>_. Some [1, 2])\<rparr>"

theorem Finish_hides_write_failure_witness:
  "\<exists>fs'. Finish (str ''/w'') (str ''alice'') (str ''notes.txt'') [9] 4 example_full_disk = (BVSTATUS_OK, fs') \<and>
    stored (str ''/w'') (str ''alice'') (str ''notes.txt'') fs' = Some [1, 2, 0, 0]"
proof -
  have "can_open example_full_disk p" "fs_resize_ok example_full_disk p" "fs_full example_full_disk"
      "stored root sn fn example_full_disk = Some [1, 2]" for p root sn fn
    by (simp_all add: example_full_disk_def example_fs_def can_open_def stored_def)
  from Finish_hides_write_failure [OF this, of "str ''/w''" "str ''alice''" "str ''notes.txt''" "[9]" 4]
  show ?thesis by (auto simp: resize_def zeros_def numeral_2_eq_2)
qed

text \<open>The file name sent by the peer is used as it is: an absolute name replaces the whole destination, so the file is written outside the download directory.\<close>

theorem absolute_name_escapes:
  "PathFor root sn (slash # q) = slash # q"
  by (simp add: PathFor_def path_append_absolute)

end
