(* ===== verification/Connection_Manager.thy ===== *)
theory Connection_Manager
  imports File_Transfer Received_File
begin

text \<open>
  \<open>BVTCPConnectionManager\<close> (\<open>include/BVTCPConnectionManager.hpp\<close>, \<open>src/BVTCPConnectionManager.cpp\<close>): the
  sessions of a host, the maps that find them, the outgoing file offers and transfers. Sessions
  are shared objects (the manager's map, pending socket operations and transfer contexts all hold
  a \<open>shared_ptr\<close>), so the host has a store of them and the maps hold references. The
  application's mailbox is the list of messages pushed to it (the queue itself is
  \<open>Threadsafe_Queue\<close>). \<open>async_accept\<close> and \<open>async_connect\<close> leave the session object waiting in
  \<open>accepting\<close> and \<open>dialing\<close>; their completion handlers get the error flag and the connected socket.
\<close>

section \<open>State\<close>

record host =
  currentSessionID :: u16
  thisMachineHostData :: BVNode
  sessions_m :: "(u16, nat) omap"
  outMailboxes_p :: "(u8, unit option) omap"  \<comment> \<open>only ever tested for null\<close>
  service_sessionid_m :: "(bytes, u16) omap"
  nodesM :: "(bytes, BVNode) omap"
  current_id :: u8  \<comment> \<open>the static of \<open>StartCommunicationSessionWithNode\<close>\<close>
  fileTransferContext_m :: "(u32, ftctx \<times> nat) omap"
  pendingOutgoing_m :: "(u32, u16 \<times> bytes) omap"
  ftcid :: u32  \<comment> \<open>the static of \<open>InitiateFileTransferWithSession\<close>\<close>
  outProgressName :: bytes
  outProgressSent :: u32
  outProgressTotal :: u32
  sess :: "nat \<Rightarrow> session"
  next_ref :: nat
  accepting :: "nat option"
  dialing :: "nat list"
  appMail :: "BVMessage list"

section \<open>Sessions\<close>

definition serviceName_of :: "host \<Rightarrow> nat \<Rightarrow> bytes" where
  "serviceName_of h r = n_serviceName (nodeData (sess h r))"

definition set_sess :: "nat \<Rightarrow> session \<Rightarrow> host \<Rightarrow> host" where
  "set_sess r s h = h\<lparr>sess := (sess h)(r := s)\<rparr>"

definition with_sess :: "nat \<Rightarrow> (session \<Rightarrow> session result) \<Rightarrow> host \<Rightarrow> host result" where
  "with_sess r f h = rbind (f (sess h r)) (\<lambda>s. Inr (set_sess r s h))"

text \<open>A socket that is not connected yet.\<close>

definition fresh_sock :: sock where
  "fresh_sock = \<lparr>rx = [], tx = [], reads = [], writes = [], speculative = False, broken = True,
     remote_endpoint = ([], 0)\<rparr>"

text \<open>\<open>make_shared<BVTCPNodeConnectionSessionData> (node, \<dots>, currentSessionID, name); currentSessionID += 1\<close>.\<close>

definition new_session :: "BVNode \<Rightarrow> host \<Rightarrow> nat \<times> host" where
  "new_session node h =
     (next_ref h,
      h\<lparr>sess := (sess h)(next_ref h :=
           new_sessionData node fresh_sock (currentSessionID h) (n_serviceName (thisMachineHostData h))),
        next_ref := Suc (next_ref h), currentSessionID := currentSessionID h + 1\<rparr>)"

definition ntohs :: "int \<Rightarrow> u16" where
  "ntohs p = (let w = word_of_int p :: u16 in push_bit 8 w OR drop_bit 8 w)"

text \<open>
  The constructor. \<open>results\<close> is what the resolver returned, \<open>ec\<close> whether it failed; \<open>hard_fail\<close>
  is the build option \<open>RESOLUTION_POLICY_HARD_FAIL\<close>.
\<close>

definition BVTCPConnectionManager_ctor ::
  "bool \<Rightarrow> bool \<Rightarrow> endpoint list \<Rightarrow> BVServiceData \<Rightarrow> host result" where
  "BVTCPConnectionManager_ctor hard_fail ec results d =
     (if ec \<and> hard_fail then Inl Runtime_Error
      else Inr
        \<lparr>currentSessionID = 0,
         thisMachineHostData = BVNode_results (sd_hostname d) (sd_hostname d) (uint (ntohs (sd_port d))) results,
         sessions_m = [], outMailboxes_p = map (\<lambda>i. (word_of_nat i, None)) [0..<255],
         service_sessionid_m = [], nodesM = [], current_id = 0, fileTransferContext_m = [],
         pendingOutgoing_m = [], ftcid = 0, outProgressName = [], outProgressSent = 0,
         outProgressTotal = 0, sess = (\<lambda>_. new_sessionData BVNode_default fresh_sock 0 []),
         next_ref = 0, accepting = None, dialing = [], appMail = []\<rparr>)"

section \<open>Lookups\<close>

definition GetNodeIDByServiceName :: "bytes \<Rightarrow> host \<Rightarrow> u8 \<times> BVStatus" where
  "GetNodeIDByServiceName name h =
     (case filter (\<lambda>(k, r). serviceName_of h r = name) (sessions_m h) of
        [] \<Rightarrow> (0, BVSTATUS_NOK)
      | (k, r) # _ \<Rightarrow> (ucast k, BVSTATUS_OK))"

definition IsSessionAlreadyPresent :: "bytes \<Rightarrow> host \<Rightarrow> bool" where
  "IsSessionAlreadyPresent name h \<longleftrightarrow> list_ex (\<lambda>(k, r). serviceName_of h r = name) (sessions_m h)"

definition GetSessionIDFromServiceName :: "bytes \<Rightarrow> host \<Rightarrow> u16 option" where
  "GetSessionIDFromServiceName name h = map_of (service_sessionid_m h) name"

definition GetSessionServiceNamesInDisplayOrder :: "host \<Rightarrow> bytes list" where
  "GetSessionServiceNamesInDisplayOrder h = map (\<lambda>(k, r). serviceName_of h r) (sessions_m h)"

definition AddNodeToNodesM :: "bytes \<Rightarrow> BVNode \<Rightarrow> host \<Rightarrow> BVStatus \<times> host" where
  "AddNodeToNodesM name node h =
     (case map_of (nodesM h) name of
        None \<Rightarrow> (BVSTATUS_OK, h\<lparr>nodesM := omap_put name node (nodesM h)\<rparr>)
      | Some _ \<Rightarrow> (BVSTATUS_NOK, h))"

section \<open>Making sessions\<close>

fun find_empty :: "nat list \<Rightarrow> (u8, unit option) omap \<Rightarrow> bool result" where
  "find_empty [] m = Inr False"
| "find_empty (i # is) m =
     (case map_of m (word_of_nat i) of
        None \<Rightarrow> Inl Out_Of_Range
      | Some None \<Rightarrow> Inr True
      | Some (Some _) \<Rightarrow> find_empty is m)"

text \<open>The new node id; the queue the function also makes is never read.\<close>

definition StartCommunicationSessionWithNode :: "host \<Rightarrow> (BVStatus \<times> u8 \<times> host) result" where
  "StartCommunicationSessionWithNode h =
     rbind (find_empty [0..<255] (outMailboxes_p h)) (\<lambda>found.
       Inr (if found then BVSTATUS_OK else BVSTATUS_NOK, current_id h,
            h\<lparr>current_id := word_of_nat (unat (current_id h) mod unat N_SERVICES_MAX + 1)\<rparr>))"

definition set_node_id :: "u8 \<Rightarrow> session \<Rightarrow> session" where
  "set_node_id nid s = s\<lparr>nodeData := (nodeData s)\<lparr>n_id := nid\<rparr>\<rparr>"

definition InitiateSessionWithNode :: "BVNode \<Rightarrow> host \<Rightarrow> (BVStatus \<times> host) result" where
  "InitiateSessionWithNode node h =
     (if \<not> (n_serviceName (thisMachineHostData h) < n_serviceName node) then Inr (BVSTATUS_OK, h)
      else if IsSessionAlreadyPresent (n_serviceName node) h then Inr (BVSTATUS_OK, h)
      else
        (case new_session node h of
           (r, h) \<Rightarrow>
             rbind (StartCommunicationSessionWithNode h) (\<lambda>(st, nid, h).
               (let h = set_sess r (set_node_id nid (sess h r)) h in
                if st = BVSTATUS_NOK then Inr (st, h)
                else Inr (BVSTATUS_OK, h\<lparr>dialing := dialing h @ [r]\<rparr>)))))"

definition ConnectHandler :: "bool \<Rightarrow> endpoint \<Rightarrow> sock \<Rightarrow> nat \<Rightarrow> host \<Rightarrow> host result" where
  "ConnectHandler error ep k r h =
     (let h = h\<lparr>dialing := remove1 r (dialing h)\<rparr> in
      if error then Inr h
      else if IsSessionAlreadyPresent (serviceName_of h r) h then Inr h
      else
        (let s = (sess h r)\<lparr>sk := k, nodeData := (nodeData (sess h r))\<lparr>n_ep := ep\<rparr>\<rparr> in
         rbind (BVTCPSession_ctor s) (\<lambda>s.
         rbind (StartCommunicationSessionWithNode h) (\<lambda>(st, nid, h).
           (let s = (set_node_id nid s)\<lparr>sstate := BVSESSIONSTATE_UNPREPARED,
                      origin := Some BVSESSIONORIGIN_OUTGOING\<rparr>;
                h = h\<lparr>sessions_m := omap_put (sessionID s) r (sessions_m h),
                      service_sessionid_m :=
                        omap_put (n_serviceName (nodeData s)) (sessionID s) (service_sessionid_m h)\<rparr>
            in with_sess r RequestReadingFrames (set_sess r s h))))))"

definition Accept :: "host \<Rightarrow> host" where
  "Accept h = (case new_session BVNode_default h of (r, h) \<Rightarrow> h\<lparr>accepting := Some r\<rparr>)"

definition empty_message :: "u64 \<Rightarrow> u8 \<Rightarrow> BVTCPMessage" where
  "empty_message now t = ConstructMessage (ConstructMessageHeader now t) (zeros 128)"

text \<open>The completion handler of \<open>async_accept\<close>. On an error it does not accept again.\<close>

definition accept_handler :: "u64 \<Rightarrow> bool \<Rightarrow> sock \<Rightarrow> host \<Rightarrow> host result" where
  "accept_handler now error k h =
     (case accepting h of
        None \<Rightarrow> Inr h
      | Some r \<Rightarrow>
          (let h = h\<lparr>accepting := None\<rparr> in
           if error then Inr h
           else
             rbind (BVTCPSession_ctor ((sess h r)\<lparr>sk := k\<rparr>)) (\<lambda>s.
             rbind (WriteMessageFrame (empty_message now CTRL_HELLO) (s\<lparr>sstate := BVSESSIONSTATE_UNPREPARED\<rparr>)) (\<lambda>s.
             rbind (RequestReadingFrames (s\<lparr>origin := Some BVSESSIONORIGIN_INGOING\<rparr>)) (\<lambda>s.
               Inr (Accept (set_sess r s h)))))))"

text \<open>\<open>ok\<close>: which of the socket calls of \<open>StartAcceptingConnections\<close> (open, two options, bind, listen) succeed.\<close>

definition StartAcceptingConnections :: "bool list \<Rightarrow> host \<Rightarrow> (BVStatus \<times> host) result" where
  "StartAcceptingConnections ok h = (if list_all id ok then Inr (BVSTATUS_OK, Accept h) else Inl Runtime_Error)"

text \<open>\<open>remote_endpoint ()\<close> throws on a socket that has lost its connection.\<close>

definition HandleSessionIdentification :: "u64 \<Rightarrow> bytes \<Rightarrow> nat \<Rightarrow> host \<Rightarrow> host result" where
  "HandleSessionIdentification now name r h =
     (if \<not> IsSessionAlreadyPresent name h then
        (let h = set_sess r ((sess h r)\<lparr>sstate := BVSESSIONSTATE_ESTABLISHED\<rparr>) h in
         rbind (StartCommunicationSessionWithNode h) (\<lambda>(st, nid, h).
           (let s = set_node_id nid (sess h r);
                s = s\<lparr>nodeData := (nodeData s)\<lparr>n_serviceName := name\<rparr>\<rparr>;
                h = h\<lparr>sessions_m := omap_put (sessionID s) r (sessions_m h)\<rparr>
            in if broken (sk s) then Inl Runtime_Error
               else
                 (let s = s\<lparr>nodeData := (nodeData s)\<lparr>n_address := fst (remote_endpoint (sk s)),
                                                       n_ep := remote_endpoint (sk s)\<rparr>\<rparr>;
                      h = h\<lparr>service_sessionid_m := omap_put name (sessionID s) (service_sessionid_m h)\<rparr>;
                      h = snd (AddNodeToNodesM name (nodeData s) h)
                  in rbind (WriteMessageFrame (empty_message now CTRL_CONFIRM_ESTABLISHED) s) (\<lambda>s.
                       with_sess r RequestReadingFrames (set_sess r s h))))))
      else Inr (set_sess r (Close (sess h r)) h))"

text \<open>
  Dropping a reference: the session is destroyed unless a pending socket operation or a file
  transfer still holds it.
\<close>

definition held :: "host \<Rightarrow> nat \<Rightarrow> bool" where
  "held h r \<longleftrightarrow> reads (sk (sess h r)) \<noteq> [] \<or> writes (sk (sess h r)) \<noteq> [] \<or>
     r \<in> snd ` snd ` set (fileTransferContext_m h) \<or> r \<in> snd ` set (sessions_m h)"

definition release :: "nat \<Rightarrow> host \<Rightarrow> host" where
  "release r h = (if held h r then h else set_sess r (session_dtor (sess h r)) h)"

definition RemoveSession :: "bytes \<Rightarrow> host \<Rightarrow> BVStatus \<times> host" where
  "RemoveSession name h =
     (case map_of (service_sessionid_m h) name of
        None \<Rightarrow> (BVSTATUS_NOK, h)
      | Some sid \<Rightarrow>
          (case map_of (sessions_m h) sid of
             None \<Rightarrow> (BVSTATUS_NOK, h\<lparr>service_sessionid_m := omap_erase name (service_sessionid_m h)\<rparr>)
           | Some r \<Rightarrow>
               (BVSTATUS_OK,
                release r (h\<lparr>sessions_m := omap_erase sid (sessions_m h),
                             service_sessionid_m := omap_erase name (service_sessionid_m h)\<rparr>))))"

section \<open>Sending\<close>

definition SendDataToNode :: "BVTCPMessage \<Rightarrow> u16 \<Rightarrow> host \<Rightarrow> (BVStatus \<times> host) result" where
  "SendDataToNode m sid h =
     (case map_of (sessions_m h) sid of
        None \<Rightarrow> Inr (BVSTATUS_FATAL_ERROR, h)
      | Some r \<Rightarrow> rbind (with_sess r (WriteMessageFrame m) h) (\<lambda>h. Inr (BVSTATUS_OK, h)))"

fun send_each :: "BVTCPMessage \<Rightarrow> (u16 \<times> nat) list \<Rightarrow> host \<Rightarrow> host result" where
  "send_each m [] h = Inr h"
| "send_each m ((k, r) # rest) h = rbind (with_sess r (WriteMessageFrame m) h) (send_each m rest)"

definition SendDataToEveryone :: "BVTCPMessage \<Rightarrow> host \<Rightarrow> (BVStatus \<times> host) result" where
  "SendDataToEveryone m h = rbind (send_each m (sessions_m h) h) (\<lambda>h. Inr (BVSTATUS_OK, h))"

definition PutMessageIntoAppMailbox :: "BVMessage \<Rightarrow> host \<Rightarrow> host" where
  "PutMessageIntoAppMailbox m h = h\<lparr>appMail := appMail h @ [m]\<rparr>"

section \<open>Files\<close>

text \<open>Decimal digits, as \<open>std::to_string\<close> prints them.\<close>

fun to_string :: "nat \<Rightarrow> bytes" where
  "to_string n = (if n < 10 then [word_of_nat (48 + n)] else to_string (n div 10) @ [word_of_nat (48 + n mod 10)])"

declare to_string.simps [simp del]

definition CurrentOutgoingTransferStatus :: "host \<Rightarrow> bytes" where
  "CurrentOutgoingTransferStatus h =
     (if outProgressTotal h = 0 \<or> outProgressSent h \<ge> outProgressTotal h then []
      else (let pct = ucast ((ucast (outProgressSent h) * 100 :: u64) div ucast (outProgressTotal h)) :: u32 in
            str ''Sending '' @ outProgressName h @ [0xE2, 0x80, 0xA6] @ str '' '' @ to_string (unat pct) @ str ''%''))"

text \<open>\<open>file_size (p, ec)\<close> returns \<open>static_cast<uintmax_t> (-1)\<close> on an error, which becomes \<open>0xFFFFFFFF\<close>.\<close>

definition InitiateFileTransferWithSession :: "u64 \<Rightarrow> fsys \<Rightarrow> u16 \<Rightarrow> bytes \<Rightarrow> host \<Rightarrow> (BVStatus \<times> host) result" where
  "InitiateFileTransferWithSession now fs sid fpath h =
     (let key = ftcid h;
          h = h\<lparr>ftcid := ftcid h + 1\<rparr>;
          fsize = (case fs_files fs fpath of Some c \<Rightarrow> word_of_nat (length c) | None \<Rightarrow> (- 1 :: u32));
          name = path_filename fpath;
          h = h\<lparr>pendingOutgoing_m := omap_put key (sid, fpath) (pendingOutgoing_m h)\<rparr>
      in case map_of (sessions_m h) sid of
           None \<Rightarrow> Inl Out_Of_Range
         | Some r \<Rightarrow> Inr (BVSTATUS_OK, set_sess r (SendFileOffer now key fsize name (sess h r)) h))"

definition RemoveFileTransferContext :: "u32 \<Rightarrow> host \<Rightarrow> BVStatus \<times> host" where
  "RemoveFileTransferContext key h =
     (BVSTATUS_OK, h\<lparr>fileTransferContext_m := omap_erase key (fileTransferContext_m h)\<rparr>)"

text \<open>
  The constructor of the transfer context is given the file; its worker thread then runs
  \<open>LaunchFileTransfer\<close>, which is \<open>run_transfer\<close> here.
\<close>

definition SignalFileTransfer :: "fsys \<Rightarrow> u32 \<Rightarrow> bool \<Rightarrow> host \<Rightarrow> host result" where
  "SignalFileTransfer fs key accept h =
     (case map_of (pendingOutgoing_m h) key of
        None \<Rightarrow> Inr h
      | Some (sid, fpath) \<Rightarrow>
          (let h = h\<lparr>pendingOutgoing_m := omap_erase key (pendingOutgoing_m h)\<rparr> in
           if \<not> accept then Inr h
           else
             (case map_of (sessions_m h) sid of
                None \<Rightarrow> Inl Out_Of_Range
              | Some r \<Rightarrow>
                  (case fs_files fs fpath of
                     None \<Rightarrow> Inl Runtime_Error
                   | Some content \<Rightarrow>
                       (let c = BVFileTransferContext_ctor (fs_open_ok fs fpath) content (path_filename fpath) key;
                            h = snd (RemoveFileTransferContext key h)
                        in Inr (h\<lparr>fileTransferContext_m := omap_put key (c, r) (fileTransferContext_m h)\<rparr>))))))"

text \<open>The progress callback the manager gives to a transfer.\<close>

definition note_progress :: "progress \<Rightarrow> host \<Rightarrow> host" where
  "note_progress p h = (case p of (sent, tot, nm) \<Rightarrow>
     h\<lparr>outProgressName := nm, outProgressSent := sent, outProgressTotal := tot\<rparr>)"

definition run_transfer :: "(nat \<Rightarrow> u64) \<Rightarrow> u32 \<Rightarrow> host \<Rightarrow> host option" where
  "run_transfer clk key h =
     (case map_of (fileTransferContext_m h) key of
        None \<Rightarrow> Some h
      | Some (c, r) \<Rightarrow>
          map_option
            (\<lambda>(c', s', ps).
               fold note_progress ps
                 (set_sess r s' (h\<lparr>fileTransferContext_m := omap_put key (c', r) (fileTransferContext_m h)\<rparr>)))
            (LaunchFileTransfer clk c (sess h r)))"

definition RespondToFileOffer :: "u64 \<Rightarrow> bytes \<Rightarrow> u32 \<Rightarrow> bool \<Rightarrow> host \<Rightarrow> host" where
  "RespondToFileOffer now name key accept h =
     (case GetSessionIDFromServiceName name h of
        None \<Rightarrow> h
      | Some sid \<Rightarrow>
          (case map_of (sessions_m h) sid of
             None \<Rightarrow> h
           | Some r \<Rightarrow>
               set_sess r (SendFileControl now key (if accept then REG_FILE_ACCEPT else REG_FILE_REJECT) (sess h r)) h))"

section \<open>Invariant\<close>

text \<open>
  The two maps of a host describe the same sessions: a session is filed under its own id, no two
  have the same peer, and the name map is exactly the inverse.
\<close>

definition host_inv :: "host \<Rightarrow> bool" where
  "host_inv h \<longleftrightarrow>
     omap_inv (sessions_m h) \<and> omap_inv (service_sessionid_m h) \<and> omap_inv (nodesM h) \<and>
     (\<forall>sid r. map_of (sessions_m h) sid = Some r \<longrightarrow> sessionID (sess h r) = sid \<and> r < next_ref h) \<and>
     (\<forall>name sid. map_of (service_sessionid_m h) name = Some sid \<longleftrightarrow>
        (\<exists>r. map_of (sessions_m h) sid = Some r \<and> serviceName_of h r = name)) \<and>
     (\<forall>i < 255. map_of (outMailboxes_p h) (word_of_nat i) = Some None)"

section \<open>The session maps\<close>

lemma present_iff:
  assumes "host_inv h"
  shows "IsSessionAlreadyPresent name h \<longleftrightarrow> map_of (service_sessionid_m h) name \<noteq> None"
proof -
  have "IsSessionAlreadyPresent name h \<longleftrightarrow>
      (\<exists>sid r. map_of (sessions_m h) sid = Some r \<and> serviceName_of h r = name)"
    using assms by (auto simp: IsSessionAlreadyPresent_def list_ex_iff host_inv_def
        om.entries_find [symmetric])
  then show ?thesis using assms by (auto simp: host_inv_def)
qed

lemma host_inv_lookup:
  "host_inv h \<Longrightarrow> map_of (service_sessionid_m h) name = Some sid \<Longrightarrow>
     \<exists>r. map_of (sessions_m h) sid = Some r \<and> serviceName_of h r = name"
  by (simp add: host_inv_def)

lemma same_name_same_session:
  assumes inv: "host_inv h" and r: "map_of (sessions_m h) i = Some r" "map_of (sessions_m h) j = Some q"
    and eq: "serviceName_of h r = serviceName_of h q"
  shows "i = j \<and> r = q"
proof -
  have "map_of (service_sessionid_m h) (serviceName_of h r) = Some i"
      "map_of (service_sessionid_m h) (serviceName_of h q) = Some j"
    using inv r by (auto simp: host_inv_def)
  with eq r show ?thesis by simp
qed

lemma host_inv_add:
  assumes inv: "host_inv h"
    and id: "sessionID (sess h r) = sid" "sessionID s = sid" and r: "r < next_ref h"
    and fresh: "map_of (sessions_m h) sid = None"
    and name: "n_serviceName (nodeData s) = name" "map_of (service_sessionid_m h) name = None"
    and h': "sess h' = (sess h)(r := s)" "sessions_m h' = omap_put sid r (sessions_m h)"
      "service_sessionid_m h' = omap_put name sid (service_sessionid_m h)"
      "next_ref h' = next_ref h" "outMailboxes_p h' = outMailboxes_p h" "omap_inv (nodesM h')"
  shows "host_inv h'"
proof -
  have other: "map_of (sessions_m h) i = Some q \<Longrightarrow> q \<noteq> r" for i q
    using inv id(1) fresh by (auto simp: host_inv_def)
  have absent: "map_of (sessions_m h) i = Some q \<Longrightarrow> serviceName_of h q \<noteq> name" for i q
    using inv name(2) unfolding host_inv_def by (metis option.distinct(1))
  have names: "serviceName_of h' q = (if q = r then name else serviceName_of h q)" for q
    using h'(1) name(1) by (simp add: serviceName_of_def)
  show ?thesis
    unfolding host_inv_def
  proof (intro conjI allI impI)
    show "omap_inv (sessions_m h')" "omap_inv (service_sessionid_m h')" "omap_inv (nodesM h')"
      using inv h' by (simp_all add: host_inv_def)
    show "sessionID (sess h' q) = i" "q < next_ref h'" if "map_of (sessions_m h') i = Some q" for i q
      using that inv id r other [of i q] h' by (auto simp: host_inv_def split: if_splits)
    show "map_of (service_sessionid_m h') n = Some i \<longleftrightarrow>
        (\<exists>q. map_of (sessions_m h') i = Some q \<and> serviceName_of h' q = n)" for n i
      using inv name(2) other absent fresh by (auto simp: host_inv_def h' names)
    show "map_of (outMailboxes_p h') (word_of_nat i) = Some None" if "i < 255" for i
      using that inv h'(5) by (simp add: host_inv_def)
  qed
qed

text \<open>Changes that keep the invariant: to a session, except for its id and its peer's name.\<close>

lemma host_inv_set_sess:
  assumes "host_inv h" and "sessionID s = sessionID (sess h r)"
    and "n_serviceName (nodeData s) = n_serviceName (nodeData (sess h r))"
  shows "host_inv (set_sess r s h)"
  using assms by (auto simp: host_inv_def set_sess_def serviceName_of_def)

lemma find_empty_ok: "map_of m 0 = Some None \<Longrightarrow> find_empty [0..<255] m = Inr True"
  by (simp add: upt_rec)

lemma StartCommunication_ok:
  assumes "host_inv h"
  shows "StartCommunicationSessionWithNode h = Inr (BVSTATUS_OK, current_id h,
     h\<lparr>current_id := word_of_nat (unat (current_id h) mod 255 + 1)\<rparr>)"
proof -
  have "\<forall>i < 255. map_of (outMailboxes_p h) (word_of_nat i) = Some None"
    using assms by (simp add: host_inv_def)
  from this [rule_format, of 0] have "map_of (outMailboxes_p h) 0 = Some None" by simp
  then show ?thesis
    by (simp add: StartCommunicationSessionWithNode_def find_empty_ok N_SERVICES_MAX_def)
qed

lemma host_inv_current_id [simp]: "host_inv (h\<lparr>current_id := x\<rparr>) = host_inv h"
  by (simp add: host_inv_def serviceName_of_def)

lemma host_inv_dialing [simp]: "host_inv (h\<lparr>dialing := x\<rparr>) = host_inv h"
  by (simp add: host_inv_def serviceName_of_def)

lemma host_inv_ctor:
  assumes "BVTCPConnectionManager_ctor hf ec rs d = Inr h"
  shows "host_inv h"
proof -
  have "map_of (map (\<lambda>i. (word_of_nat i :: u8, None :: unit option)) [0..<255]) (word_of_nat j) = Some None"
    if "j < 255" for j
  proof -
    have "(word_of_nat j :: u8) \<in> word_of_nat ` set [0..<255]" using that by simp
    then show ?thesis
      by (rule map_of_const_map)
  qed
  with assms show ?thesis
    by (auto simp: BVTCPConnectionManager_ctor_def host_inv_def serviceName_of_def split: if_splits)
qed

section \<open>Outgoing and incoming connections\<close>

text \<open>What an operation on one session leaves alone.\<close>

definition same_refs :: "host \<Rightarrow> host \<Rightarrow> bool" where
  "same_refs h h' \<longleftrightarrow> next_ref h' = next_ref h \<and> currentSessionID h' = currentSessionID h \<and>
     (\<forall>q. sessionID (sess h' q) = sessionID (sess h q))"

lemma present_dialing [simp]:
  "IsSessionAlreadyPresent name (h\<lparr>dialing := x\<rparr>) = IsSessionAlreadyPresent name h"
  "serviceName_of (h\<lparr>dialing := x\<rparr>) = serviceName_of h"
  by (simp_all add: IsSessionAlreadyPresent_def serviceName_of_def fun_eq_iff)

lemma WriteMessageFrame_frame:
  "WriteMessageFrame m s = Inr s' \<Longrightarrow> same_peer s s' \<and> readBuf s' = readBuf s \<and> fileReadBuf s' = fileReadBuf s \<and>
     reads (sk s') = reads (sk s) \<and> rx (sk s') = rx (sk s) \<and> speculative (sk s') = speculative (sk s) \<and>
     totalBytesRead s' = totalBytesRead s"
  by (auto simp: WriteMessageFrame_def async_write_def Let_def same_peer_def split: if_splits)

lemma WriteMessageFrame_inv:
  "session_inv s \<Longrightarrow> WriteMessageFrame m s = Inr s' \<Longrightarrow> session_inv s'"
  using WriteMessageFrame_frame [of m s s'] by (auto simp: same_peer_def intro: session_inv_cong)

text \<open>\<open>ConnectHandler\<close> files the session, unprepared, and starts to listen for the peer's HELLO.\<close>

lemma ConnectHandler_ok:
  assumes inv: "host_inv h" and r: "r < next_ref h"
    and new: "\<not> IsSessionAlreadyPresent (serviceName_of h r) h"
    and fresh: "map_of (sessions_m h) (sessionID (sess h r)) = None" and k: "reads k = []"
  shows "\<exists>h'. ConnectHandler False ep k r h = Inr h' \<and> host_inv h' \<and> session_inv (sess h' r) \<and>
    map_of (sessions_m h') (sessionID (sess h r)) = Some r \<and>
    GetSessionIDFromServiceName (serviceName_of h r) h' = Some (sessionID (sess h r)) \<and>
    sstate (sess h' r) = BVSESSIONSTATE_UNPREPARED \<and> origin (sess h' r) = Some BVSESSIONORIGIN_OUTGOING \<and>
    appMail h' = appMail h \<and> same_refs h h' \<and> dialing h' = remove1 r (dialing h) \<and> accepting h' = accepting h \<and>
    sessions_m h' = omap_put (sessionID (sess h r)) r (sessions_m h)"
proof -
  let ?h1 = "h\<lparr>dialing := remove1 r (dialing h)\<rparr>"
  let ?s0 = "(sess h r)\<lparr>sk := k, nodeData := (nodeData (sess h r))\<lparr>n_ep := ep\<rparr>\<rparr>"
  obtain s1 where s1: "BVTCPSession_ctor ?s0 = Inr s1" "session_inv s1" "sessionID s1 = sessionID (sess h r)"
      "n_serviceName (nodeData s1) = serviceName_of h r"
    using k by (auto simp: BVTCPSession_ctor_def ClearReadBuffer_def ClearWriteBuffer_def session_inv_def
        MESSAGE_FRAME_SIZE_BYTES_def serviceName_of_def)
  define h2 where "h2 = ?h1\<lparr>current_id := word_of_nat (unat (current_id h) mod 255 + 1)\<rparr>"
  have comm: "StartCommunicationSessionWithNode ?h1 = Inr (BVSTATUS_OK, current_id h, h2)"
    using StartCommunication_ok [of ?h1] inv by (simp add: h2_def)
  define s2 where "s2 = (set_node_id (current_id h) s1)\<lparr>sstate := BVSESSIONSTATE_UNPREPARED,
      origin := Some BVSESSIONORIGIN_OUTGOING\<rparr>"
  have s2: "session_inv s2" "sessionID s2 = sessionID (sess h r)" "n_serviceName (nodeData s2) = serviceName_of h r"
      "sstate s2 \<noteq> BVSESSIONSTATE_CLOSED"
    using s1 k by (auto simp: s2_def set_node_id_def session_inv_def BVTCPSession_ctor_def ClearReadBuffer_def
        ClearWriteBuffer_def req_fits_def MESSAGE_FRAME_SIZE_BYTES_def)
  then obtain s3 where s3: "RequestReadingFrames s2 = Inr s3" "session_inv s3" "same_peer s2 s3"
    using StartReadingFrames_ok [of s2] StartReadingFrames_frame [of s2] by (auto simp: RequestReadingFrames_def)
  define h3 where "h3 = h2\<lparr>sessions_m := omap_put (sessionID s2) r (sessions_m h2),
      service_sessionid_m := omap_put (n_serviceName (nodeData s2)) (sessionID s2) (service_sessionid_m h2)\<rparr>"
  have eq: "ConnectHandler False ep k r h = Inr (set_sess r s3 (set_sess r s2 h3))"
    using new s1(1) comm s3(1) [unfolded s2_def]
    by (simp add: ConnectHandler_def Let_def IsSessionAlreadyPresent_def serviceName_of_def with_sess_def
        set_sess_def s2_def h3_def)
  have "map_of (service_sessionid_m h) (serviceName_of h r) = None"
    using new present_iff [OF inv] by simp
  then have "host_inv (set_sess r s3 (set_sess r s2 h3))"
    by (intro host_inv_add [OF inv _ _ r fresh, where s = s3 and name = "serviceName_of h r"])
      (use s2 s3 inv in \<open>auto simp: same_peer_def set_sess_def h3_def h2_def host_inv_def\<close>)
  then show ?thesis
    unfolding eq using s2 s3
    by (auto simp: set_sess_def h3_def h2_def same_peer_def GetSessionIDFromServiceName_def s2_def same_refs_def)
qed

text \<open>A session ready to write a frame.\<close>

definition can_write :: "session \<Rightarrow> bool" where
  "can_write s \<longleftrightarrow> length (writeBuf s) = 138 \<and> \<not> broken (sk s)"

lemma m_payload_empty [simp]: "m_payload (empty_message now t) = zeros 128"
  by (simp add: empty_message_def ConstructMessage_def)

lemma WriteMessageFrame_ok:
  assumes "can_write s" and "length (m_payload m) = 128"
  shows "\<exists>s'. WriteMessageFrame m s = Inr s' \<and> tx (sk s') = tx (sk s) @ msg_bytes m"
  using assms by (simp add: can_write_def WriteMessageFrame_tx)

text \<open>
  \<open>HandleSessionIdentification\<close> for a peer not connected yet: the session is established, filed under
  the name the peer gave, and confirmed to the peer.
\<close>

text \<open>The confirmation an identified session writes, and the read it starts behind it.\<close>

lemma confirm_and_read:
  assumes "session_inv s" "can_write s" "sstate s = BVSESSIONSTATE_ESTABLISHED" "length (m_payload m) = 128"
  obtains s2 s3 where "WriteMessageFrame m s = Inr s2" "RequestReadingFrames s2 = Inr s3" "session_inv s3" "same_peer s s2" "same_peer s s3"
    "tx (sk s3) = tx (sk s) @ msg_bytes m"
    "totalBytesRead s = 0 \<Longrightarrow> reads (sk s) = [] \<Longrightarrow> \<not> speculative (sk s) \<or> length (rx (sk s)) < 138 \<Longrightarrow>
      reads (sk s3) = [\<lparr>rr_target = To_readBuf, rr_off = 0, rr_len = 138, rr_filled = False\<rparr>] \<and> rx (sk s3) = rx (sk s) \<and> totalBytesRead s3 = 0"
proof -
  obtain s2 where s2: "WriteMessageFrame m s = Inr s2" "tx (sk s2) = tx (sk s) @ msg_bytes m"
    using WriteMessageFrame_ok [OF assms(2,4)] by auto
  have peer2: "same_peer s s2" and inv2: "session_inv s2"
    using WriteMessageFrame_frame [OF s2(1)] WriteMessageFrame_inv [OF assms(1) s2(1)] by simp_all
  have open2: "sstate s2 \<noteq> BVSESSIONSTATE_CLOSED" using peer2 assms(3) by (simp add: same_peer_def)
  then obtain s3 where s3: "RequestReadingFrames s2 = Inr s3" "session_inv s3" "same_peer s2 s3" "tx (sk s3) = tx (sk s2)"
    using StartReadingFrames_ok [OF inv2] StartReadingFrames_frame [of s2] by (auto simp: RequestReadingFrames_def)
  obtain b where b: "readBuf s2 = Some b" using inv2 open2 by (auto simp: session_inv_def)
  show ?thesis
  proof (rule that [OF s2(1) s3(1,2) peer2])
    show "same_peer s s3" using peer2 s3(3) by (simp add: same_peer_def)
  qed (use s2(2) s3(1,4) WriteMessageFrame_frame [OF s2(1)] StartReadingFrames_queued [OF b] in \<open>auto simp: RequestReadingFrames_def\<close>)
qed

lemma HandleSessionIdentification_new:
  assumes inv: "host_inv h" and r: "r < next_ref h" and new: "\<not> IsSessionAlreadyPresent name h"
    and fresh: "map_of (sessions_m h) (sessionID (sess h r)) = None"
    and s: "session_inv (sess h r)" "can_write (sess h r)" "sstate (sess h r) \<noteq> BVSESSIONSTATE_CLOSED"
  shows "\<exists>h'. HandleSessionIdentification now name r h = Inr h' \<and> host_inv h' \<and> session_inv (sess h' r) \<and>
    map_of (sessions_m h') (sessionID (sess h r)) = Some r \<and>
    GetSessionIDFromServiceName name h' = Some (sessionID (sess h r)) \<and>
    serviceName_of h' r = name \<and> sstate (sess h' r) = BVSESSIONSTATE_ESTABLISHED \<and>
    map_of (nodesM h') name \<noteq> None \<and>
    tx (sk (sess h' r)) = tx (sk (sess h r)) @ msg_bytes (empty_message now CTRL_CONFIRM_ESTABLISHED) \<and>
    appMail h' = appMail h \<and> same_refs h h' \<and> dialing h' = dialing h \<and> accepting h' = accepting h \<and>
    sessions_m h' = omap_put (sessionID (sess h r)) r (sessions_m h) \<and>
    (totalBytesRead (sess h r) = 0 \<longrightarrow> reads (sk (sess h r)) = [] \<longrightarrow>
      \<not> speculative (sk (sess h r)) \<or> length (rx (sk (sess h r))) < 138 \<longrightarrow>
      reads (sk (sess h' r)) = [\<lparr>rr_target = To_readBuf, rr_off = 0, rr_len = 138, rr_filled = False\<rparr>] \<and>
      rx (sk (sess h' r)) = rx (sk (sess h r)) \<and> totalBytesRead (sess h' r) = 0)"
proof -
  let ?h1 = "set_sess r ((sess h r)\<lparr>sstate := BVSESSIONSTATE_ESTABLISHED\<rparr>) h"
  have inv1: "host_inv ?h1" by (rule host_inv_set_sess [OF inv]) simp_all
  define h2 where "h2 = ?h1\<lparr>current_id := word_of_nat (unat (current_id h) mod 255 + 1)\<rparr>"
  have comm: "StartCommunicationSessionWithNode ?h1 = Inr (BVSTATUS_OK, current_id h, h2)"
    using StartCommunication_ok [OF inv1] by (simp add: h2_def set_sess_def)
  define s1 where "s1 = (let s = set_node_id (current_id h) ((sess h r)\<lparr>sstate := BVSESSIONSTATE_ESTABLISHED\<rparr>);
      s = s\<lparr>nodeData := (nodeData s)\<lparr>n_serviceName := name\<rparr>\<rparr>
      in s\<lparr>nodeData := (nodeData s)\<lparr>n_address := fst (remote_endpoint (sk s)), n_ep := remote_endpoint (sk s)\<rparr>\<rparr>)"
  have s1: "sessionID s1 = sessionID (sess h r)" "n_serviceName (nodeData s1) = name"
      "sstate s1 = BVSESSIONSTATE_ESTABLISHED" "sk s1 = sk (sess h r)" "can_write s1"
    using s by (auto simp: s1_def set_node_id_def can_write_def Let_def)
  have s1_inv: "session_inv s1"
    by (rule session_inv_cong [OF s(1)]) (use s(3) in \<open>auto simp: s1_def set_node_id_def Let_def\<close>)
  have total: "totalBytesRead s1 = totalBytesRead (sess h r)" by (simp add: s1_def set_node_id_def Let_def)
  obtain s2 s3 where s3: "WriteMessageFrame (empty_message now CTRL_CONFIRM_ESTABLISHED) s1 = Inr s2" "RequestReadingFrames s2 = Inr s3"
      "session_inv s3" "same_peer s1 s2" "same_peer s1 s3" "tx (sk s3) = tx (sk s1) @ msg_bytes (empty_message now CTRL_CONFIRM_ESTABLISHED)"
      "totalBytesRead s1 = 0 \<Longrightarrow> reads (sk s1) = [] \<Longrightarrow> \<not> speculative (sk s1) \<or> length (rx (sk s1)) < 138 \<Longrightarrow>
        reads (sk s3) = [\<lparr>rr_target = To_readBuf, rr_off = 0, rr_len = 138, rr_filled = False\<rparr>] \<and> rx (sk s3) = rx (sk s1) \<and> totalBytesRead s3 = 0"
    by (rule confirm_and_read [OF s1_inv s1(5,3), of "empty_message now CTRL_CONFIRM_ESTABLISHED"]) simp_all
  define h3 where "h3 = snd (AddNodeToNodesM name (nodeData s1)
      (h2\<lparr>sessions_m := omap_put (sessionID s1) r (sessions_m h2),
          service_sessionid_m := omap_put name (sessionID s1) (service_sessionid_m h2)\<rparr>))"
  have h3: "sess h3 = sess h2" "sessions_m h3 = omap_put (sessionID s1) r (sessions_m h)"
      "service_sessionid_m h3 = omap_put name (sessionID s1) (service_sessionid_m h)"
      "next_ref h3 = next_ref h" "outMailboxes_p h3 = outMailboxes_p h" "omap_inv (nodesM h3)"
      "map_of (nodesM h3) name \<noteq> None" "appMail h3 = appMail h" "currentSessionID h3 = currentSessionID h"
      "dialing h3 = dialing h" "accepting h3 = accepting h"
    using inv by (auto simp: h3_def h2_def AddNodeToNodesM_def set_sess_def host_inv_def split: option.splits)
  have "\<not> broken (sk (sess h r))" using s(2) by (simp add: can_write_def)
  then have eq: "HandleSessionIdentification now name r h = Inr (set_sess r s3 (set_sess r s2 h3))"
    using new comm s3(1,2) unfolding s1_def h3_def
    by (simp add: HandleSessionIdentification_def Let_def with_sess_def set_node_id_def h2_def set_sess_def)
  have "map_of (service_sessionid_m h) name = None"
    using new present_iff [OF inv] by simp
  then have "host_inv (set_sess r s3 (set_sess r s2 h3))"
    by (intro host_inv_add [OF inv _ _ r fresh, where s = s3 and name = name])
      (use s1 s3(4,5) h3 in \<open>auto simp: same_peer_def set_sess_def h2_def\<close>)
  then show ?thesis
    unfolding eq using s1 s3(3-) h3 total
    by (auto simp: set_sess_def same_peer_def GetSessionIDFromServiceName_def serviceName_of_def same_refs_def h2_def)
qed

lemma HandleSessionIdentification_duplicate:
  "IsSessionAlreadyPresent name h \<Longrightarrow> HandleSessionIdentification now name r h = Inr (set_sess r (Close (sess h r)) h)"
  by (simp add: HandleSessionIdentification_def)

text \<open>Erasing a pair from two maps that are each other's inverse.\<close>

lemma inverse_erase:
  assumes iff: "\<And>n i. S n = Some i \<longleftrightarrow> (\<exists>q. M i = Some q \<and> f q = n)" and sid: "M sid = Some r" "f r = name"
  shows "(S(name := None)) n = Some i \<longleftrightarrow> (\<exists>q. (M(sid := None)) i = Some q \<and> f q = n)"
proof -
  have name: "S name = Some sid" using iff [THEN iffD2, of sid name] sid by blast
  have other: "i = sid" if "M i = Some q" "f q = name" for q
  proof -
    have "S name = Some i" using iff [THEN iffD2, of i name] that by blast
    with name show ?thesis by simp
  qed
  show ?thesis
  proof (cases "n = name \<or> i = sid")
    case True
    have "f q \<noteq> name" if "i \<noteq> sid" "M i = Some q" for q using other that by blast
    moreover have "S n \<noteq> Some i" if "i = sid" "n \<noteq> name"
      using iff [THEN iffD1, of n i] sid that by auto
    ultimately show ?thesis using True by auto
  next
    case False
    then show ?thesis by (simp add: iff)
  qed
qed

lemma RemoveSession_ok:
  assumes inv: "host_inv h" and sid: "GetSessionIDFromServiceName name h = Some sid"
  shows "fst (RemoveSession name h) = BVSTATUS_OK \<and> host_inv (snd (RemoveSession name h)) \<and>
    \<not> IsSessionAlreadyPresent name (snd (RemoveSession name h)) \<and>
    (\<forall>n. n \<noteq> name \<longrightarrow> GetSessionIDFromServiceName n (snd (RemoveSession name h)) = GetSessionIDFromServiceName n h)"
proof -
  obtain r where r: "map_of (sessions_m h) sid = Some r" "serviceName_of h r = name"
    using host_inv_lookup [OF inv] sid by (auto simp: GetSessionIDFromServiceName_def)
  let ?h = "h\<lparr>sessions_m := omap_erase sid (sessions_m h),
               service_sessionid_m := omap_erase name (service_sessionid_m h)\<rparr>"
  have eq: "RemoveSession name h = (BVSTATUS_OK, release r ?h)"
    using sid r by (simp add: RemoveSession_def GetSessionIDFromServiceName_def)
  have names: "serviceName_of ?h = serviceName_of h"
    by (simp add: fun_eq_iff serviceName_of_def)
  have "host_inv ?h"
    unfolding host_inv_def names
  proof (intro conjI allI impI)
    show "map_of (service_sessionid_m ?h) n = Some i \<longleftrightarrow>
        (\<exists>q. map_of (sessions_m ?h) i = Some q \<and> serviceName_of h q = n)" for n i
      using inverse_erase [of "map_of (service_sessionid_m h)" "map_of (sessions_m h)" "serviceName_of h" sid r name n i]
        inv r by (simp add: host_inv_def)
  qed (use inv in \<open>auto simp: host_inv_def split: if_splits\<close>)
  then have inv': "host_inv (release r ?h)"
    by (auto simp: release_def session_dtor_def Close_def intro: host_inv_set_sess)
  have maps: "service_sessionid_m (release r ?h) = omap_erase name (service_sessionid_m h)"
    by (simp add: release_def set_sess_def)
  show ?thesis
    using eq inv' present_iff [OF inv', of name] maps by (simp add: GetSessionIDFromServiceName_def)
qed

section \<open>Who dials\<close>

lemma Initiate_dials:
  assumes "host_inv h"
  shows "\<exists>h'. InitiateSessionWithNode node h = Inr (BVSTATUS_OK, h') \<and>
    dialing h' = dialing h @ (if n_serviceName (thisMachineHostData h) < n_serviceName node \<and>
        \<not> IsSessionAlreadyPresent (n_serviceName node) h then [next_ref h] else []) \<and>
    sessions_m h' = sessions_m h"
proof (cases "n_serviceName (thisMachineHostData h) < n_serviceName node \<and>
    \<not> IsSessionAlreadyPresent (n_serviceName node) h")
  case True
  let ?h1 = "snd (new_session node h)"
  have "map_of (outMailboxes_p h) (word_of_nat i) = Some None" if "i < 255" for i
    using assms that by (simp add: host_inv_def)
  from this [of 0] have "map_of (outMailboxes_p h) 0 = Some None" by simp
  then have "StartCommunicationSessionWithNode ?h1 = Inr (BVSTATUS_OK, current_id h,
      ?h1\<lparr>current_id := word_of_nat (unat (current_id h) mod 255 + 1)\<rparr>)"
    by (simp add: StartCommunicationSessionWithNode_def find_empty_ok new_session_def N_SERVICES_MAX_def)
  with True show ?thesis
    by (simp add: InitiateSessionWithNode_def new_session_def Let_def set_sess_def)
next
  case False
  then show ?thesis by (auto simp: InitiateSessionWithNode_def)
qed

lemma Initiate_session:
  assumes "host_inv h" "n_serviceName (thisMachineHostData h) < n_serviceName node" "\<not> IsSessionAlreadyPresent (n_serviceName node) h"
  shows "\<exists>h' i. InitiateSessionWithNode node h = Inr (BVSTATUS_OK, h') \<and> dialing h' = dialing h @ [next_ref h] \<and>
    nodeData (sess h' (next_ref h)) = node\<lparr>n_id := i\<rparr>"
proof -
  obtain h' where h': "InitiateSessionWithNode node h = Inr (BVSTATUS_OK, h')" "dialing h' = dialing h @ [next_ref h]"
    using Initiate_dials [OF assms(1), of node] assms(2,3) by auto
  from h'(1) assms(2,3) have "\<exists>i. nodeData (sess h' (next_ref h)) = node\<lparr>n_id := i\<rparr>"
    by (auto simp: InitiateSessionWithNode_def new_session_def new_sessionData_def rbind_eq_Inr set_sess_def set_node_id_def Let_def
        StartCommunicationSessionWithNode_def split: if_splits)
  with h' show ?thesis by blast
qed

section \<open>Offers\<close>

lemma SignalFileTransfer_unknown: "map_of (pendingOutgoing_m h) key = None \<Longrightarrow> SignalFileTransfer fs key a h = Inr h"
  by (simp add: SignalFileTransfer_def)

lemma SignalFileTransfer_reject:
  "map_of (pendingOutgoing_m h) key = Some p \<Longrightarrow>
     SignalFileTransfer fs key False h = Inr (h\<lparr>pendingOutgoing_m := omap_erase key (pendingOutgoing_m h)\<rparr>)"
  by (cases p) (simp add: SignalFileTransfer_def)

lemma SignalFileTransfer_accept:
  assumes "map_of (pendingOutgoing_m h) key = Some (sid, fpath)" and "map_of (sessions_m h) sid = Some r"
    and "fs_files fs fpath = Some content"
  shows "\<exists>h'. SignalFileTransfer fs key True h = Inr h' \<and>
    map_of (fileTransferContext_m h') key =
      Some (BVFileTransferContext_ctor (fs_open_ok fs fpath) content (path_filename fpath) key, r) \<and>
    map_of (pendingOutgoing_m h') key = None \<and> sess h' = sess h \<and> sessions_m h' = sessions_m h"
  using assms by (simp add: SignalFileTransfer_def RemoveFileTransferContext_def Let_def)

text \<open>Making an offer sends one frame, which carries the key, the size and the name, and no byte of the file.\<close>

lemma InitiateFileTransfer_ok:
  assumes "map_of (sessions_m h) sid = Some r" and "fs_files fs fpath = Some content" and "\<not> broken (sk (sess h r))"
  shows "\<exists>h'. InitiateFileTransferWithSession now fs sid fpath h = Inr (BVSTATUS_OK, h') \<and>
    map_of (pendingOutgoing_m h') (ftcid h) = Some (sid, fpath) \<and> ftcid h' = ftcid h + 1 \<and>
    tx (sk (sess h' r)) = tx (sk (sess h r)) @
      file_frame \<lparr>fc_header = ConstructFileHeader now REG_FILE_OFFER (ftcid h) (ucast (word_of_nat (length content) :: u32)),
                  fc_payload = begin_payload (thisMachineServiceName (sess h r)) (path_filename fpath)\<rparr> 117 \<and>
    fileTransferContext_m h' = fileTransferContext_m h"
  using assms
  by (simp add: InitiateFileTransferWithSession_def Let_def set_sess_def SendFileOffer_def
      WriteFileChunkSync_tx MESSAGE_FRAME_SIZE_BYTES_def FILE_HEADER_SIZE_BYTES_def ConstructFileChunk_def
      begin_payload_def)

section \<open>A transfer run to its end\<close>

lemma fold_note_progress:
  "ps \<noteq> [] \<Longrightarrow> last ps = (sent, tot, nm) \<Longrightarrow>
     fold note_progress ps h = h\<lparr>outProgressName := nm, outProgressSent := sent, outProgressTotal := tot\<rparr>"
proof (induction ps arbitrary: h)
  case Nil
  then show ?case by simp
next
  case (Cons p ps)
  then show ?case
    by (cases "ps = []") (auto simp: note_progress_def split: prod.splits)
qed

lemma run_transfer_sends:
  assumes ctx: "map_of (fileTransferContext_m h) key = Some (BVFileTransferContext_ctor True content fname key, r)"
    and ok: "\<not> broken (sk (sess h r))" and ne: "content \<noteq> []"
    and small: "length content + unat (DetermineChunkSize (word_of_nat (length content))) < 2 ^ 32"
  shows "\<exists>h'. run_transfer clk key h = Some h' \<and>
    sess h' = (sess h)(r := (sess h r)\<lparr>sk := (sk (sess h r))\<lparr>tx := tx (sk (sess h r)) @
        transfer_bytes clk key (thisMachineServiceName (sess h r)) fname content\<rparr>\<rparr>) \<and>
    CurrentOutgoingTransferStatus h' = [] \<and> sessions_m h' = sessions_m h \<and> appMail h' = appMail h"
proof -
  obtain c' ps where "LaunchFileTransfer clk (BVFileTransferContext_ctor True content fname key) (sess h r) =
      Some (c', (sess h r)\<lparr>sk := (sk (sess h r))\<lparr>tx := tx (sk (sess h r)) @
        transfer_bytes clk key (thisMachineServiceName (sess h r)) fname content\<rparr>\<rparr>, ps)"
      "ps \<noteq> []" "last ps = (word_of_nat (length content), word_of_nat (length content), fname)"
    using LaunchFileTransfer_sends [OF ne small ok] by blast
  then show ?thesis
    using ctx by (simp add: run_transfer_def fold_note_progress set_sess_def CurrentOutgoingTransferStatus_def)
qed

end
