(* ===== verification/Session_Table.thy ===== *)
theory Session_Table
  imports Connection_Manager
begin

text \<open>
  The connection manager as a state machine: the operations the application calls and the completion
  handlers of the event loop as one step relation, reachability, and the invariant of the
  session table by rule induction. Then what happens outside it: a failed accept, session
  ids that wrapped around, rejected offers.
\<close>

section \<open>The manager as a state machine\<close>

text \<open>
  What can happen to a manager: the operations the application calls, the completion handlers of the
  event loop, the identification of a session by its peer, and any other traffic on a session, which
  changes neither its id nor its peer's name. A peer may answer with a name on any session that is
  connected, also on one this host dialed and has filed already; the program itself answers only
  once, on the session it dialed. The steps with \<open>honest\<close> are those in which no peer identifies itself
  on a session that is in the table.
\<close>

definition unfiled :: "nat \<Rightarrow> host \<Rightarrow> bool" where
  "unfiled r h \<longleftrightarrow> r < next_ref h \<and> r \<notin> snd ` set (sessions_m h)"

inductive host_step :: "bool \<Rightarrow> host \<Rightarrow> host \<Rightarrow> bool" for honest where
  initiate: "InitiateSessionWithNode node h = Inr (st, h') \<Longrightarrow> host_step honest h h'"
| connected: "r \<in> set (dialing h) \<Longrightarrow> reads k = [] \<Longrightarrow> ConnectHandler err ep k r h = Inr h' \<Longrightarrow> host_step honest h h'"
| listen: "accepting h = None \<Longrightarrow> StartAcceptingConnections ok h = Inr (st, h') \<Longrightarrow> host_step honest h h'"
| accepted: "reads k = [] \<Longrightarrow> accept_handler now err k h = Inr h' \<Longrightarrow> host_step honest h h'"
| identified: "r < next_ref h \<Longrightarrow> r \<notin> set (dialing h) \<Longrightarrow> accepting h \<noteq> Some r \<Longrightarrow> honest \<longrightarrow> unfiled r h \<Longrightarrow>
     HandleSessionIdentification now name r h = Inr h' \<Longrightarrow> host_step honest h h'"
| removed: "RemoveSession name h = (st, h') \<Longrightarrow> host_step honest h h'"
| traffic: "sessionID s = sessionID (sess h r) \<Longrightarrow>
     n_serviceName (nodeData s) = n_serviceName (nodeData (sess h r)) \<Longrightarrow> host_step honest h (set_sess r s h)"

text \<open>Runs in which the 16-bit session ids have not been used up.\<close>

inductive host_reach :: "bool \<Rightarrow> host \<Rightarrow> bool" for honest where
  created: "BVTCPConnectionManager_ctor hf ec rs d = Inr h \<Longrightarrow> host_reach honest h"
| stepped: "host_reach honest h \<Longrightarrow> next_ref h \<le> 65536 \<Longrightarrow> host_step honest h h' \<Longrightarrow> host_reach honest h'"

text \<open>References and ids are handed out together, and a session waiting for its socket is not filed yet.\<close>

definition table_inv :: "host \<Rightarrow> bool" where
  "table_inv h \<longleftrightarrow>
     host_inv h \<and> currentSessionID h = word_of_nat (next_ref h) \<and>
     (\<forall>r < next_ref h. sessionID (sess h r) = word_of_nat r) \<and>
     distinct (dialing h) \<and> (\<forall>r \<in> set (dialing h). unfiled r h) \<and>
     (\<forall>r. accepting h = Some r \<longrightarrow> unfiled r h \<and> r \<notin> set (dialing h))"

lemma table_inv_ctor: "BVTCPConnectionManager_ctor hf ec rs d = Inr h \<Longrightarrow> table_inv h"
  using host_inv_ctor [of hf ec rs d h]
  by (auto simp: table_inv_def BVTCPConnectionManager_ctor_def split: if_splits)

lemma word_of_nat_u16_inj:
  assumes "word_of_nat a = (word_of_nat b :: u16)" and "a < 65536" and "b < 65536"
  shows "a = b"
proof -
  have "unat (word_of_nat n :: u16) = n" if "n < 65536" for n
    using that by (simp add: unat_of_nat take_bit_nat_eq_self)
  then show ?thesis using assms by metis
qed

lemma unfiled_fresh:
  assumes "table_inv h" and "unfiled r h" and "next_ref h \<le> 65536"
  shows "map_of (sessions_m h) (sessionID (sess h r)) = None"
proof (rule ccontr)
  assume "map_of (sessions_m h) (sessionID (sess h r)) \<noteq> None"
  then obtain q where q: "map_of (sessions_m h) (sessionID (sess h r)) = Some q" by blast
  then have "sessionID (sess h q) = sessionID (sess h r)" "q < next_ref h"
    using assms(1) by (auto simp: table_inv_def host_inv_def)
  then have "q = r"
    using assms by (intro word_of_nat_u16_inj) (auto simp: table_inv_def unfiled_def)
  with q assms(2) show False by (force simp: unfiled_def dest: map_of_SomeD)
qed

lemma BVTCPSession_ctor_id: "BVTCPSession_ctor d = Inr s \<Longrightarrow> sessionID s = sessionID d \<and> nodeData s = nodeData d"
  by (auto simp: BVTCPSession_ctor_def ClearReadBuffer_def ClearWriteBuffer_def rbind_eq_Inr split: if_splits)

lemma RequestReadingFrames_id: "RequestReadingFrames s = Inr s' \<Longrightarrow> sessionID s' = sessionID s \<and> nodeData s' = nodeData s"
  using StartReadingFrames_frame [of s s'] by (simp add: RequestReadingFrames_def same_peer_def)

lemma WriteMessageFrame_id: "WriteMessageFrame m s = Inr s' \<Longrightarrow> sessionID s' = sessionID s \<and> nodeData s' = nodeData s"
  using WriteMessageFrame_frame [of m s s'] by (simp add: same_peer_def)

lemma table_inv_unchanged:
  assumes inv: "table_inv h" and "host_inv h'" and refs: "same_refs h h'"
    and d: "set (dialing h') \<subseteq> set (dialing h)" "distinct (dialing h')"
    and a: "accepting h' = accepting h \<or> accepting h' = None"
    and tab: "\<And>q. q \<in> snd ` set (sessions_m h') \<Longrightarrow>
       q \<in> snd ` set (sessions_m h) \<or> q \<notin> set (dialing h') \<and> accepting h' \<noteq> Some q"
  shows "table_inv h'"
proof -
  have n: "next_ref h' = next_ref h" "currentSessionID h' = currentSessionID h" "sessionID (sess h' q) = sessionID (sess h q)" for q
    using refs by (simp_all add: same_refs_def)
  have u: "unfiled q h'" if "unfiled q h" "q \<in> set (dialing h') \<or> accepting h' = Some q" for q
    using that tab [of q] n(1) by (simp add: unfiled_def) blast
  have "unfiled q h'" if "q \<in> set (dialing h')" for q
    using that d(1) inv u [of q] unfolding table_inv_def by blast
  moreover have "unfiled q h' \<and> q \<notin> set (dialing h')" if "accepting h' = Some q" for q
  proof -
    have "accepting h = Some q" using that a by simp
    then have "unfiled q h" "q \<notin> set (dialing h)" using inv by (simp_all add: table_inv_def)
    then show ?thesis using that u [of q] d(1) by blast
  qed
  ultimately show ?thesis using inv n assms(2) d(2) by (simp add: table_inv_def)
qed

lemma omap_put_refs: "q \<in> snd ` set (omap_put k r m) \<Longrightarrow> q = r \<or> q \<in> snd ` set m"
  by (induction k r m rule: omap_put.induct) (auto split: if_splits)

lemma table_inv_put:
  assumes inv: "table_inv h" and "host_inv h'" "same_refs h h'" "accepting h' = accepting h"
    and tab: "sessions_m h' = omap_put sid r (sessions_m h)"
    and d: "set (dialing h') \<subseteq> set (dialing h)" "distinct (dialing h')" and r: "r \<notin> set (dialing h')" "accepting h \<noteq> Some r"
  shows "table_inv h'"
proof (rule table_inv_unchanged [OF assms(1-3) d])
  show "q \<in> snd ` set (sessions_m h) \<or> q \<notin> set (dialing h') \<and> accepting h' \<noteq> Some q"
    if "q \<in> snd ` set (sessions_m h')" for q
    using omap_put_refs [of q sid r "sessions_m h"] that r assms(4) unfolding tab by auto
qed (simp add: assms(4))

lemma connected_table:
  assumes inv: "table_inv h" and small: "next_ref h \<le> 65536" and r: "r \<in> set (dialing h)" and k: "reads k = []"
    and ok: "ConnectHandler err ep k r h = Inr h'"
  shows "table_inv h'"
proof -
  have u: "unfiled r h" "accepting h \<noteq> Some r" "distinct (dialing h)" "host_inv h" "r < next_ref h"
    using inv r by (auto simp: table_inv_def unfiled_def)
  define h1 where "h1 = h\<lparr>dialing := remove1 r (dialing h)\<rparr>"
  show ?thesis
  proof (cases "err \<or> IsSessionAlreadyPresent (serviceName_of h r) h")
    case True
    then have "h' = h1"
      using ok by (cases err) (simp_all add: ConnectHandler_def Let_def h1_def)
    then show ?thesis
      by (intro table_inv_unchanged [OF inv]) (use u in \<open>auto simp: same_refs_def h1_def\<close>)
  next
    case False
    then have new: "\<not> IsSessionAlreadyPresent (serviceName_of h r) h" and err: "\<not> err" by simp_all
    from ConnectHandler_ok [OF u(4,5) new unfiled_fresh [OF inv u(1) small] k, of ep] ok err
    have h': "host_inv h'" "same_refs h h'" "dialing h' = remove1 r (dialing h)" "accepting h' = accepting h"
        "sessions_m h' = omap_put (sessionID (sess h r)) r (sessions_m h)"
      by auto
    show ?thesis
      by (rule table_inv_put [OF inv h'(1,2,4,5)]) (use u h' in auto)
  qed
qed

text \<open>What a successful identification does to the tables.\<close>

lemma identification_shape:
  assumes "HandleSessionIdentification now name r h = Inr h'" "\<not> IsSessionAlreadyPresent name h"
  shows "\<exists>s. sess h' = (sess h)(r := s) \<and> sessionID s = sessionID (sess h r) \<and> n_serviceName (nodeData s) = name \<and>
    sessions_m h' = omap_put (sessionID (sess h r)) r (sessions_m h) \<and>
    service_sessionid_m h' = omap_put name (sessionID (sess h r)) (service_sessionid_m h) \<and>
    (omap_inv (nodesM h) \<longrightarrow> omap_inv (nodesM h')) \<and> outMailboxes_p h' = outMailboxes_p h \<and>
    next_ref h' = next_ref h \<and> currentSessionID h' = currentSessionID h \<and> dialing h' = dialing h \<and> accepting h' = accepting h"
  using assms
  by (auto simp: HandleSessionIdentification_def Let_def with_sess_def rbind_eq_Inr StartCommunicationSessionWithNode_def
      set_sess_def set_node_id_def AddNodeToNodesM_def split: if_splits option.splits
      dest!: WriteMessageFrame_id RequestReadingFrames_id)

lemma identified_table:
  assumes inv: "table_inv h" and small: "next_ref h \<le> 65536" and u: "unfiled r h" "r \<notin> set (dialing h)" "accepting h \<noteq> Some r"
    and ok: "HandleSessionIdentification now name r h = Inr h'"
  shows "table_inv h'"
proof (cases "IsSessionAlreadyPresent name h")
  case True
  then have h': "h' = set_sess r (Close (sess h r)) h"
    using ok HandleSessionIdentification_duplicate by simp
  have "host_inv h'"
    unfolding h' by (rule host_inv_set_sess) (use inv in \<open>simp_all add: table_inv_def Close_def\<close>)
  then show ?thesis
    by (rule table_inv_unchanged [OF inv]) (use inv in \<open>auto simp: h' same_refs_def set_sess_def Close_def table_inv_def\<close>)
next
  case False
  have h: "host_inv h" "r < next_ref h" using inv u(1) by (simp_all add: table_inv_def unfiled_def)
  obtain s where s: "sess h' = (sess h)(r := s)" "sessionID s = sessionID (sess h r)" "n_serviceName (nodeData s) = name"
      "sessions_m h' = omap_put (sessionID (sess h r)) r (sessions_m h)"
      "service_sessionid_m h' = omap_put name (sessionID (sess h r)) (service_sessionid_m h)"
      "omap_inv (nodesM h) \<longrightarrow> omap_inv (nodesM h')" "outMailboxes_p h' = outMailboxes_p h"
      "next_ref h' = next_ref h" "currentSessionID h' = currentSessionID h" "dialing h' = dialing h" "accepting h' = accepting h"
    using identification_shape [OF ok False] by blast
  have "map_of (service_sessionid_m h) name = None" using False present_iff [OF h(1)] by simp
  then have "host_inv h'"
    by (intro host_inv_add [OF h(1) _ _ h(2) unfiled_fresh [OF inv u(1) small], where s = s and name = name])
      (use s h in \<open>auto simp: host_inv_def\<close>)
  then show ?thesis
    by (rule table_inv_put [OF inv _ _ s(11,4)]) (use u s inv in \<open>auto simp: same_refs_def table_inv_def\<close>)
qed

lemma table_inv_set_sess:
  assumes "table_inv h" and "sessionID s = sessionID (sess h r)"
    and "n_serviceName (nodeData s) = n_serviceName (nodeData (sess h r))"
  shows "table_inv (set_sess r s h)"
proof (rule table_inv_unchanged [OF assms(1)])
  show "host_inv (set_sess r s h)" by (rule host_inv_set_sess) (use assms in \<open>simp_all add: table_inv_def\<close>)
qed (use assms in \<open>auto simp: same_refs_def set_sess_def table_inv_def\<close>)

lemma table_inv_current_id [simp]: "table_inv (h\<lparr>current_id := x\<rparr>) = table_inv h"
  by (simp add: table_inv_def unfiled_def)

lemma host_inv_accepting [simp]: "host_inv (h\<lparr>accepting := x\<rparr>) = host_inv h"
  by (simp add: host_inv_def serviceName_of_def)

lemma removed_table:
  assumes inv: "table_inv h" and ok: "RemoveSession name h = (st, h')"
  shows "table_inv h'"
proof (cases "GetSessionIDFromServiceName name h")
  case None
  then show ?thesis using ok inv by (simp add: RemoveSession_def GetSessionIDFromServiceName_def)
next
  case (Some sid)
  have h: "host_inv h" using inv by (simp add: table_inv_def)
  then have "host_inv h'" using RemoveSession_ok [OF h Some] ok by simp
  moreover obtain r where r: "map_of (sessions_m h) sid = Some r"
    using host_inv_lookup [OF h] Some by (auto simp: GetSessionIDFromServiceName_def)
  have "sessions_m h' = omap_erase sid (sessions_m h)" "same_refs h h'" "dialing h' = dialing h" "accepting h' = accepting h"
    using ok Some r by (auto simp: RemoveSession_def GetSessionIDFromServiceName_def release_def set_sess_def
        same_refs_def session_dtor_def Close_def)
  moreover have "set (omap_erase sid (sessions_m h)) \<subseteq> set (sessions_m h)"
    using h by (auto simp: host_inv_def om.entries_erase)
  ultimately show ?thesis
    using inv by (intro table_inv_unchanged [OF inv]) (auto simp: table_inv_def)
qed

lemma new_session_table:
  assumes inv: "table_inv h" and new: "new_session node h = (r, h1)"
  shows "table_inv h1 \<and> unfiled r h1 \<and> r \<notin> set (dialing h1) \<and> accepting h1 \<noteq> Some r \<and> r = next_ref h"
proof -
  have h1: "r = next_ref h" "sess h1 = (sess h)(next_ref h :=
        new_sessionData node fresh_sock (currentSessionID h) (n_serviceName (thisMachineHostData h)))"
      "next_ref h1 = Suc (next_ref h)" "currentSessionID h1 = currentSessionID h + 1" "sessions_m h1 = sessions_m h"
      "service_sessionid_m h1 = service_sessionid_m h" "nodesM h1 = nodesM h" "outMailboxes_p h1 = outMailboxes_p h"
      "dialing h1 = dialing h" "accepting h1 = accepting h"
    using new by (auto simp: new_session_def)
  have old: "q < next_ref h" if "q \<in> snd ` set (sessions_m h)" for q
    using inv that by (auto simp: table_inv_def host_inv_def om.entries_find)
  have "host_inv h1"
    using inv unfolding table_inv_def host_inv_def serviceName_of_def
    by (auto simp: h1 less_Suc_eq) (metis less_irrefl)
  moreover have "unfiled r h1" using old h1 by (auto simp: unfiled_def)
  moreover have "unfiled q h1" if "unfiled q h" for q using that h1 by (simp add: unfiled_def)
  moreover have "\<not> unfiled (next_ref h) h" by (simp add: unfiled_def)
  ultimately show ?thesis
    using inv h1 unfolding table_inv_def by (auto simp: less_Suc_eq new_sessionData_def)
qed

lemma table_inv_dial:
  "table_inv h \<Longrightarrow> unfiled r h \<Longrightarrow> r \<notin> set (dialing h) \<Longrightarrow> accepting h \<noteq> Some r \<Longrightarrow>
     table_inv (h\<lparr>dialing := dialing h @ [r]\<rparr>)"
  by (auto simp: table_inv_def unfiled_def)

lemma table_inv_accepting:
  "table_inv h \<Longrightarrow> (\<And>r. x = Some r \<Longrightarrow> unfiled r h \<and> r \<notin> set (dialing h)) \<Longrightarrow> table_inv (h\<lparr>accepting := x\<rparr>)"
  by (auto simp: table_inv_def unfiled_def)

lemma Accept_table: "table_inv h \<Longrightarrow> table_inv (Accept h)"
  using new_session_table [of h BVNode_default]
  by (auto simp: Accept_def intro: table_inv_accepting split: prod.split)

lemma initiate_table:
  assumes inv: "table_inv h" and ok: "InitiateSessionWithNode node h = Inr (st, h')"
  shows "table_inv h'"
proof (cases "n_serviceName (thisMachineHostData h) < n_serviceName node \<and> \<not> IsSessionAlreadyPresent (n_serviceName node) h")
  case False
  then show ?thesis using ok inv by (auto simp: InitiateSessionWithNode_def split: if_splits)
next
  case True
  obtain r h1 where n: "new_session node h = (r, h1)" by (cases "new_session node h")
  have h1: "table_inv h1" "unfiled r h1" "r \<notin> set (dialing h1)" "accepting h1 \<noteq> Some r"
    using new_session_table [OF inv n] by blast+
  define h2 where "h2 = h1\<lparr>current_id := word_of_nat (unat (current_id h1) mod 255 + 1)\<rparr>"
  define h3 where "h3 = set_sess r (set_node_id (current_id h1) (sess h2 r)) h2"
  have "StartCommunicationSessionWithNode h1 = Inr (BVSTATUS_OK, current_id h1, h2)"
    using StartCommunication_ok [of h1] h1(1) by (simp add: table_inv_def h2_def)
  then have h': "h' = h3\<lparr>dialing := dialing h3 @ [r]\<rparr>"
    using ok True n by (simp add: InitiateSessionWithNode_def h3_def Let_def)
  have "table_inv h3"
    unfolding h3_def by (rule table_inv_set_sess) (use h1 in \<open>simp_all add: h2_def set_node_id_def\<close>)
  then show ?thesis
    unfolding h' by (rule table_inv_dial) (use h1 in \<open>simp_all add: h3_def h2_def set_sess_def unfiled_def\<close>)
qed

lemma accepted_table:
  assumes inv: "table_inv h" and ok: "accept_handler now err k h = Inr h'"
  shows "table_inv h'"
proof (cases "accepting h")
  case None
  then show ?thesis using ok inv by (simp add: accept_handler_def)
next
  case (Some r)
  define h0 where "h0 = h\<lparr>accepting := None\<rparr>"
  have h0: "table_inv h0" using table_inv_accepting [OF inv, of None] by (simp add: h0_def)
  show ?thesis
  proof (cases err)
    case True
    with ok Some h0 show ?thesis by (simp add: accept_handler_def h0_def)
  next
    case False
    with ok Some obtain s1 s2 s3 where s: "BVTCPSession_ctor ((sess h0 r)\<lparr>sk := k\<rparr>) = Inr s1"
        "WriteMessageFrame (empty_message now CTRL_HELLO) (s1\<lparr>sstate := BVSESSIONSTATE_UNPREPARED\<rparr>) = Inr s2"
        "RequestReadingFrames (s2\<lparr>origin := Some BVSESSIONORIGIN_INGOING\<rparr>) = Inr s3" "h' = Accept (set_sess r s3 h0)"
      by (auto simp: accept_handler_def Let_def rbind_eq_Inr h0_def [symmetric])
    have "sessionID s3 = sessionID (sess h0 r) \<and> nodeData s3 = nodeData (sess h0 r)"
      using BVTCPSession_ctor_id [OF s(1)] WriteMessageFrame_id [OF s(2)] RequestReadingFrames_id [OF s(3)] by simp
    then have "table_inv (set_sess r s3 h0)" by (intro table_inv_set_sess [OF h0]) simp_all
    then show ?thesis unfolding s(4) by (rule Accept_table)
  qed
qed

lemma host_step_table: "host_step True h h' \<Longrightarrow> table_inv h \<Longrightarrow> next_ref h \<le> 65536 \<Longrightarrow> table_inv h'"
proof (induction rule: host_step.induct)
  case (listen h ok st h')
  then show ?case using Accept_table by (auto simp: StartAcceptingConnections_def split: if_splits)
qed (auto intro: initiate_table connected_table accepted_table identified_table removed_table table_inv_set_sess)

lemma host_reach_table: "host_reach True h \<Longrightarrow> table_inv h"
  by (induction rule: host_reach.induct) (auto intro: table_inv_ctor host_step_table)

section \<open>Peers that change their name\<close>

text \<open>
  What the tables keep whatever the peers answer: a session is filed under its own id and found by the
  name its peer gave last. The name map may hold more: a name a peer has given up.
\<close>

definition names_inv :: "host \<Rightarrow> bool" where
  "names_inv h \<longleftrightarrow>
     omap_inv (sessions_m h) \<and> omap_inv (service_sessionid_m h) \<and>
     (\<forall>sid r. map_of (sessions_m h) sid = Some r \<longrightarrow>
        sessionID (sess h r) = sid \<and> r < next_ref h \<and> map_of (service_sessionid_m h) (serviceName_of h r) = Some sid)"

definition ids_inv :: "host \<Rightarrow> bool" where
  "ids_inv h \<longleftrightarrow> currentSessionID h = word_of_nat (next_ref h) \<and> (\<forall>r < next_ref h. sessionID (sess h r) = word_of_nat r) \<and>
     (\<forall>r \<in> set (dialing h). r < next_ref h) \<and> (\<forall>r. accepting h = Some r \<longrightarrow> r < next_ref h)"

lemma names_inv_present:
  assumes "names_inv h" and "IsSessionAlreadyPresent name h"
  shows "\<exists>sid r. map_of (sessions_m h) sid = Some r \<and> serviceName_of h r = name \<and> GetSessionIDFromServiceName name h = Some sid"
proof -
  obtain sid r where r: "(sid, r) \<in> set (sessions_m h)" "serviceName_of h r = name"
    using assms(2) by (auto simp: IsSessionAlreadyPresent_def list_ex_iff)
  then have "map_of (sessions_m h) sid = Some r" using assms(1) by (simp add: names_inv_def om.entries_find)
  then show ?thesis using assms(1) r(2) by (auto simp: names_inv_def GetSessionIDFromServiceName_def)
qed

lemma absent_name:
  "names_inv h \<Longrightarrow> \<not> IsSessionAlreadyPresent name h \<Longrightarrow> map_of (sessions_m h) sid = Some r \<Longrightarrow> serviceName_of h r \<noteq> name"
  by (auto simp: IsSessionAlreadyPresent_def list_ex_iff dest: map_of_SomeD)

text \<open>Filing a session under a name no filed session has: its id belongs to no other session.\<close>

lemma names_inv_file:
  assumes inv: "names_inv h" "ids_inv h" "next_ref h \<le> 65536" and r: "r < next_ref h"
    and new: "\<not> IsSessionAlreadyPresent name h"
    and s: "sess h' = (sess h)(r := s)" "sessionID s = sessionID (sess h r)" "n_serviceName (nodeData s) = name"
    and h': "sessions_m h' = omap_put (sessionID (sess h r)) r (sessions_m h)"
      "service_sessionid_m h' = omap_put name (sessionID (sess h r)) (service_sessionid_m h)" "next_ref h' = next_ref h"
  shows "names_inv h'"
proof -
  let ?sid = "sessionID (sess h r)"
  have other: "q \<noteq> r \<and> i \<noteq> ?sid" if "map_of (sessions_m h) i = Some q" "i \<noteq> ?sid \<or> q \<noteq> r" for i q
  proof -
    have q: "sessionID (sess h q) = i" "q < next_ref h" using inv(1) that(1) by (auto simp: names_inv_def)
    have "q = r" if "i = ?sid"
      using q r that inv(2,3) by (intro word_of_nat_u16_inj) (auto simp: ids_inv_def)
    then show ?thesis using that(2) q(1) by auto
  qed
  have "sessionID (sess h' q) = i \<and> q < next_ref h' \<and> map_of (service_sessionid_m h') (serviceName_of h' q) = Some i"
    if "map_of (sessions_m h') i = Some q" for i q
  proof (cases "i = ?sid")
    case True
    then have "q = r" using that inv(1) by (simp add: h' names_inv_def)
    then show ?thesis using True s r inv(1) by (simp add: h' serviceName_of_def names_inv_def)
  next
    case False
    then have old: "map_of (sessions_m h) i = Some q" using that inv(1) by (simp add: h' names_inv_def)
    then show ?thesis
      using other [OF old] absent_name [OF inv(1) new old] False inv(1) by (auto simp: h' s serviceName_of_def names_inv_def)
  qed
  then show ?thesis using inv(1) h' by (auto simp: names_inv_def)
qed

lemma connect_shape:
  assumes "ConnectHandler err ep k r h = Inr h'"
  shows "h' = h\<lparr>dialing := remove1 r (dialing h)\<rparr> \<or>
    (\<exists>s. \<not> IsSessionAlreadyPresent (serviceName_of h r) h \<and> sess h' = (sess h)(r := s) \<and> sessionID s = sessionID (sess h r) \<and>
      n_serviceName (nodeData s) = serviceName_of h r \<and>
      sessions_m h' = omap_put (sessionID (sess h r)) r (sessions_m h) \<and>
      service_sessionid_m h' = omap_put (serviceName_of h r) (sessionID (sess h r)) (service_sessionid_m h) \<and>
      next_ref h' = next_ref h \<and> currentSessionID h' = currentSessionID h \<and> dialing h' = remove1 r (dialing h) \<and> accepting h' = accepting h)"
  using assms
  by (auto simp: ConnectHandler_def Let_def with_sess_def rbind_eq_Inr StartCommunicationSessionWithNode_def
      set_sess_def set_node_id_def serviceName_of_def split: if_splits
      dest!: BVTCPSession_ctor_id RequestReadingFrames_id)

lemma names_inv_set_sess:
  "names_inv h \<Longrightarrow> sessionID s = sessionID (sess h r) \<Longrightarrow> n_serviceName (nodeData s) = n_serviceName (nodeData (sess h r)) \<Longrightarrow>
     names_inv (set_sess r s h)"
  by (auto simp: names_inv_def set_sess_def serviceName_of_def)

lemma ids_inv_set_sess: "ids_inv h \<Longrightarrow> sessionID s = sessionID (sess h r) \<Longrightarrow> ids_inv (set_sess r s h)"
  by (auto simp: ids_inv_def set_sess_def)

lemma ids_inv_cong:
  assumes "ids_inv h" and "next_ref h' = next_ref h" "currentSessionID h' = currentSessionID h"
    and "\<And>q. sessionID (sess h' q) = sessionID (sess h q)" and "set (dialing h') \<subseteq> set (dialing h)" and "accepting h' = accepting h"
  shows "ids_inv h'"
  using assms by (auto simp: ids_inv_def)

definition filing_inv :: "host \<Rightarrow> bool" where
  "filing_inv h \<longleftrightarrow> names_inv h \<and> ids_inv h"

lemma filing_inv_set_sess:
  "filing_inv h \<Longrightarrow> sessionID s = sessionID (sess h r) \<Longrightarrow> n_serviceName (nodeData s) = n_serviceName (nodeData (sess h r)) \<Longrightarrow>
     filing_inv (set_sess r s h)"
  by (simp add: filing_inv_def names_inv_set_sess ids_inv_set_sess)

lemma connected_filing:
  assumes inv: "filing_inv h" "next_ref h \<le> 65536" and r: "r \<in> set (dialing h)" and ok: "ConnectHandler err ep k r h = Inr h'"
  shows "filing_inv h'"
  using connect_shape [OF ok]
proof
  assume "h' = h\<lparr>dialing := remove1 r (dialing h)\<rparr>"
  then show ?thesis using inv by (auto simp: filing_inv_def names_inv_def ids_inv_def serviceName_of_def dest: notin_set_remove1)
next
  have r': "r < next_ref h" using inv(1) r by (auto simp: filing_inv_def ids_inv_def)
  have sub: "set (remove1 r (dialing h)) \<subseteq> set (dialing h)" by (rule set_remove1_subset)
  assume "\<exists>s. \<not> IsSessionAlreadyPresent (serviceName_of h r) h \<and> sess h' = (sess h)(r := s) \<and> sessionID s = sessionID (sess h r) \<and>
      n_serviceName (nodeData s) = serviceName_of h r \<and>
      sessions_m h' = omap_put (sessionID (sess h r)) r (sessions_m h) \<and>
      service_sessionid_m h' = omap_put (serviceName_of h r) (sessionID (sess h r)) (service_sessionid_m h) \<and>
      next_ref h' = next_ref h \<and> currentSessionID h' = currentSessionID h \<and> dialing h' = remove1 r (dialing h) \<and> accepting h' = accepting h"
  then obtain s where s: "\<not> IsSessionAlreadyPresent (serviceName_of h r) h" "sess h' = (sess h)(r := s)" "sessionID s = sessionID (sess h r)"
      "n_serviceName (nodeData s) = serviceName_of h r" "sessions_m h' = omap_put (sessionID (sess h r)) r (sessions_m h)"
      "service_sessionid_m h' = omap_put (serviceName_of h r) (sessionID (sess h r)) (service_sessionid_m h)" "next_ref h' = next_ref h"
      "currentSessionID h' = currentSessionID h" "dialing h' = remove1 r (dialing h)" "accepting h' = accepting h"
    by blast
  have "names_inv h'" by (rule names_inv_file [OF _ _ inv(2) r' s(1-7)]) (use inv(1) in \<open>simp_all add: filing_inv_def\<close>)
  moreover have "ids_inv h'"
    by (rule ids_inv_cong [OF _ s(7,8)]) (use inv(1) sub s(2,3,9,10) in \<open>auto simp: filing_inv_def\<close>)
  ultimately show ?thesis by (simp add: filing_inv_def)
qed

lemma identified_filing:
  assumes inv: "filing_inv h" "next_ref h \<le> 65536" and r: "r < next_ref h" and ok: "HandleSessionIdentification now name r h = Inr h'"
  shows "filing_inv h'"
proof (cases "IsSessionAlreadyPresent name h")
  case True
  then have "h' = set_sess r (Close (sess h r)) h" using ok HandleSessionIdentification_duplicate by simp
  then show ?thesis using inv by (simp add: filing_inv_set_sess Close_def)
next
  case False
  obtain s where s: "sess h' = (sess h)(r := s)" "sessionID s = sessionID (sess h r)" "n_serviceName (nodeData s) = name"
      "sessions_m h' = omap_put (sessionID (sess h r)) r (sessions_m h)"
      "service_sessionid_m h' = omap_put name (sessionID (sess h r)) (service_sessionid_m h)"
      "next_ref h' = next_ref h" "currentSessionID h' = currentSessionID h" "dialing h' = dialing h" "accepting h' = accepting h"
    using identification_shape [OF ok False] by blast
  have "names_inv h'" by (rule names_inv_file [OF _ _ inv(2) r False s(1-6)]) (use inv(1) in \<open>simp_all add: filing_inv_def\<close>)
  moreover have "ids_inv h'"
    by (rule ids_inv_cong [OF _ s(6,7)]) (use inv(1) s(1,2,8,9) in \<open>auto simp: filing_inv_def\<close>)
  ultimately show ?thesis by (simp add: filing_inv_def)
qed

lemma new_session_filing:
  "filing_inv h \<Longrightarrow> new_session node h = (r, h1) \<Longrightarrow> filing_inv h1 \<and> r < next_ref h1"
  by (auto simp: new_session_def filing_inv_def names_inv_def ids_inv_def serviceName_of_def less_Suc_eq new_sessionData_def) (metis less_irrefl)+

lemma filing_inv_current_id [simp]: "filing_inv (h\<lparr>current_id := c\<rparr>) = filing_inv h"
  by (simp add: filing_inv_def names_inv_def ids_inv_def serviceName_of_def)

lemma filing_inv_accepting: "filing_inv h \<Longrightarrow> r < next_ref h \<Longrightarrow> filing_inv (h\<lparr>accepting := Some r\<rparr>)"
  unfolding filing_inv_def names_inv_def ids_inv_def serviceName_of_def by simp

lemma filing_inv_dial: "filing_inv h \<Longrightarrow> r < next_ref h \<Longrightarrow> filing_inv (h\<lparr>dialing := dialing h @ [r]\<rparr>)"
  unfolding filing_inv_def names_inv_def ids_inv_def serviceName_of_def by simp

lemma Accept_filing:
  assumes "filing_inv h"
  shows "filing_inv (Accept h)"
proof -
  obtain r h1 where n: "new_session BVNode_default h = (r, h1)" by (cases "new_session BVNode_default h")
  then show ?thesis using new_session_filing [OF assms n] by (simp add: Accept_def filing_inv_accepting)
qed

lemma initiate_filing:
  assumes inv: "filing_inv h" and ok: "InitiateSessionWithNode node h = Inr (st, h')"
  shows "filing_inv h'"
proof (cases "n_serviceName (thisMachineHostData h) < n_serviceName node \<and> \<not> IsSessionAlreadyPresent (n_serviceName node) h")
  case False
  then show ?thesis using ok inv by (auto simp: InitiateSessionWithNode_def split: if_splits)
next
  case True
  obtain r h1 where n: "new_session node h = (r, h1)" by (cases "new_session node h")
  have h1: "filing_inv h1" "r < next_ref h1" using new_session_filing [OF inv n] by simp_all
  define nid c where "nid = current_id h1" and "c = (word_of_nat (unat (current_id h1) mod unat N_SERVICES_MAX + 1) :: u8)"
  define h2 where "h2 = set_sess r (set_node_id nid (sess h1 r)) (h1\<lparr>current_id := c\<rparr>)"
  have h': "h' = h2 \<or> h' = h2\<lparr>dialing := dialing h2 @ [r]\<rparr>"
    using ok True n
    by (auto simp: InitiateSessionWithNode_def StartCommunicationSessionWithNode_def Let_def rbind_eq_Inr set_sess_def nid_def c_def h2_def
        split: if_splits)
  have "filing_inv h2" unfolding h2_def by (rule filing_inv_set_sess) (use h1 in \<open>simp_all add: set_node_id_def\<close>)
  then show ?thesis using h' filing_inv_dial [of h2 r] h1(2) by (auto simp: h2_def set_sess_def)
qed

lemma accepted_filing:
  assumes inv: "filing_inv h" and ok: "accept_handler now err k h = Inr h'"
  shows "filing_inv h'"
proof (cases "accepting h")
  case None
  then show ?thesis using ok inv by (simp add: accept_handler_def)
next
  case (Some r)
  define h0 where "h0 = h\<lparr>accepting := None\<rparr>"
  have h0: "filing_inv h0" using inv by (simp add: h0_def filing_inv_def names_inv_def ids_inv_def serviceName_of_def)
  show ?thesis
  proof (cases err)
    case True
    with ok Some h0 show ?thesis by (simp add: accept_handler_def h0_def)
  next
    case False
    with ok Some obtain s1 s2 s3 where s: "BVTCPSession_ctor ((sess h0 r)\<lparr>sk := k\<rparr>) = Inr s1"
        "WriteMessageFrame (empty_message now CTRL_HELLO) (s1\<lparr>sstate := BVSESSIONSTATE_UNPREPARED\<rparr>) = Inr s2"
        "RequestReadingFrames (s2\<lparr>origin := Some BVSESSIONORIGIN_INGOING\<rparr>) = Inr s3" "h' = Accept (set_sess r s3 h0)"
      by (auto simp: accept_handler_def Let_def rbind_eq_Inr h0_def [symmetric])
    have "sessionID s3 = sessionID (sess h0 r) \<and> nodeData s3 = nodeData (sess h0 r)"
      using BVTCPSession_ctor_id [OF s(1)] WriteMessageFrame_id [OF s(2)] RequestReadingFrames_id [OF s(3)] by simp
    then show ?thesis unfolding s(4) by (intro Accept_filing filing_inv_set_sess [OF h0]) simp_all
  qed
qed

lemma names_inv_erase:
  assumes inv: "names_inv h" and name: "map_of (service_sessionid_m h) name = Some sid"
  shows "names_inv (h\<lparr>sessions_m := omap_erase sid (sessions_m h), service_sessionid_m := omap_erase name (service_sessionid_m h)\<rparr>)"
proof -
  have "serviceName_of h q \<noteq> name" if "map_of (sessions_m h) i = Some q" "i \<noteq> sid" for i q
    using inv name that by (auto simp: names_inv_def)
  then show ?thesis using inv by (auto simp: names_inv_def serviceName_of_def split: if_splits)
qed

lemma removed_filing:
  assumes inv: "filing_inv h" and ok: "RemoveSession name h = (st, h')"
  shows "filing_inv h'"
proof (cases "map_of (service_sessionid_m h) name")
  case None
  then show ?thesis using ok inv by (simp add: RemoveSession_def)
next
  case (Some sid)
  let ?h1 = "h\<lparr>sessions_m := omap_erase sid (sessions_m h), service_sessionid_m := omap_erase name (service_sessionid_m h)\<rparr>"
  have h1: "filing_inv ?h1" using names_inv_erase [OF _ Some] inv by (simp add: filing_inv_def ids_inv_def)
  show ?thesis
  proof (cases "map_of (sessions_m h) sid")
    case None
    have "omap_erase sid (sessions_m h) = sessions_m h" using None by (auto simp: omap_erase_filter map_of_eq_None_iff filter_id_conv)
    then have "h' = ?h1" using ok Some None by (auto simp: RemoveSession_def)
    then show ?thesis using h1 by simp
  next
    case (Some r)
    then have "h' = release r ?h1" using ok \<open>map_of (service_sessionid_m h) name = Some sid\<close> by (auto simp: RemoveSession_def)
    then show ?thesis using h1 filing_inv_set_sess [OF h1, of _ r] by (simp add: release_def session_dtor_def Close_def)
  qed
qed

lemma host_step_filing: "host_step honest h h' \<Longrightarrow> filing_inv h \<Longrightarrow> next_ref h \<le> 65536 \<Longrightarrow> filing_inv h'"
proof (induction rule: host_step.induct)
  case (listen h ok st h')
  then show ?case using Accept_filing by (auto simp: StartAcceptingConnections_def split: if_splits)
qed (auto intro: initiate_filing connected_filing accepted_filing identified_filing removed_filing filing_inv_set_sess)

lemma host_reach_filing: "host_reach honest h \<Longrightarrow> filing_inv h"
proof (induction rule: host_reach.induct)
  case (created hf ec rs d h)
  then show ?case
    by (auto simp: BVTCPConnectionManager_ctor_def filing_inv_def names_inv_def ids_inv_def omap_inv_def split: if_splits)
qed (auto intro: host_step_filing)


definition example_service :: "bytes \<Rightarrow> BVServiceData" where
  "example_service name = \<lparr>sd_port = 50001, sd_hostname = name, sd_domain = [], sd_regtype = []\<rparr>"

definition example_created :: "bytes \<Rightarrow> host" where
  "example_created name = (case BVTCPConnectionManager_ctor False False [] (example_service name) of Inr h \<Rightarrow> h)"

definition example_peer :: "bytes \<Rightarrow> BVNode" where
  "example_peer name = BVNode_default\<lparr>n_serviceName := name\<rparr>"

lemma example_created_reach: "host_reach honest (example_created name)"
  by (rule created [of False False "[]" "example_service name"])
    (simp add: example_created_def BVTCPConnectionManager_ctor_def)

text \<open>Alice dials Bob.\<close>

lemma example_dialing:
  "\<exists>h. host_reach honest h \<and> dialing h = [0] \<and> sessions_m h = [] \<and> next_ref h \<le> 65536 \<and> serviceName_of h 0 = str ''bob'' \<and>
     thisMachineServiceName (sess h 0) = str ''alice''"
proof -
  let ?h = "example_created (str ''alice'')"
  have f: "n_serviceName (thisMachineHostData ?h) = str ''alice''" "next_ref ?h = 0" "dialing ?h = []" "sessions_m ?h = []"
    by (simp_all add: example_created_def BVTCPConnectionManager_ctor_def example_service_def BVNode_results_def)
  have inv: "host_inv ?h" using host_reach_table [OF example_created_reach] by (simp add: table_inv_def)
  have lt: "str ''alice'' < str ''bob''" by (simp add: str_def)
  have nt: "\<not> IsSessionAlreadyPresent (str ''bob'') ?h" using f by (simp add: IsSessionAlreadyPresent_def)
  obtain h1 where h1: "InitiateSessionWithNode (example_peer (str ''bob'')) ?h = Inr (BVSTATUS_OK, h1)"
      "dialing h1 = [0]" "sessions_m h1 = []"
    using Initiate_dials [OF inv, of "example_peer (str ''bob'')"] f lt nt by (auto simp: example_peer_def)
  have n1: "serviceName_of h1 0 = str ''bob'' \<and> next_ref h1 \<le> 65536 \<and> thisMachineServiceName (sess h1 0) = str ''alice''"
    using h1(1) f lt nt
    by (auto simp: InitiateSessionWithNode_def new_session_def StartCommunication_ok
        rbind_eq_Inr set_sess_def set_node_id_def serviceName_of_def new_sessionData_def example_peer_def Let_def
        StartCommunicationSessionWithNode_def split: if_splits)
  have "host_reach honest h1" by (rule stepped [OF example_created_reach _ initiate [OF h1(1)]]) (simp add: f)
  with n1 h1 show ?thesis by blast
qed

lemma example_connected:
  "\<exists>h. host_reach True h \<and> GetSessionIDFromServiceName (str ''bob'') h = Some 0"
proof -
  obtain h1 where r1: "host_reach True h1" and h1: "dialing h1 = [0]" "sessions_m h1 = []" "next_ref h1 \<le> 65536"
      and n1: "serviceName_of h1 0 = str ''bob''"
    using example_dialing by blast
  have t1: "table_inv h1" using r1 by (rule host_reach_table)
  then have u: "unfiled 0 h1" "host_inv h1" "sessionID (sess h1 0) = 0"
    using h1(1) by (auto simp: table_inv_def unfiled_def)
  have "\<not> IsSessionAlreadyPresent (serviceName_of h1 0) h1" "0 < next_ref h1"
    using h1(2) u(1) by (simp_all add: IsSessionAlreadyPresent_def unfiled_def)
  from ConnectHandler_ok [OF u(2) this(2,1), of example_sock "([], 0)"] obtain h2 where
      h2: "ConnectHandler False ([], 0) example_sock 0 h1 = Inr h2" "GetSessionIDFromServiceName (str ''bob'') h2 = Some 0"
    using h1(2) u(3) n1 by (auto simp: example_sock_def)
  have "host_step True h1 h2"
    by (rule connected [OF _ _ h2(1)]) (simp_all add: h1 example_sock_def)
  with h2(2) show ?thesis using stepped [OF r1 h1(3)] by blast
qed


section \<open>A concrete host\<close>

text \<open>Alice with one session, to Bob, and a second session object that has the same id.\<close>

definition example_host :: host where
  "example_host = (example_created (str ''alice''))\<lparr>sessions_m := [(0, 0)], service_sessionid_m := [(str ''bob'', 0)],
     sess := (\<lambda>r. example_session (str ''alice'') (if r = 0 then str ''bob'' else [])), next_ref := 2\<rparr>"

lemma example_host_inv: "host_inv example_host"
proof -
  have "host_inv (example_created (str ''alice''))"
    using host_reach_table [OF example_created_reach] by (simp add: table_inv_def)
  then show ?thesis
    by (auto simp: host_inv_def example_host_def serviceName_of_def example_session_def omap_inv_def)
qed

text \<open>C23: two hosts that discover each other do not both dial: exactly the one with the smaller name does, the other waits for the connection.\<close>

theorem glare_avoided:
  assumes "host_inv ha" "host_inv hb" and "na = n_serviceName (thisMachineHostData ha)" "nb = n_serviceName (thisMachineHostData hb)" "na \<noteq> nb"
    and "\<not> IsSessionAlreadyPresent nb ha" "\<not> IsSessionAlreadyPresent na hb"
    and "n_serviceName peerA = na" "n_serviceName peerB = nb"
  shows "\<exists>ha' hb'. InitiateSessionWithNode peerB ha = Inr (BVSTATUS_OK, ha') \<and> InitiateSessionWithNode peerA hb = Inr (BVSTATUS_OK, hb') \<and>
    (dialing ha' = dialing ha @ [next_ref ha] \<and> dialing hb' = dialing hb \<or>
     dialing ha' = dialing ha \<and> dialing hb' = dialing hb @ [next_ref hb])"
proof -
  obtain ha' where a: "InitiateSessionWithNode peerB ha = Inr (BVSTATUS_OK, ha')"
      "dialing ha' = dialing ha @ (if na < nb then [next_ref ha] else [])"
    using Initiate_dials [OF assms(1), of peerB] assms by auto
  obtain hb' where b: "InitiateSessionWithNode peerA hb = Inr (BVSTATUS_OK, hb')"
      "dialing hb' = dialing hb @ (if nb < na then [next_ref hb] else [])"
    using Initiate_dials [OF assms(2), of peerA] assms by auto
  show ?thesis using a b assms(5) by (cases na nb rule: linorder_cases) auto
qed

theorem glare_avoided_witness:
  "\<exists>ha' hb'. InitiateSessionWithNode (example_peer (str ''bob'')) (example_created (str ''alice'')) = Inr (BVSTATUS_OK, ha') \<and>
     InitiateSessionWithNode (example_peer (str ''alice'')) (example_created (str ''bob'')) = Inr (BVSTATUS_OK, hb') \<and>
     length (dialing ha') + length (dialing hb') = 1"
proof -
  have h: "n_serviceName (thisMachineHostData (example_created n)) = n" "dialing (example_created n) = []" "host_inv (example_created n)"
      "\<not> IsSessionAlreadyPresent p (example_created n)" "n_serviceName (example_peer n) = n" for n p
    using host_reach_table [OF example_created_reach, of n]
    by (simp_all add: table_inv_def) (simp_all add: example_created_def BVTCPConnectionManager_ctor_def example_service_def
        BVNode_results_def IsSessionAlreadyPresent_def example_peer_def)
  have "str ''alice'' \<noteq> str ''bob''" by (simp add: str_def)
  from glare_avoided [OF h(3) h(3) h(1) [symmetric] h(1) [symmetric] this h(4) h(4) h(5) h(5)] show ?thesis using h(2) by auto
qed

text \<open>After one failed \<open>async_accept\<close> the host never accepts another connection: the handler returns without calling \<open>Accept\<close> again.\<close>

theorem accept_error_is_final:
  assumes "accepting h = Some r"
  shows "\<exists>h'. accept_handler now True k h = Inr h' \<and> accepting h' = None \<and>
    (\<forall>now' e k'. accept_handler now' e k' h' = Inr h')"
  using assms by (simp add: accept_handler_def Let_def)

theorem accept_error_is_final_witness:
  "\<exists>h'. accept_handler 0 True example_sock (Accept (example_created (str ''alice''))) = Inr h' \<and> accepting h' = None"
  using accept_error_is_final [of "Accept (example_created (str ''alice''))" _ 0 example_sock]
  by (auto simp: Accept_def new_session_def)

text \<open>Once the 16-bit session ids have wrapped around, a peer that identifies itself on a session whose id is in use overwrites the table entry, and the other peer's name then leads to the new session: what is sent to the old peer goes to the new one.\<close>

theorem identification_takes_over:
  assumes inv: "host_inv h" and new: "\<not> IsSessionAlreadyPresent name h"
    and used: "map_of (sessions_m h) sid = Some r0" "sessionID (sess h r) = sid" "r \<noteq> r0"
    and ok: "HandleSessionIdentification now name r h = Inr h'"
  shows "map_of (sessions_m h') sid = Some r \<and> GetSessionIDFromServiceName (serviceName_of h r0) h' = Some sid \<and>
    GetSessionIDFromServiceName name h' = Some sid"
proof -
  have names: "map_of (service_sessionid_m h) (serviceName_of h r0) = Some sid"
    using inv used(1) by (auto simp: host_inv_def)
  have inv1: "host_inv (set_sess r ((sess h r)\<lparr>sstate := BVSESSIONSTATE_ESTABLISHED\<rparr>) h)"
    by (rule host_inv_set_sess [OF inv]) simp_all
  show ?thesis
    using ok new names used(2)
    by (auto simp: HandleSessionIdentification_def StartCommunication_ok [OF inv1, unfolded set_sess_def] Let_def with_sess_def
        rbind_eq_Inr set_sess_def set_node_id_def AddNodeToNodesM_def GetSessionIDFromServiceName_def
        split: if_splits option.splits)
qed

lemma example_identified:
  "\<exists>h'. HandleSessionIdentification 0 (str ''carol'') r example_host = Inr h'"
proof -
  have inv: "host_inv (set_sess r ((sess example_host r)\<lparr>sstate := BVSESSIONSTATE_ESTABLISHED\<rparr>) example_host)"
    by (rule host_inv_set_sess [OF example_host_inv]) simp_all
  have "\<not> IsSessionAlreadyPresent (str ''carol'') example_host"
    by (simp add: IsSessionAlreadyPresent_def example_host_def serviceName_of_def example_session_def str_def)
  then show ?thesis
    using StartCommunication_ok [OF inv]
    by (simp add: HandleSessionIdentification_def Let_def set_sess_def with_sess_def set_node_id_def AddNodeToNodesM_def
        example_host_def example_session_def example_sock_def WriteMessageFrame_tx RequestReadingFrames_def
        StartReadingFrames_queued [of _ "zeros 138"] split: option.split)
qed

theorem identification_takes_over_witness:
  "\<exists>h'. HandleSessionIdentification 0 (str ''carol'') 1 example_host = Inr h' \<and>
     map_of (sessions_m h') 0 = Some 1 \<and> GetSessionIDFromServiceName (str ''bob'') h' = Some 0"
proof -
  obtain h' where h': "HandleSessionIdentification 0 (str ''carol'') 1 example_host = Inr h'"
    using example_identified by blast
  have "\<not> IsSessionAlreadyPresent (str ''carol'') example_host" "map_of (sessions_m example_host) 0 = Some 0"
      "sessionID (sess example_host 1) = 0" "serviceName_of example_host 0 = str ''bob''"
    by (simp_all add: IsSessionAlreadyPresent_def example_host_def serviceName_of_def example_session_def str_def)
  with identification_takes_over [OF example_host_inv, of "str ''carol''" 0 0 1 0 h'] h' show ?thesis by auto
qed

text \<open>A peer that gives a second name on a session that is filed already is found under both; when the session is removed under the new name, the old one still leads to its id, which no session has any more.\<close>

theorem second_name_dangles:
  assumes inv: "host_inv h" and filed: "map_of (sessions_m h) sid = Some r" and new: "\<not> IsSessionAlreadyPresent name h"
    and ok: "HandleSessionIdentification now name r h = Inr h'"
  shows "GetSessionIDFromServiceName (serviceName_of h r) h' = Some sid \<and> GetSessionIDFromServiceName name h' = Some sid \<and>
    (\<exists>h''. RemoveSession name h' = (BVSTATUS_OK, h'') \<and> GetSessionIDFromServiceName (serviceName_of h r) h'' = Some sid \<and>
       map_of (sessions_m h'') sid = None)"
proof -
  have old: "sessionID (sess h r) = sid" "map_of (service_sessionid_m h) (serviceName_of h r) = Some sid"
    using inv filed by (auto simp: host_inv_def)
  have ne: "serviceName_of h r \<noteq> name"
    using new filed by (auto simp: IsSessionAlreadyPresent_def list_ex_iff dest: map_of_SomeD)
  have maps: "sessions_m h' = omap_put sid r (sessions_m h)" "service_sessionid_m h' = omap_put name sid (service_sessionid_m h)"
    using identification_shape [OF ok new] old(1) by auto
  then have names: "map_of (service_sessionid_m h') = (map_of (service_sessionid_m h))(name \<mapsto> sid)"
      "map_of (sessions_m h') = (map_of (sessions_m h))(sid \<mapsto> r)" by simp_all
  have "RemoveSession name h' = (BVSTATUS_OK, release r (h'\<lparr>sessions_m := omap_erase sid (sessions_m h'),
      service_sessionid_m := omap_erase name (service_sessionid_m h')\<rparr>))"
    using names by (simp add: RemoveSession_def)
  moreover have "sessions_m (release r h0) = sessions_m h0" "service_sessionid_m (release r h0) = service_sessionid_m h0" for h0
    by (simp_all add: release_def set_sess_def)
  ultimately show ?thesis using names old(2) ne by (simp add: GetSessionIDFromServiceName_def)
qed

theorem second_name_dangles_witness:
  "\<exists>h'. HandleSessionIdentification 0 (str ''carol'') 0 example_host = Inr h' \<and>
     GetSessionIDFromServiceName (str ''bob'') h' = Some 0 \<and> GetSessionIDFromServiceName (str ''carol'') h' = Some 0"
proof -
  obtain h' where h': "HandleSessionIdentification 0 (str ''carol'') 0 example_host = Inr h'"
    using example_identified by blast
  have "\<not> IsSessionAlreadyPresent (str ''carol'') example_host" "map_of (sessions_m example_host) 0 = Some 0"
      "serviceName_of example_host 0 = str ''bob''"
    by (simp_all add: IsSessionAlreadyPresent_def example_host_def serviceName_of_def example_session_def str_def)
  with second_name_dangles [OF example_host_inv, of 0 0 "str ''carol''" 0 h'] h' show ?thesis by auto
qed

text \<open>A rejected offer is forgotten: nothing is sent, no transfer is started, and a later acceptance of the same offer is ignored.\<close>

theorem rejected_offer_sends_nothing:
  assumes "map_of (pendingOutgoing_m h) key = Some p"
  shows "\<exists>h'. SignalFileTransfer fs key False h = Inr h' \<and> sess h' = sess h \<and>
    fileTransferContext_m h' = fileTransferContext_m h \<and> SignalFileTransfer fs' key True h' = Inr h'"
  using assms by (cases p) (simp add: SignalFileTransfer_def)

theorem rejected_offer_sends_nothing_witness:
  "\<exists>h'. SignalFileTransfer example_fs 3 False (example_host\<lparr>pendingOutgoing_m := [(3, (0, str ''/w/notes.txt''))]\<rparr>) = Inr h' \<and>
     sess h' = sess example_host"
  using rejected_offer_sends_nothing [of "example_host\<lparr>pendingOutgoing_m := [(3, (0, str ''/w/notes.txt''))]\<rparr>" 3
    "(0, str ''/w/notes.txt'')" example_fs example_fs]
  by auto

end
