(* ===== verification/Session_Handlers.thy ===== *)
theory Session_Handlers
  imports Session_Table
begin

text \<open>
  The receiving side of \<open>BVTCPSession\<close> (\<open>src/BVTCPSession.cpp\<close> and the read callbacks of
  \<open>include/BVTCPSession.hpp\<close>): handlers of the frames of a session \<open>r\<close> of a host. They call the
  connection manager, so they act on the host. \<open>io_read_step\<close> is the event loop completing the
  oldest read of a session and running its callback.
\<close>

section \<open>Environment\<close>

text \<open>What the handlers read from outside: the clock, the files, and the bytes an uninitialised array holds.\<close>

record env =
  e_now :: u64
  e_fs :: fsys
  e_garbage :: bytes

section \<open>Handshake\<close>

definition OnReceiveHelloFrame :: "env \<Rightarrow> nat \<Rightarrow> host \<Rightarrow> host result" where
  "OnReceiveHelloFrame env r h =
     (let s = sess h r in
      rbind (HelloMsg_msgType (readBuf s)) (\<lambda>t.
        if t \<noteq> CTRL_HELLO then Inr h
        else
          (let name = thisMachineServiceName s in
           if length name > 128 then Inl Out_Of_Bounds
           else
             (let payloadRaw = name @ drop (length name) (e_garbage env);
                  replyMsg = ConstructMessage (ConstructMessageHeader (e_now env) CTRL_HELLOBACK) payloadRaw;
                  replyMsg = replyMsg\<lparr>m_header := (m_header replyMsg)\<lparr>mh_dataLen := word_of_nat (length name)\<rparr>\<rparr>
              in rbind (WriteMessageFrame replyMsg s) (\<lambda>s.
                   rbind (StartReadingFrames (s\<lparr>writeBuf := []\<rparr>)) (\<lambda>s. Inr (set_sess r s h)))))))"

definition OnReceiveHelloBackFrame :: "env \<Rightarrow> nat \<Rightarrow> host \<Rightarrow> host result" where
  "OnReceiveHelloBackFrame env r h =
     rbind (GetMsgHeader (readBuf (sess h r))) (\<lambda>header.
       if mh_msgType header \<noteq> CTRL_HELLOBACK then Inr h
       else if unat (mh_dataLen header) > 128 then Inr h
       else
         (case GetPayloadPtr (sess h r) of
            None \<Rightarrow> Inr h
          | Some payload \<Rightarrow>
              (if length payload < unat (mh_dataLen header) then Inl Out_Of_Bounds
               else HandleSessionIdentification (e_now env) (take (unat (mh_dataLen header)) payload) r h)))"

definition OnReceiveConfirmEstablished :: "nat \<Rightarrow> host \<Rightarrow> host result" where
  "OnReceiveConfirmEstablished r h =
     with_sess r (\<lambda>s. StartReadingFrames (s\<lparr>sstate := BVSESSIONSTATE_ESTABLISHED\<rparr>)) h"

section \<open>Chat messages\<close>

text \<open>
  The payload is a 128-character array; a string made from it with \<open>dataLen\<close> above 128 reads
  past it.
\<close>

definition OnReceiveChatMessageFrame :: "nat \<Rightarrow> host \<Rightarrow> host result" where
  "OnReceiveChatMessageFrame r h =
     rbind (GetMsgHeader (readBuf (sess h r))) (\<lambda>header.
       if mh_msgType header \<noteq> REG_CHATMESSAGE then Inr h
       else
         (case GetPayloadPtr (sess h r) of
            None \<Rightarrow> Inr h
          | Some p \<Rightarrow>
              (if length p < 128 then Inl Out_Of_Bounds
               else if unat (mh_dataLen header) > 128 then Inl Out_Of_Bounds
               else
                 (let text = take (unat (mh_dataLen header)) p;
                      msg = \<lparr>event_t = BVEVENTTYPE_APP_MESSAGE_INCOMING,
                             data_p = Some (Any_Chat \<lparr>cm_textData = text, cm_sender = serviceName_of h r,
                                                      cm_timestamp = mh_timestamp header\<rparr>)\<rparr>
                  in with_sess r StartReadingFrames (PutMessageIntoAppMailbox msg h)))))"

section \<open>File frames\<close>

definition file_mail :: "BVEventType \<Rightarrow> u32 \<Rightarrow> u32 \<Rightarrow> u32 \<Rightarrow> bytes \<Rightarrow> BVMessage" where
  "file_mail e key csize fsize d =
     \<lparr>event_t = e, data_p = Some (Any_FileData
        \<lparr>fd_correlationKey = key, fd_csize = csize, fd_fsize = fsize, fd_fdata = d\<rparr>)\<rparr>"

definition OnReceiveFileOffer :: "nat \<Rightarrow> host \<Rightarrow> host result" where
  "OnReceiveFileOffer r h =
     rbind (GetFileHeader (readBuf (sess h r))) (\<lambda>header.
     rbind (GetFileData_str (readBuf (sess h r))) (\<lambda>payload.
       Inr (PutMessageIntoAppMailbox
              (file_mail BVEVENTTYPE_APP_FILE_OFFER (fh_correlationKey header) 0
                 (ucast (fh_metadata header AND 0xFFFFFFFF)) payload) h)))"

text \<open>
  The buffer is \<open>csize + 21\<close> bytes in 64-bit arithmetic, the argument of \<open>StartReadingChunks\<close> a
  32-bit one.
\<close>

definition OnReceiveFileTransferBegin :: "nat \<Rightarrow> host \<Rightarrow> host result" where
  "OnReceiveFileTransferBegin r h =
     rbind (GetFileHeader (readBuf (sess h r))) (\<lambda>header.
     rbind (GetFileData_str (readBuf (sess h r))) (\<lambda>payload.
       if fh_msgType header \<noteq> REG_FILE_TRANSFER_BEGIN then Inr h
       else
         (let cs = metadata_csize (fh_metadata header);
              fs = metadata_fsize (fh_metadata header);
              h = set_sess r ((sess h r)\<lparr>s_csize := cs, s_fsize := fs\<rparr>) h;
              h = PutMessageIntoAppMailbox
                    (file_mail BVEVENTTYPE_APP_FILE_TRANSFER_BEGIN (fh_correlationKey header) cs fs payload) h
          in with_sess r (\<lambda>s.
               rbind (ClearReadBuffer s) (\<lambda>s.
                 StartReadingChunks (cs + word_of_nat FILE_HEADER_SIZE_BYTES)
                   (s\<lparr>fileReadBuf := Some (zeros (unat cs + FILE_HEADER_SIZE_BYTES)), totalBytesRead := 0\<rparr>))) h)))"

definition OnReceiveFileChunkSent :: "nat \<Rightarrow> host \<Rightarrow> host result" where
  "OnReceiveFileChunkSent r h =
     (let s = sess h r in
      rbind (GetFileHeader (fileReadBuf s)) (\<lambda>header.
      rbind (GetFileData (fileReadBuf s) (unat (s_csize s))) (\<lambda>payload.
        if fh_msgType header \<noteq> REG_FILE_TRANSFER_CHUNK_SENT then Inr h
        else Inr (PutMessageIntoAppMailbox
               (file_mail BVEVENTTYPE_APP_FILE_TRANSFER_CHUNK_SENT (fh_correlationKey header)
                  (s_csize s) (s_fsize s) payload) h))))"

definition OnReceiveFileTransferEnd :: "nat \<Rightarrow> host \<Rightarrow> host result" where
  "OnReceiveFileTransferEnd r h =
     (let s = sess h r in
      rbind (GetFileHeader (fileReadBuf s)) (\<lambda>header.
      rbind (GetFileData (fileReadBuf s) (unat (s_csize s))) (\<lambda>payload.
        if fh_msgType header \<noteq> REG_FILE_TRANSFER_END then Inr h
        else Inr (PutMessageIntoAppMailbox
               (file_mail BVEVENTTYPE_APP_FILE_TRANSFER_END (fh_correlationKey header)
                  (s_csize s) (s_fsize s) payload) h))))"

section \<open>Frames of an established session\<close>

text \<open>Both switches are executed on every frame; the second reads the buffer again.\<close>

definition OnReceiveStandardFrame :: "env \<Rightarrow> nat \<Rightarrow> host \<Rightarrow> (bool \<times> host) result" where
  "OnReceiveStandardFrame env r h =
     rbind (GetMsgHeader (readBuf (sess h r))) (\<lambda>header.
     rbind (if mh_msgType header = REG_CHATMESSAGE then OnReceiveChatMessageFrame r h else Inr h) (\<lambda>h.
     rbind (GetFileHeader (readBuf (sess h r))) (\<lambda>fileHeader.
       if fh_msgType fileHeader = REG_FILE_TRANSFER_BEGIN then
         rbind (OnReceiveFileTransferBegin r h) (\<lambda>h. Inr (True, h))
       else if fh_msgType fileHeader = REG_FILE_OFFER then
         rbind (OnReceiveFileOffer r h) (\<lambda>h.
         rbind (with_sess r StartReadingFrames h) (\<lambda>h. Inr (True, h)))
       else if fh_msgType fileHeader = REG_FILE_ACCEPT then
         rbind (SignalFileTransfer (e_fs env) (fh_correlationKey fileHeader) True h) (\<lambda>h.
         rbind (with_sess r StartReadingFrames h) (\<lambda>h. Inr (True, h)))
       else if fh_msgType fileHeader = REG_FILE_REJECT then
         rbind (SignalFileTransfer (e_fs env) (fh_correlationKey fileHeader) False h) (\<lambda>h.
         rbind (with_sess r StartReadingFrames h) (\<lambda>h. Inr (True, h)))
       else Inr (False, h))))"

section \<open>Callbacks\<close>

definition finish_frame :: "nat \<Rightarrow> host \<Rightarrow> host result" where
  "finish_frame r h =
     (if sstate (sess h r) \<noteq> BVSESSIONSTATE_CLOSED then with_sess r ClearReadBuffer h else Inr h)"

definition ReadMessageFrameCallback :: "env \<Rightarrow> bool \<Rightarrow> nat \<Rightarrow> nat \<Rightarrow> host \<Rightarrow> host result" where
  "ReadMessageFrameCallback env ec n r h =
     (if ec then Inr h
      else
        (let s = sess h r; total = totalBytesRead s + n in
         if total = MESSAGE_FRAME_SIZE_BYTES then
           (let h = set_sess r (s\<lparr>totalBytesRead := 0\<rparr>) h in
            rbind (GetMsgHeader (readBuf s)) (\<lambda>header.
              if sstate s = BVSESSIONSTATE_UNPREPARED then
                rbind (if mh_msgType header = CTRL_HELLO then OnReceiveHelloFrame env r h else Inr h) (\<lambda>h.
                rbind (if mh_msgType header = CTRL_HELLOBACK then OnReceiveHelloBackFrame env r h else Inr h) (\<lambda>h.
                rbind (if mh_msgType header = CTRL_CONFIRM_ESTABLISHED then OnReceiveConfirmEstablished r h else Inr h)
                  (finish_frame r)))
              else
                rbind (OnReceiveStandardFrame env r h) (\<lambda>(early, h).
                  if early then Inr h else finish_frame r h)))
         else
           with_sess r (\<lambda>s.
             if readBuf s = None then Inl Null_Deref
             else if total > MESSAGE_FRAME_SIZE_BYTES then Inl Out_Of_Bounds
             else async_read To_readBuf total (MESSAGE_FRAME_SIZE_BYTES - total) s)
             (set_sess r (s\<lparr>totalBytesRead := total\<rparr>) h)))"

definition ReadFileChunkCallback :: "bool \<Rightarrow> nat \<Rightarrow> nat \<Rightarrow> host \<Rightarrow> host result" where
  "ReadFileChunkCallback ec n r h =
     (if ec then Inr h
      else
        (let s = sess h r;
             h = set_sess r (s\<lparr>totalBytesRead := totalBytesRead s + n\<rparr>) h
         in rbind (GetFileHeader (fileReadBuf s)) (\<lambda>header.
              if fh_msgType header = REG_FILE_TRANSFER_END then
                rbind (OnReceiveFileTransferEnd r h) (\<lambda>h.
                with_sess r (\<lambda>s.
                  rbind (ClearReadBuffer (ClearFileBuffer s)) (\<lambda>s.
                    StartReadingFrames (s\<lparr>readBuf := Some (zeros MESSAGE_FRAME_SIZE_BYTES), totalBytesRead := 0\<rparr>))) h)
              else
                rbind (if fh_msgType header = REG_FILE_TRANSFER_CHUNK_SENT then OnReceiveFileChunkSent r h else Inr h) (\<lambda>h.
                with_sess r (\<lambda>s.
                  (case fileReadBuf s of
                     None \<Rightarrow> Inl Null_Deref
                   | Some b \<Rightarrow>
                       (if length b < unat (s_csize s) + FILE_HEADER_SIZE_BYTES then Inl Out_Of_Bounds
                        else StartReadingChunks (s_csize s + word_of_nat FILE_HEADER_SIZE_BYTES)
                          (s\<lparr>totalBytesRead := 0,
                             fileReadBuf := Some (zeros (unat (s_csize s) + FILE_HEADER_SIZE_BYTES) @
                               drop (unat (s_csize s) + FILE_HEADER_SIZE_BYTES) b)\<rparr>)))) h))))"

section \<open>The event loop\<close>

text \<open>Complete the oldest read of a session, if its bytes are there, and run the callback it was made with.\<close>

definition io_read_step :: "env \<Rightarrow> nat \<Rightarrow> host \<Rightarrow> host result" where
  "io_read_step env r h =
     rbind (fill_read (sess h r)) (\<lambda>s.
       (case reads (sk s) of
          [] \<Rightarrow> Inr (set_sess r s h)
        | q # qs \<Rightarrow>
            (if \<not> rr_filled q then Inr (set_sess r s h)
             else
               (let h = set_sess r (s\<lparr>sk := (sk s)\<lparr>reads := qs\<rparr>\<rparr>) h in
                case rr_target q of
                  To_readBuf \<Rightarrow> ReadMessageFrameCallback env False (rr_len q) r h
                | To_fileReadBuf \<Rightarrow> ReadFileChunkCallback False (rr_len q) r h))))"

fun io_reads :: "nat \<Rightarrow> env \<Rightarrow> nat \<Rightarrow> host \<Rightarrow> host result" where
  "io_reads 0 env r h = Inr h"
| "io_reads (Suc n) env r h = rbind (io_read_step env r h) (io_reads n env r)"

text \<open>Complete the oldest write and run its callback.\<close>

definition io_write_step :: "nat \<Rightarrow> host \<Rightarrow> host" where
  "io_write_step r h =
     (case writes (sk (sess h r)) of
        [] \<Rightarrow> h
      | (ec, n) # ws \<Rightarrow>
          set_sess r (WriteMessageFrameCallback ec n ((sess h r)\<lparr>sk := (sk (sess h r))\<lparr>writes := ws\<rparr>\<rparr>)) h)"

text \<open>Bytes arriving on the connection of a session.\<close>

definition arrive :: "bytes \<Rightarrow> nat \<Rightarrow> host \<Rightarrow> host" where
  "arrive d r h = set_sess r ((sess h r)\<lparr>sk := (sk (sess h r))\<lparr>rx := rx (sk (sess h r)) @ d\<rparr>\<rparr>) h"

section \<open>Sessions waiting for a frame\<close>

definition frame_req :: read_req where
  "frame_req = \<lparr>rr_target = To_readBuf, rr_off = 0, rr_len = 138, rr_filled = False\<rparr>"

definition listening :: "session \<Rightarrow> bool" where
  "listening s \<longleftrightarrow>
     (\<exists>b. readBuf s = Some b \<and> length b = 138) \<and> fileReadBuf s \<noteq> None \<and> totalBytesRead s = 0 \<and>
     reads (sk s) = [frame_req]"

text \<open>The mail a chat frame from the given peer stands for.\<close>

definition chat_mail :: "bytes \<Rightarrow> BVTCPMessage \<Rightarrow> BVMessage" where
  "chat_mail peer m =
     \<lparr>event_t = BVEVENTTYPE_APP_MESSAGE_INCOMING,
      data_p = Some (Any_Chat \<lparr>cm_textData = take (unat (mh_dataLen (m_header m))) (m_payload m),
        cm_sender = peer, cm_timestamp = mh_timestamp (m_header m)\<rparr>)\<rparr>"

text \<open>A chat frame whose third character is not one of the type codes of file frames.\<close>

definition plain_chat :: "BVTCPMessage \<Rightarrow> bool" where
  "plain_chat m \<longleftrightarrow>
     mh_msgType (m_header m) = REG_CHATMESSAGE \<and> length (m_payload m) = 128 \<and>
     unat (mh_dataLen (m_header m)) \<le> 128 \<and>
     m_payload m ! 2 \<notin> {REG_FILE_TRANSFER_BEGIN, REG_FILE_OFFER, REG_FILE_ACCEPT, REG_FILE_REJECT}"

lemma set_sess_simps [simp]:
  "sess (set_sess r s h) r = s"
  "set_sess r t (set_sess r s h) = set_sess r t h"
  "appMail (set_sess r s h) = appMail h"
  "sessions_m (set_sess r s h) = sessions_m h"
  "pendingOutgoing_m (set_sess r s h) = pendingOutgoing_m h"
  "r' \<noteq> r \<Longrightarrow> sess (set_sess r s h) r' = sess h r'"
  "set_sess r (sess h r) h = h"
  by (simp_all add: set_sess_def)

lemma io_read_frame:
  assumes l: "listening (sess h r)" and rx: "rx (sk (sess h r)) = f @ rest" and f: "length f = 138"
  shows "io_read_step env r h = ReadMessageFrameCallback env False 138 r
     (set_sess r ((sess h r)\<lparr>readBuf := Some f, sk := (sk (sess h r))\<lparr>rx := rest, reads := []\<rparr>\<rparr>) h)"
proof -
  let ?s = "sess h r"
  obtain b where b: "readBuf ?s = Some b" "length b = 138" "reads (sk ?s) = [frame_req]"
    using l by (auto simp: listening_def)
  have "memcpy_at b 0 f = f" using b f by (simp add: memcpy_at_def)
  then have "fill_read ?s = Inr (?s\<lparr>sk := (sk ?s)\<lparr>rx := rest, reads := [frame_req\<lparr>rr_filled := True\<rparr>]\<rparr>,
      readBuf := Some f\<rparr>)"
    using b f rx by (simp add: fill_read_def frame_req_def)
  then show ?thesis
    by (simp add: io_read_step_def frame_req_def)
qed

text \<open>The session while the callback of a whole frame runs.\<close>

definition got_frame :: "bytes \<Rightarrow> bytes \<Rightarrow> session \<Rightarrow> session" where
  "got_frame f rest s = s\<lparr>readBuf := Some f, sk := (sk s)\<lparr>rx := rest, reads := []\<rparr>\<rparr>"

lemma got_frame_simps [simp]:
  "readBuf (got_frame f rest s) = Some f" "reads (sk (got_frame f rest s)) = []"
  "rx (sk (got_frame f rest s)) = rest" "sstate (got_frame f rest s) = sstate s"
  "totalBytesRead (got_frame f rest s) = totalBytesRead s" "nodeData (got_frame f rest s) = nodeData s"
  "speculative (sk (got_frame f rest s)) = speculative (sk s)" "fileReadBuf (got_frame f rest s) = fileReadBuf s"
  "broken (sk (got_frame f rest s)) = broken (sk s)" "writeBuf (got_frame f rest s) = writeBuf s"
  "tx (sk (got_frame f rest s)) = tx (sk s)" "writes (sk (got_frame f rest s)) = writes (sk s)"
  "thisMachineServiceName (got_frame f rest s) = thisMachineServiceName s"
  "sessionID (got_frame f rest s) = sessionID s"
  by (simp_all add: got_frame_def)

lemma io_frame:
  assumes l: "listening (sess h r)" and rx: "rx (sk (sess h r)) = f @ rest" and f: "length f = 138"
    and hdr: "GetMsgHeader (Some f) = Inr header"
  shows "io_read_step env r h =
     (let h = set_sess r (got_frame f rest (sess h r)) h in
      if sstate (sess h r) = BVSESSIONSTATE_UNPREPARED then
        rbind (if mh_msgType header = CTRL_HELLO then OnReceiveHelloFrame env r h else Inr h) (\<lambda>h.
        rbind (if mh_msgType header = CTRL_HELLOBACK then OnReceiveHelloBackFrame env r h else Inr h) (\<lambda>h.
        rbind (if mh_msgType header = CTRL_CONFIRM_ESTABLISHED then OnReceiveConfirmEstablished r h else Inr h)
          (finish_frame r)))
      else
        rbind (OnReceiveStandardFrame env r h) (\<lambda>(early, h). if early then Inr h else finish_frame r h))"
proof -
  define s0 where "s0 = got_frame f rest (sess h r)"
  have t0: "totalBytesRead s0 = 0" "readBuf s0 = Some f"
    using l by (auto simp: listening_def s0_def)
  then have same: "s0\<lparr>totalBytesRead := 0\<rparr> = s0" by simp
  show ?thesis
    unfolding io_read_frame [OF l rx f] got_frame_def [symmetric] s0_def [symmetric]
    using t0 hdr by (simp add: ReadMessageFrameCallback_def MESSAGE_FRAME_SIZE_BYTES_def Let_def same)
qed

lemma io_read_waits:
  assumes "listening (sess h r)" and "length (rx (sk (sess h r))) < 138"
  shows "io_read_step env r h = Inr h"
  using assms by (auto simp: io_read_step_def fill_read_def listening_def frame_req_def)

text \<open>A session with no outstanding read ignores everything that arrives, for ever.\<close>

lemma deaf_forever:
  assumes "reads (sk (sess h r)) = []"
  shows "io_reads n env r (arrive d r h) = Inr (arrive d r h)"
proof -
  have "io_read_step env r (arrive d r h) = Inr (arrive d r h)"
    using assms by (simp add: io_read_step_def fill_read_def arrive_def)
  then show ?thesis by (induction n) simp_all
qed

section \<open>Chat frames\<close>

lemma file_type_of_msg: "length (m_payload m) = 128 \<Longrightarrow>
    \<exists>fh. GetFileHeader (Some (msg_bytes m @ rest)) = Inr fh \<and> fh_msgType fh = m_payload m ! 2"
  by (simp add: GetFileHeader_def FILE_HEADER_SIZE_BYTES_def msg_bytes_def nth_append)

lemma drop_header_msg_bytes: "drop HEADER_SIZE_BYTES (msg_bytes m) = m_payload m"
  by (simp add: msg_bytes_def HEADER_SIZE_BYTES_def)

text \<open>The callback on a chat frame, up to the point where the next read has been started.\<close>

lemma chat_frame_mail:
  assumes m: "plain_chat m" and b: "readBuf (sess h r) = Some (msg_bytes m)"
    and arm: "StartReadingFrames (sess h r) = Inr s'"
  shows "OnReceiveChatMessageFrame r h =
     Inr (set_sess r s' (PutMessageIntoAppMailbox (chat_mail (serviceName_of h r) m) h))"
proof -
  have "GetMsgHeader (readBuf (sess h r)) = Inr (m_header m)"
    using GetMsgHeader_msg_bytes [of m "[]"] b by simp
  with m arm b show ?thesis
    by (simp add: OnReceiveChatMessageFrame_def GetPayloadPtr_def drop_header_msg_bytes plain_chat_def
        chat_mail_def with_sess_def PutMessageIntoAppMailbox_def)
qed

lemma rearm:
  assumes "listening s" and "\<not> speculative (sk s) \<or> length rest < 138"
  shows "StartReadingFrames (got_frame f rest s) = Inr ((got_frame f rest s)\<lparr>sk := (sk (got_frame f rest s))\<lparr>reads := [frame_req]\<rparr>\<rparr>)"
  using StartReadingFrames_queued [of "got_frame f rest s" f] assms by (simp add: frame_req_def listening_def)

lemma standard_chat:
  assumes m: "plain_chat m" and b: "readBuf (sess h r) = Some (msg_bytes m)"
    and arm: "StartReadingFrames (sess h r) = Inr s'" "readBuf s' = Some f'" "length f' = 138"
      "f' ! 12 \<notin> {REG_FILE_TRANSFER_BEGIN, REG_FILE_OFFER, REG_FILE_ACCEPT, REG_FILE_REJECT}"
  shows "OnReceiveStandardFrame env r h =
     Inr (False, set_sess r s' (PutMessageIntoAppMailbox (chat_mail (serviceName_of h r) m) h))"
proof -
  have hdr: "GetMsgHeader (readBuf (sess h r)) = Inr (m_header m)"
    using GetMsgHeader_msg_bytes [of m "[]"] b by simp
  obtain fh where "GetFileHeader (Some f') = Inr fh" "fh_msgType fh = f' ! 12"
    using arm(3) by (simp add: GetFileHeader_def FILE_HEADER_SIZE_BYTES_def)
  then show ?thesis
    using m hdr arm chat_frame_mail [OF m b arm(1)] by (simp add: OnReceiveStandardFrame_def plain_chat_def)
qed

lemma msg_bytes_12: "m_payload m = p \<Longrightarrow> msg_bytes m ! 12 = p ! 2"
  by (simp add: msg_bytes_def nth_append)

lemma chat_step:
  assumes l: "listening (sess h r)" and est: "sstate (sess h r) = BVSESSIONSTATE_ESTABLISHED"
    and ns: "\<not> speculative (sk (sess h r)) \<or> length rest < 138"
    and m: "plain_chat m" and rx: "rx (sk (sess h r)) = msg_bytes m @ rest"
  shows "io_read_step env r h = Inr (PutMessageIntoAppMailbox (chat_mail (serviceName_of h r) m)
     (set_sess r ((sess h r)\<lparr>readBuf := Some (zeros 138), sk := (sk (sess h r))\<lparr>rx := rest\<rparr>\<rparr>) h))"
proof -
  let ?s = "got_frame (msg_bytes m) rest (sess h r)"
  let ?armed = "?s\<lparr>sk := (sk ?s)\<lparr>reads := [frame_req]\<rparr>\<rparr>"
  have len: "length (msg_bytes m) = 138" using m by (simp add: plain_chat_def)
  have hdr: "GetMsgHeader (Some (msg_bytes m)) = Inr (m_header m)"
    using GetMsgHeader_msg_bytes [of m "[]"] by simp
  have "OnReceiveStandardFrame env r (set_sess r ?s h) =
      Inr (False, set_sess r ?armed (PutMessageIntoAppMailbox (chat_mail (serviceName_of h r) m) (set_sess r ?s h)))"
    using standard_chat [OF m, of "set_sess r ?s h" r ?armed "msg_bytes m" env] rearm [OF l ns] len m
    by (simp add: serviceName_of_def msg_bytes_12 plain_chat_def)
  then have "io_read_step env r h =
      finish_frame r (set_sess r ?armed (PutMessageIntoAppMailbox (chat_mail (serviceName_of h r) m) (set_sess r ?s h)))"
    using io_frame [OF l rx len hdr, of env] est by simp
  moreover have "ClearReadBuffer ?armed = Inr (?armed\<lparr>readBuf := Some (zeros 138), totalBytesRead := 0\<rparr>)"
    by (rule ClearReadBuffer_ok [of _ "msg_bytes m"]) (use m in \<open>simp_all add: plain_chat_def\<close>)
  moreover have "?armed\<lparr>readBuf := Some (zeros 138), totalBytesRead := 0\<rparr> =
      (sess h r)\<lparr>readBuf := Some (zeros 138), sk := (sk (sess h r))\<lparr>rx := rest\<rparr>\<rparr>"
    using l by (simp add: got_frame_def listening_def)
  ultimately show ?thesis
    using est by (simp add: finish_frame_def with_sess_def PutMessageIntoAppMailbox_def set_sess_def)
qed

text \<open>A sequence of chat frames is delivered whole and in order.\<close>

lemma chat_stream_steps:
  assumes "listening (sess h r)" and "sstate (sess h r) = BVSESSIONSTATE_ESTABLISHED"
    and "\<not> speculative (sk (sess h r))" and "\<forall>m \<in> set ms. plain_chat m"
    and "rx (sk (sess h r)) = concat (map msg_bytes ms) @ rest"
  shows "\<exists>h'. io_reads (length ms) env r h = Inr h' \<and>
     appMail h' = appMail h @ map (chat_mail (serviceName_of h r)) ms \<and>
     listening (sess h' r) \<and> rx (sk (sess h' r)) = rest \<and> same_peer (sess h r) (sess h' r)"
  using assms
proof (induction ms arbitrary: h)
  case Nil
  then show ?case by simp
next
  case (Cons m ms)
  let ?h = "PutMessageIntoAppMailbox (chat_mail (serviceName_of h r) m)
     (set_sess r ((sess h r)\<lparr>readBuf := Some (zeros 138),
        sk := (sk (sess h r))\<lparr>rx := concat (map msg_bytes ms) @ rest\<rparr>\<rparr>) h)"
  have step: "io_read_step env r h = Inr ?h"
    by (rule chat_step) (use Cons.prems in auto)
  have sess: "sess ?h r = (sess h r)\<lparr>readBuf := Some (zeros 138),
      sk := (sk (sess h r))\<lparr>rx := concat (map msg_bytes ms) @ rest\<rparr>\<rparr>"
    by (simp add: PutMessageIntoAppMailbox_def)
  have "\<exists>h'. io_reads (length ms) env r ?h = Inr h' \<and>
     appMail h' = appMail ?h @ map (chat_mail (serviceName_of ?h r)) ms \<and>
     listening (sess h' r) \<and> rx (sk (sess h' r)) = rest \<and> same_peer (sess ?h r) (sess h' r)"
    by (rule Cons.IH) (use Cons.prems in \<open>simp_all add: sess listening_def\<close>)
  moreover have "serviceName_of ?h r = serviceName_of h r" "appMail ?h = appMail h @ [chat_mail (serviceName_of h r) m]"
    by (simp_all add: serviceName_of_def PutMessageIntoAppMailbox_def)
  ultimately show ?case
    by (auto simp: step sess same_peer_def)
qed

section \<open>A read performed inside the call that starts it\<close>

text \<open>The session after its one frame request has been served but not completed.\<close>

definition frame_done :: read_req where
  "frame_done = frame_req\<lparr>rr_filled := True\<rparr>"

lemma StartReadingFrames_speculative:
  assumes "speculative (sk s)" "reads (sk s) = []" "readBuf s = Some b" "length b = 138"
    "totalBytesRead s = 0" "rx (sk s) = f @ rest" "length f = 138"
  shows "StartReadingFrames s = Inr (s\<lparr>readBuf := Some f, sk := (sk s)\<lparr>rx := rest, reads := [frame_done]\<rparr>\<rparr>)"
proof -
  have "memcpy_at b 0 f = f" using assms by (simp add: memcpy_at_def)
  then show ?thesis
    using assms by (simp add: StartReadingFrames_def async_read_def fill_read_def frame_done_def frame_req_def
        MESSAGE_FRAME_SIZE_BYTES_def)
qed

lemma chat_step_speculative:
  assumes l: "listening (sess h r)" and est: "sstate (sess h r) = BVSESSIONSTATE_ESTABLISHED"
    and spec: "speculative (sk (sess h r))"
    and m: "plain_chat m" "plain_chat m2" and rx: "rx (sk (sess h r)) = msg_bytes m @ msg_bytes m2 @ rest"
  shows "io_read_step env r h = Inr (PutMessageIntoAppMailbox (chat_mail (serviceName_of h r) m)
     (set_sess r ((sess h r)\<lparr>readBuf := Some (zeros 138),
        sk := (sk (sess h r))\<lparr>rx := rest, reads := [frame_done]\<rparr>\<rparr>) h))"
proof -
  let ?s = "got_frame (msg_bytes m) (msg_bytes m2 @ rest) (sess h r)"
  let ?armed = "?s\<lparr>readBuf := Some (msg_bytes m2), sk := (sk ?s)\<lparr>rx := rest, reads := [frame_done]\<rparr>\<rparr>"
  have len: "length (msg_bytes m) = 138" "length (msg_bytes m2) = 138" using m by (simp_all add: plain_chat_def)
  have t0: "totalBytesRead (sess h r) = 0" using l by (simp add: listening_def)
  have hdr: "GetMsgHeader (Some (msg_bytes m)) = Inr (m_header m)"
    using GetMsgHeader_msg_bytes [of m "[]"] by simp
  have "StartReadingFrames ?s = Inr ?armed"
    by (rule StartReadingFrames_speculative [of _ "msg_bytes m"]) (use spec len t0 in simp_all)
  then have "OnReceiveStandardFrame env r (set_sess r ?s h) =
      Inr (False, set_sess r ?armed (PutMessageIntoAppMailbox (chat_mail (serviceName_of h r) m) (set_sess r ?s h)))"
    using standard_chat [OF m(1), of "set_sess r ?s h" r ?armed "msg_bytes m2" env] len m
    by (simp add: serviceName_of_def msg_bytes_12 plain_chat_def)
  then have "io_read_step env r h =
      finish_frame r (set_sess r ?armed (PutMessageIntoAppMailbox (chat_mail (serviceName_of h r) m) (set_sess r ?s h)))"
    using io_frame [OF l rx len(1) hdr, of env] est by simp
  moreover have "ClearReadBuffer ?armed = Inr (?armed\<lparr>readBuf := Some (zeros 138), totalBytesRead := 0\<rparr>)"
    by (rule ClearReadBuffer_ok [of _ "msg_bytes m2"]) (use m in \<open>simp_all add: plain_chat_def\<close>)
  moreover have "?armed\<lparr>readBuf := Some (zeros 138), totalBytesRead := 0\<rparr> =
      (sess h r)\<lparr>readBuf := Some (zeros 138), sk := (sk (sess h r))\<lparr>rx := rest, reads := [frame_done]\<rparr>\<rparr>"
    using t0 by (simp add: got_frame_def)
  ultimately show ?thesis
    using est by (simp add: finish_frame_def with_sess_def PutMessageIntoAppMailbox_def set_sess_def)
qed

text \<open>Its callback then finds a buffer of zeros and starts no further read.\<close>

lemma zero_frame_step:
  assumes est: "sstate (sess h r) = BVSESSIONSTATE_ESTABLISHED" and b: "readBuf (sess h r) = Some (zeros 138)"
    and q: "reads (sk (sess h r)) = [frame_done]" and t0: "totalBytesRead (sess h r) = 0"
  shows "io_read_step env r h = Inr (set_sess r ((sess h r)\<lparr>sk := (sk (sess h r))\<lparr>reads := []\<rparr>\<rparr>) h)"
proof -
  define s0 where "s0 = (sess h r)\<lparr>sk := (sk (sess h r))\<lparr>reads := []\<rparr>\<rparr>"
  have s0: "s0\<lparr>totalBytesRead := 0\<rparr> = s0" "readBuf s0 = Some (zeros 138)" "sstate s0 = BVSESSIONSTATE_ESTABLISHED"
      "totalBytesRead s0 = 0"
    using t0 b est by (simp_all add: s0_def)
  have fill: "io_read_step env r h = ReadMessageFrameCallback env False 138 r (set_sess r s0 h)"
    using q by (simp add: io_read_step_def fill_read_def frame_done_def frame_req_def s0_def)
  have "OnReceiveStandardFrame env r (set_sess r s0 h) = Inr (False, set_sess r s0 h)"
    using s0 by (simp add: OnReceiveStandardFrame_def GetMsgHeader_def GetFileHeader_def HEADER_SIZE_BYTES_def
        FILE_HEADER_SIZE_BYTES_def msgtype_defs)
  moreover have "GetMsgHeader (Some (zeros 138)) = Inr \<lparr>mh_dataLen = 0, mh_timestamp = le_dec (take 8 (drop 1 (zeros 138))), mh_msgType = 0\<rparr>"
    by (simp add: GetMsgHeader_def HEADER_SIZE_BYTES_def)
  moreover have "ClearReadBuffer s0 = Inr s0"
  proof -
    have "s0\<lparr>readBuf := Some (zeros 138), totalBytesRead := 0\<rparr> = s0" using s0 by simp
    then show ?thesis using ClearReadBuffer_ok [of s0 "zeros 138"] s0 by simp
  qed
  ultimately show ?thesis
    unfolding fill s0_def [symmetric]
    using s0(2-4) by (simp add: ReadMessageFrameCallback_def MESSAGE_FRAME_SIZE_BYTES_def Let_def finish_frame_def
        with_sess_def s0(1))
qed

text \<open>C38: when two chat frames are already waiting and the read that the first one's handler starts is performed at once, the second frame is lost: \<open>ClearReadBuffer\<close> wipes it after it was read, its callback sees a buffer of zeros, and the session starts no further read.\<close>

theorem back_to_back_lost:
  assumes l: "listening (sess h r)" and est: "sstate (sess h r) = BVSESSIONSTATE_ESTABLISHED"
    and spec: "speculative (sk (sess h r))"
    and m: "plain_chat m" "plain_chat m2" and rx: "rx (sk (sess h r)) = msg_bytes m @ msg_bytes m2 @ rest"
  shows "\<exists>h'. io_reads 2 env r h = Inr h' \<and> appMail h' = appMail h @ [chat_mail (serviceName_of h r) m] \<and>
     reads (sk (sess h' r)) = [] \<and> rx (sk (sess h' r)) = rest"
proof -
  let ?h1 = "PutMessageIntoAppMailbox (chat_mail (serviceName_of h r) m)
     (set_sess r ((sess h r)\<lparr>readBuf := Some (zeros 138),
        sk := (sk (sess h r))\<lparr>rx := rest, reads := [frame_done]\<rparr>\<rparr>) h)"
  have one: "io_read_step env r h = Inr ?h1" by (rule chat_step_speculative [OF assms])
  have two: "io_read_step env r ?h1 = Inr (set_sess r ((sess ?h1 r)\<lparr>sk := (sk (sess ?h1 r))\<lparr>reads := []\<rparr>\<rparr>) ?h1)"
    by (rule zero_frame_step) (use l est in \<open>simp_all add: PutMessageIntoAppMailbox_def listening_def\<close>)
  show ?thesis
    by (simp add: numeral_2_eq_2 one two) (simp add: PutMessageIntoAppMailbox_def)
qed

section \<open>Frames nobody recognises, and chat that looks like a file frame\<close>

lemma unknown_frame_deafens:
  assumes l: "listening (sess h r)" and est: "sstate (sess h r) = BVSESSIONSTATE_ESTABLISHED"
    and f: "length f = 138" and rx: "rx (sk (sess h r)) = f @ rest"
    and t: "f ! 9 \<noteq> REG_CHATMESSAGE"
      "f ! 12 \<notin> {REG_FILE_TRANSFER_BEGIN, REG_FILE_OFFER, REG_FILE_ACCEPT, REG_FILE_REJECT}"
  shows "\<exists>h'. io_read_step env r h = Inr h' \<and> reads (sk (sess h' r)) = [] \<and> appMail h' = appMail h"
proof -
  let ?s = "got_frame f rest (sess h r)"
  obtain header where hdr: "GetMsgHeader (Some f) = Inr header" "mh_msgType header = f ! 9"
    using f by (simp add: GetMsgHeader_def HEADER_SIZE_BYTES_def)
  have "OnReceiveStandardFrame env r (set_sess r ?s h) = Inr (False, set_sess r ?s h)"
    using f hdr t by (simp add: OnReceiveStandardFrame_def GetFileHeader_def FILE_HEADER_SIZE_BYTES_def)
  moreover have "ClearReadBuffer ?s = Inr (?s\<lparr>readBuf := Some (zeros 138), totalBytesRead := 0\<rparr>)"
    by (rule ClearReadBuffer_ok [of _ f]) (use f in simp_all)
  ultimately show ?thesis
    using io_frame [OF l rx f hdr(1), of env] est by (simp add: finish_frame_def with_sess_def)
qed

text \<open>A chat text with a tab as its third character is delivered and then taken for an offer of a file: the application gets a second mail made of bytes of the text, and two reads of the same buffer are outstanding.\<close>

theorem chat_taken_for_offer:
  assumes l: "listening (sess h r)" and est: "sstate (sess h r) = BVSESSIONSTATE_ESTABLISHED"
    and ns: "\<not> speculative (sk (sess h r))"
    and m: "mh_msgType (m_header m) = REG_CHATMESSAGE" "length (m_payload m) = 128"
      "unat (mh_dataLen (m_header m)) \<le> 128" "m_payload m ! 2 = REG_FILE_OFFER"
    and nul: "0 \<in> set (drop 11 (m_payload m))" and rx: "rx (sk (sess h r)) = msg_bytes m @ rest"
  shows "\<exists>h' key size. io_read_step env r h = Inr h' \<and>
     appMail h' = appMail h @ [chat_mail (serviceName_of h r) m,
       file_mail BVEVENTTYPE_APP_FILE_OFFER key 0 size (takeWhile (\<lambda>c. c \<noteq> 0) (drop 11 (m_payload m)))] \<and>
     reads (sk (sess h' r)) = [frame_req, frame_req]"
proof -
  let ?s = "got_frame (msg_bytes m) rest (sess h r)"
  define h1 where "h1 = set_sess r ?s h"
  let ?armed = "?s\<lparr>sk := (sk ?s)\<lparr>reads := [frame_req]\<rparr>\<rparr>"
  have len: "length (msg_bytes m) = 138" using m by simp
  have t0: "totalBytesRead (sess h r) = 0" using l by (simp add: listening_def)
  have hdr: "GetMsgHeader (Some (msg_bytes m)) = Inr (m_header m)"
    using GetMsgHeader_msg_bytes [of m "[]"] by simp
  define h2 where "h2 = set_sess r ?armed (PutMessageIntoAppMailbox (chat_mail (serviceName_of h r) m) h1)"
  have h2: "sess h2 r = ?armed" "appMail h2 = appMail h @ [chat_mail (serviceName_of h r) m]"
    by (simp_all add: h2_def h1_def PutMessageIntoAppMailbox_def)
  have chat: "OnReceiveChatMessageFrame r h1 = Inr h2"
    using m hdr rearm [OF l disjI1 [OF ns], of "msg_bytes m" rest]
    by (simp add: OnReceiveChatMessageFrame_def GetPayloadPtr_def drop_header_msg_bytes chat_mail_def with_sess_def
        PutMessageIntoAppMailbox_def h1_def h2_def serviceName_of_def set_sess_def)
  obtain fh where fh: "GetFileHeader (Some (msg_bytes m)) = Inr fh" "fh_msgType fh = REG_FILE_OFFER"
    using file_type_of_msg [of m "[]"] m by auto
  have "drop FILE_HEADER_SIZE_BYTES (msg_bytes m) = drop 11 (m_payload m)"
    by (simp add: msg_bytes_def FILE_HEADER_SIZE_BYTES_def)
  then have d: "GetFileData_str (Some (msg_bytes m)) = Inr (takeWhile (\<lambda>c. c \<noteq> 0) (drop 11 (m_payload m)))"
    using nul by (simp add: GetFileData_str_def)
  let ?mail = "file_mail BVEVENTTYPE_APP_FILE_OFFER (fh_correlationKey fh) 0 (ucast (fh_metadata fh AND 0xFFFFFFFF))
      (takeWhile (\<lambda>c. c \<noteq> 0) (drop 11 (m_payload m)))"
  have off: "OnReceiveFileOffer r h2 = Inr (PutMessageIntoAppMailbox ?mail h2)"
    using fh d h2(1) by (simp add: OnReceiveFileOffer_def)
  have arm2: "StartReadingFrames ?armed = Inr (?armed\<lparr>sk := (sk ?armed)\<lparr>reads := [frame_req, frame_req]\<rparr>\<rparr>)"
    using StartReadingFrames_queued [of ?armed "msg_bytes m"] t0 by (simp add: frame_req_def)
  let ?h3 = "set_sess r (?armed\<lparr>sk := (sk ?armed)\<lparr>reads := [frame_req, frame_req]\<rparr>\<rparr>) (PutMessageIntoAppMailbox ?mail h2)"
  have "OnReceiveStandardFrame env r h1 = Inr (True, ?h3)"
    using m(1) hdr chat fh off arm2 h2(1)
    by (simp add: OnReceiveStandardFrame_def h1_def with_sess_def PutMessageIntoAppMailbox_def msgtype_defs)
  then have "io_read_step env r h = Inr ?h3"
    using io_frame [OF l rx len hdr, of env] est by (simp add: h1_def)
  then show ?thesis
    using h2(2) by (auto simp: PutMessageIntoAppMailbox_def)
qed

section \<open>Reads that may or may not have been performed early\<close>

text \<open>
  A session waiting for a frame, with \<open>strm\<close> the bytes not handled yet: the first 138 of
  them may already be in the buffer.
\<close>

definition frame_stream :: "bytes \<Rightarrow> session \<Rightarrow> bool" where
  "frame_stream strm s \<longleftrightarrow>
     fileReadBuf s \<noteq> None \<and> totalBytesRead s = 0 \<and>
     (\<exists>b. readBuf s = Some b \<and> length b = 138 \<and>
        (reads (sk s) = [frame_req] \<and> rx (sk s) = strm \<or>
         reads (sk s) = [frame_done] \<and> 138 \<le> length strm \<and> b = take 138 strm \<and> rx (sk s) = drop 138 strm))"

definition chunk_req :: "nat \<Rightarrow> bool \<Rightarrow> read_req" where
  "chunk_req n d = \<lparr>rr_target = To_fileReadBuf, rr_off = 0, rr_len = n, rr_filled = d\<rparr>"

definition chunk_stream :: "nat \<Rightarrow> bytes \<Rightarrow> session \<Rightarrow> bool" where
  "chunk_stream n strm s \<longleftrightarrow>
     totalBytesRead s = 0 \<and> (\<exists>b. readBuf s = Some b \<and> length b = 138) \<and>
     (\<exists>b. fileReadBuf s = Some b \<and> length b = n \<and>
        (reads (sk s) = [chunk_req n False] \<and> rx (sk s) = strm \<or>
         reads (sk s) = [chunk_req n True] \<and> n \<le> length strm \<and> b = take n strm \<and> rx (sk s) = drop n strm))"

lemma listening_stream: "listening s \<Longrightarrow> frame_stream (rx (sk s)) s"
  by (auto simp: listening_def frame_stream_def)

lemma io_read_frame_stream:
  assumes st: "frame_stream (f @ rest) (sess h r)" and f: "length f = 138"
  shows "io_read_step env r h =
     ReadMessageFrameCallback env False 138 r (set_sess r (got_frame f rest (sess h r)) h)"
proof (cases "reads (sk (sess h r)) = [frame_req]")
  case True
  with st have "listening (sess h r)" "rx (sk (sess h r)) = f @ rest"
    by (auto simp: frame_stream_def listening_def frame_req_def frame_done_def)
  then show ?thesis using io_read_frame f by (simp add: got_frame_def)
next
  case False
  with st f have d: "reads (sk (sess h r)) = [frame_done]" "readBuf (sess h r) = Some f" "rx (sk (sess h r)) = rest"
    by (auto simp: frame_stream_def)
  then have "got_frame f rest (sess h r) = (sess h r)\<lparr>sk := (sk (sess h r))\<lparr>reads := []\<rparr>\<rparr>"
    by (simp add: got_frame_def)
  with d show ?thesis
    by (simp add: io_read_step_def fill_read_def frame_done_def frame_req_def)
qed

lemma io_frame_stream:
  assumes st: "frame_stream (f @ rest) (sess h r)" and f: "length f = 138"
    and hdr: "GetMsgHeader (Some f) = Inr header"
  shows "io_read_step env r h =
     (let h = set_sess r (got_frame f rest (sess h r)) h in
      if sstate (sess h r) = BVSESSIONSTATE_UNPREPARED then
        rbind (if mh_msgType header = CTRL_HELLO then OnReceiveHelloFrame env r h else Inr h) (\<lambda>h.
        rbind (if mh_msgType header = CTRL_HELLOBACK then OnReceiveHelloBackFrame env r h else Inr h) (\<lambda>h.
        rbind (if mh_msgType header = CTRL_CONFIRM_ESTABLISHED then OnReceiveConfirmEstablished r h else Inr h)
          (finish_frame r)))
      else
        rbind (OnReceiveStandardFrame env r h) (\<lambda>(early, h). if early then Inr h else finish_frame r h))"
proof -
  define s0 where "s0 = got_frame f rest (sess h r)"
  have t0: "totalBytesRead s0 = 0" "readBuf s0 = Some f"
    using st by (auto simp: frame_stream_def s0_def)
  then have same: "s0\<lparr>totalBytesRead := 0\<rparr> = s0" by simp
  show ?thesis
    unfolding io_read_frame_stream [OF st f] s0_def [symmetric]
    using t0 hdr by (simp add: ReadMessageFrameCallback_def MESSAGE_FRAME_SIZE_BYTES_def Let_def same)
qed

lemma rearm_stream:
  assumes "readBuf s = Some b" "length b = 138" "totalBytesRead s = 0" "reads (sk s) = []" "fileReadBuf s \<noteq> None"
  shows "\<exists>s'. StartReadingFrames s = Inr s' \<and> frame_stream (rx (sk s)) s' \<and> same_peer s s' \<and> tx (sk s') = tx (sk s)"
proof (cases "speculative (sk s) \<and> 138 \<le> length (rx (sk s))")
  case True
  then have "StartReadingFrames s = Inr (s\<lparr>readBuf := Some (take 138 (rx (sk s))),
      sk := (sk s)\<lparr>rx := drop 138 (rx (sk s)), reads := [frame_done]\<rparr>\<rparr>)"
    using assms by (intro StartReadingFrames_speculative [of s b]) auto
  with True assms show ?thesis by (auto simp: frame_stream_def same_peer_def)
next
  case False
  then have "StartReadingFrames s = Inr (s\<lparr>sk := (sk s)\<lparr>reads := [frame_req]\<rparr>\<rparr>)"
    using assms by (auto simp: StartReadingFrames_def async_read_def fill_read_def frame_req_def
        MESSAGE_FRAME_SIZE_BYTES_def Let_def)
  with assms show ?thesis by (auto simp: frame_stream_def same_peer_def)
qed

lemma StartReadingChunks_stream:
  assumes "fileReadBuf s = Some b" "length b = unat n" "0 < unat n" "totalBytesRead s = 0" "reads (sk s) = []"
    and "readBuf s = Some b'" "length b' = 138"
  shows "\<exists>s'. StartReadingChunks n s = Inr s' \<and> chunk_stream (unat n) (rx (sk s)) s' \<and> same_peer s s' \<and> tx (sk s') = tx (sk s)"
proof (cases "speculative (sk s) \<and> unat n \<le> length (rx (sk s))")
  case True
  then have "memcpy_at b 0 (take (unat n) (rx (sk s))) = take (unat n) (rx (sk s))"
    using assms by (simp add: memcpy_at_def)
  with True assms show ?thesis
    by (simp add: StartReadingChunks_def async_read_def fill_read_def chunk_stream_def chunk_req_def same_peer_def Let_def)
next
  case False
  then have "speculative (sk s) \<Longrightarrow> length (rx (sk s)) < unat n" by simp
  then have "StartReadingChunks n s = Inr (s\<lparr>sk := (sk s)\<lparr>reads := [chunk_req (unat n) False]\<rparr>\<rparr>)"
    using assms(1,3-5) by (simp add: StartReadingChunks_def async_read_def fill_read_def chunk_req_def Let_def)
  with assms show ?thesis by (auto simp: chunk_stream_def same_peer_def)
qed

section \<open>Receiving a file\<close>

text \<open>Chunk frames of \<open>n\<close> payload bytes: what the callback sees.\<close>

definition got_chunk :: "bytes \<Rightarrow> bytes \<Rightarrow> session \<Rightarrow> session" where
  "got_chunk f rest s = s\<lparr>fileReadBuf := Some f, sk := (sk s)\<lparr>rx := rest, reads := []\<rparr>\<rparr>"

lemma io_read_chunk:
  assumes st: "chunk_stream n (f @ rest) (sess h r)" and f: "length f = n"
  shows "io_read_step env r h = ReadFileChunkCallback False n r (set_sess r (got_chunk f rest (sess h r)) h)"
proof -
  obtain b where b: "fileReadBuf (sess h r) = Some b" "length b = n"
      "reads (sk (sess h r)) = [chunk_req n False] \<and> rx (sk (sess h r)) = f @ rest \<or>
       reads (sk (sess h r)) = [chunk_req n True] \<and> b = f \<and> rx (sk (sess h r)) = rest"
    using st f by (auto simp: chunk_stream_def)
  from b(3) show ?thesis
  proof
    assume u: "reads (sk (sess h r)) = [chunk_req n False] \<and> rx (sk (sess h r)) = f @ rest"
    have "memcpy_at b 0 f = f" using b f by (simp add: memcpy_at_def)
    with u b f show ?thesis
      by (simp add: io_read_step_def fill_read_def chunk_req_def got_chunk_def)
  next
    assume d: "reads (sk (sess h r)) = [chunk_req n True] \<and> b = f \<and> rx (sk (sess h r)) = rest"
    with b have "got_chunk f rest (sess h r) = (sess h r)\<lparr>sk := (sk (sess h r))\<lparr>reads := []\<rparr>\<rparr>"
      by (simp add: got_chunk_def)
    with d show ?thesis
      by (simp add: io_read_step_def fill_read_def chunk_req_def)
  qed
qed

text \<open>The mails a file of the given content is delivered as.\<close>

function chunk_mails :: "u32 \<Rightarrow> u32 \<Rightarrow> u32 \<Rightarrow> bytes \<Rightarrow> BVMessage list" where
  "chunk_mails key cs fs xs =
     (if unat cs = 0 \<or> xs = [] then []
      else file_mail (if length xs \<le> unat cs then BVEVENTTYPE_APP_FILE_TRANSFER_END
                      else BVEVENTTYPE_APP_FILE_TRANSFER_CHUNK_SENT) key cs fs
             (take (unat cs) xs @ zeros (unat cs - length xs))
           # chunk_mails key cs fs (drop (unat cs) xs))"
  by pat_completeness auto
termination
  by (relation "measure (\<lambda>(key, cs, fs, xs). length xs)") auto

declare chunk_mails.simps [simp del]

lemma data_frame_parts:
  "length (data_frame now key n t xs) = 21 + n"
  "GetFileHeader (Some (data_frame now key n t xs)) = Inr (ConstructFileHeader now t key 0)"
  "GetFileData (Some (data_frame now key n t xs)) n = Inr (take n xs @ zeros (n - length xs))"
proof -
  show "length (data_frame now key n t xs) = 21 + n" by (simp add: data_frame_def)
  show "GetFileHeader (Some (data_frame now key n t xs)) = Inr (ConstructFileHeader now t key 0)"
    by (simp add: data_frame_def GetFileHeader_frame)
  have "length (take n xs @ zeros (n - length xs)) = n" by simp
  then show "GetFileData (Some (data_frame now key n t xs)) n = Inr (take n xs @ zeros (n - length xs))"
    unfolding data_frame_def GetFileData_frame by simp
qed

lemma chunk_size_word: "unat (cs :: u32) + 21 < 2 ^ 32 \<Longrightarrow> unat (cs + word_of_nat FILE_HEADER_SIZE_BYTES) = unat cs + 21"
  by (simp add: FILE_HEADER_SIZE_BYTES_def unat_word_ariths)

text \<open>A block that does not end the transfer: its handler runs, and the next block is read.\<close>

lemma next_chunk:
  assumes st: "chunk_stream (unat cs + 21) (f @ rest) (sess h r)" and f: "length f = unat cs + 21"
    and cs: "s_csize (sess h r) = cs" "unat cs + 21 < 2 ^ 32"
    and hd: "GetFileHeader (Some f) = Inr header" "fh_msgType header \<noteq> REG_FILE_TRANSFER_END"
    and hnd: "\<And>s. s = (got_chunk f rest (sess h r))\<lparr>totalBytesRead := unat cs + 21\<rparr> \<Longrightarrow>
       (if fh_msgType header = REG_FILE_TRANSFER_CHUNK_SENT then OnReceiveFileChunkSent r (set_sess r s h) else Inr (set_sess r s h)) =
       Inr (set_sess r s h')"
  shows "\<exists>s'. io_read_step env r h = Inr (set_sess r s' h') \<and> chunk_stream (unat cs + 21) rest s' \<and> same_peer (sess h r) s'"
proof -
  let ?s = "(got_chunk f rest (sess h r))\<lparr>totalBytesRead := unat cs + 21\<rparr>"
  let ?z = "?s\<lparr>totalBytesRead := 0, fileReadBuf := Some (zeros (unat cs + 21))\<rparr>"
  obtain b where b: "readBuf (sess h r) = Some b" "length b = 138" "totalBytesRead (sess h r) = 0"
    using st by (auto simp: chunk_stream_def)
  have cb: "io_read_step env r h = ReadFileChunkCallback False (unat cs + 21) r (set_sess r (got_chunk f rest (sess h r)) h)"
    by (rule io_read_chunk [OF st f])
  have "\<exists>s'. StartReadingChunks (cs + word_of_nat FILE_HEADER_SIZE_BYTES) ?z = Inr s' \<and>
      chunk_stream (unat (cs + word_of_nat FILE_HEADER_SIZE_BYTES)) (rx (sk ?z)) s' \<and> same_peer ?z s' \<and> tx (sk s') = tx (sk ?z)"
    by (rule StartReadingChunks_stream [of _ "zeros (unat cs + 21)" _ b])
      (use b chunk_size_word [OF cs(2)] in \<open>simp_all add: got_chunk_def\<close>)
  then obtain s' where s': "StartReadingChunks (cs + word_of_nat FILE_HEADER_SIZE_BYTES) ?z = Inr s'"
      "chunk_stream (unat cs + 21) rest s'" "same_peer ?z s'"
    unfolding chunk_size_word [OF cs(2)] by (auto simp: got_chunk_def)
  have "io_read_step env r h = Inr (set_sess r s' h')"
    unfolding cb using b(3) hd hnd [OF refl] s'(1) cs(1) f
    by (cases "fh_msgType header = REG_FILE_TRANSFER_CHUNK_SENT")
      (simp_all add: ReadFileChunkCallback_def Let_def got_chunk_def with_sess_def FILE_HEADER_SIZE_BYTES_def)
  moreover have "same_peer (sess h r) s'" using s'(3) by (simp add: same_peer_def got_chunk_def)
  ultimately show ?thesis using s'(2) by blast
qed

lemma chunk_step:
  assumes st: "chunk_stream (unat cs + 21) (data_frame now key (unat cs) REG_FILE_TRANSFER_CHUNK_SENT xs @ rest) (sess h r)"
    and cs: "s_csize (sess h r) = cs" "unat cs + 21 < 2 ^ 32"
  shows "\<exists>s'. io_read_step env r h = Inr (PutMessageIntoAppMailbox
       (file_mail BVEVENTTYPE_APP_FILE_TRANSFER_CHUNK_SENT key cs (s_fsize (sess h r))
          (take (unat cs) xs @ zeros (unat cs - length xs))) (set_sess r s' h)) \<and>
     chunk_stream (unat cs + 21) rest s' \<and> same_peer (sess h r) s'"
proof -
  let ?mail = "file_mail BVEVENTTYPE_APP_FILE_TRANSFER_CHUNK_SENT key cs (s_fsize (sess h r))
      (take (unat cs) xs @ zeros (unat cs - length xs))"
  have comm: "set_sess r s (PutMessageIntoAppMailbox ?mail h) = PutMessageIntoAppMailbox ?mail (set_sess r s h)" for s
    by (simp add: PutMessageIntoAppMailbox_def set_sess_def)
  show ?thesis
    unfolding comm [symmetric]
    by (rule next_chunk [OF st _ cs data_frame_parts(2)])
      (use cs(1) in \<open>simp_all add: comm data_frame_parts OnReceiveFileChunkSent_def got_chunk_def ConstructFileHeader_def msgtype_defs\<close>)
qed

lemma end_step:
  assumes st: "chunk_stream (unat cs + 21) (data_frame now key (unat cs) REG_FILE_TRANSFER_END xs @ rest) (sess h r)"
    and cs: "s_csize (sess h r) = cs"
  shows "\<exists>s'. io_read_step env r h = Inr (PutMessageIntoAppMailbox
       (file_mail BVEVENTTYPE_APP_FILE_TRANSFER_END key cs (s_fsize (sess h r))
          (take (unat cs) xs @ zeros (unat cs - length xs))) (set_sess r s' h)) \<and>
     frame_stream rest s' \<and> same_peer (sess h r) s'"
proof -
  let ?f = "data_frame now key (unat cs) REG_FILE_TRANSFER_END xs"
  let ?s = "(got_chunk ?f rest (sess h r))\<lparr>totalBytesRead := unat cs + 21\<rparr>"
  let ?mail = "file_mail BVEVENTTYPE_APP_FILE_TRANSFER_END key cs (s_fsize (sess h r))
      (take (unat cs) xs @ zeros (unat cs - length xs))"
  let ?z = "?s\<lparr>fileReadBuf := Some (zeros 1), readBuf := Some (zeros 138), totalBytesRead := 0\<rparr>"
  obtain b where b: "readBuf (sess h r) = Some b" "length b = 138" "totalBytesRead (sess h r) = 0"
    using st by (auto simp: chunk_stream_def)
  have cb: "io_read_step env r h = ReadFileChunkCallback False (unat cs + 21) r (set_sess r (got_chunk ?f rest (sess h r)) h)"
    by (rule io_read_chunk [OF st]) (simp add: data_frame_parts)
  have mail: "OnReceiveFileTransferEnd r (set_sess r ?s h) = Inr (PutMessageIntoAppMailbox ?mail (set_sess r ?s h))"
    using cs by (simp add: OnReceiveFileTransferEnd_def got_chunk_def data_frame_parts ConstructFileHeader_def)
  have "\<exists>s'. StartReadingFrames ?z = Inr s' \<and> frame_stream (rx (sk ?z)) s' \<and> same_peer ?z s' \<and> tx (sk s') = tx (sk ?z)"
    by (rule rearm_stream [of _ "zeros 138"]) (simp_all add: got_chunk_def)
  then obtain s' where s': "StartReadingFrames ?z = Inr s'" "frame_stream rest s'" "same_peer ?z s'"
    by (auto simp: got_chunk_def)
  have "ClearReadBuffer (ClearFileBuffer ?s) = Inr ?z"
    using b by (simp add: ClearReadBuffer_def ClearFileBuffer_def got_chunk_def MESSAGE_FRAME_SIZE_BYTES_def)
  with s'(1) have "io_read_step env r h = Inr (set_sess r s' (PutMessageIntoAppMailbox ?mail (set_sess r ?s h)))"
    unfolding cb using b(3) mail
    by (simp add: ReadFileChunkCallback_def Let_def got_chunk_def data_frame_parts ConstructFileHeader_def
        with_sess_def PutMessageIntoAppMailbox_def MESSAGE_FRAME_SIZE_BYTES_def)
  then have "io_read_step env r h = Inr (PutMessageIntoAppMailbox ?mail (set_sess r s' h))"
    by (simp add: PutMessageIntoAppMailbox_def set_sess_def)
  moreover have "same_peer (sess h r) s'"
    using s'(3) by (simp add: same_peer_def got_chunk_def)
  ultimately show ?thesis using s'(2) by blast
qed

lemma io_reads_add: "io_reads (m + n) env r h = rbind (io_reads m env r h) (io_reads n env r)"
proof (induction m arbitrary: h)
  case 0
  then show ?case by simp
next
  case (Suc m)
  then show ?case by (cases "io_read_step env r h") simp_all
qed

lemma data_frames_Cons:
  "0 < n \<Longrightarrow> xs \<noteq> [] \<Longrightarrow> data_frames clk k key n xs =
     data_frame (clk k) key n (if length xs \<le> n then REG_FILE_TRANSFER_END else REG_FILE_TRANSFER_CHUNK_SENT) xs
     # data_frames clk (Suc k) key n (drop n xs)"
  by (subst data_frames.simps) simp

lemma data_frames_Nil [simp]: "data_frames clk k key n [] = []"
  by (subst data_frames.simps) simp

text \<open>A data frame that is not the last one, and its delivery.\<close>

lemma long_data:
  assumes "0 < n" "\<not> length xs \<le> n"
  shows "data_frames clk k key n xs = data_frame (clk k) key n REG_FILE_TRANSFER_CHUNK_SENT xs # data_frames clk (Suc k) key n (drop n xs)"
    and "n = unat cs \<Longrightarrow> chunk_mails key cs fsz xs =
      file_mail BVEVENTTYPE_APP_FILE_TRANSFER_CHUNK_SENT key cs fsz (take n xs @ zeros (n - length xs)) # chunk_mails key cs fsz (drop n xs)"
proof -
  have "xs \<noteq> []" using assms by auto
  then show "data_frames clk k key n xs = data_frame (clk k) key n REG_FILE_TRANSFER_CHUNK_SENT xs # data_frames clk (Suc k) key n (drop n xs)"
    and "n = unat cs \<Longrightarrow> chunk_mails key cs fsz xs =
      file_mail BVEVENTTYPE_APP_FILE_TRANSFER_CHUNK_SENT key cs fsz (take n xs @ zeros (n - length xs)) # chunk_mails key cs fsz (drop n xs)"
    using assms by (simp add: data_frames_Cons, subst chunk_mails.simps, simp)
qed

lemma chunk_received:
  assumes "chunk_stream (unat cs + 21) (data_frame now key (unat cs) REG_FILE_TRANSFER_CHUNK_SENT xs @ rest) (sess h r)"
    and "s_csize (sess h r) = cs" "unat cs + 21 < 2 ^ 32"
  obtains h1 where "io_read_step env r h = Inr h1" "chunk_stream (unat cs + 21) rest (sess h1 r)" "same_peer (sess h r) (sess h1 r)"
    "appMail h1 = appMail h @
      [file_mail BVEVENTTYPE_APP_FILE_TRANSFER_CHUNK_SENT key cs (s_fsize (sess h r)) (take (unat cs) xs @ zeros (unat cs - length xs))]"
  using chunk_step [OF assms, of env] that by (auto simp: PutMessageIntoAppMailbox_def)

lemma receive_chunks:
  assumes "chunk_stream (unat cs + 21) (concat (data_frames clk k key (unat cs) xs) @ rest) (sess h r)"
    and "s_csize (sess h r) = cs" "0 < unat cs" "unat cs + 21 < 2 ^ 32" "xs \<noteq> []"
  shows "\<exists>h'. io_reads (length (data_frames clk k key (unat cs) xs)) env r h = Inr h' \<and>
     appMail h' = appMail h @ chunk_mails key cs (s_fsize (sess h r)) xs \<and>
     frame_stream rest (sess h' r) \<and> same_peer (sess h r) (sess h' r)"
  using assms
proof (induction "length xs" arbitrary: xs k h rule: less_induct)
  case less
  let ?n = "unat cs"
  note prems = less.prems
  show ?case
  proof (cases "length xs \<le> ?n")
    case True
    then have one: "data_frames clk k key ?n xs = [data_frame (clk k) key ?n REG_FILE_TRANSFER_END xs]"
      using prems by (simp add: data_frames_Cons)
    have st: "chunk_stream (?n + 21) (data_frame (clk k) key ?n REG_FILE_TRANSFER_END xs @ rest) (sess h r)"
      using prems(1) one by simp
    have "chunk_mails key cs (s_fsize (sess h r)) xs =
        [file_mail BVEVENTTYPE_APP_FILE_TRANSFER_END key cs (s_fsize (sess h r)) (take ?n xs @ zeros (?n - length xs))]"
      using True prems by (simp add: chunk_mails.simps [of _ _ _ xs] chunk_mails.simps [of _ _ _ "[]"])
    with end_step [OF st prems(2), of env] one show ?thesis
      by (auto simp: PutMessageIntoAppMailbox_def)
  next
    case False
    note long = long_data [OF prems(3) False]
    let ?t = "data_frames clk (Suc k) key ?n (drop ?n xs)"
    have st: "chunk_stream (?n + 21) (data_frame (clk k) key ?n REG_FILE_TRANSFER_CHUNK_SENT xs @ concat ?t @ rest) (sess h r)"
      using prems(1) long(1) by simp
    obtain h1 where h1: "io_read_step env r h = Inr h1" "chunk_stream (?n + 21) (concat ?t @ rest) (sess h1 r)" "same_peer (sess h r) (sess h1 r)"
        "appMail h1 = appMail h @ [file_mail BVEVENTTYPE_APP_FILE_TRANSFER_CHUNK_SENT key cs (s_fsize (sess h r))
          (take ?n xs @ zeros (?n - length xs))]"
      by (rule chunk_received [OF st prems(2,4)])
    have "\<exists>h'. io_reads (length ?t) env r h1 = Inr h' \<and> appMail h' = appMail h1 @ chunk_mails key cs (s_fsize (sess h1 r)) (drop ?n xs) \<and>
        frame_stream rest (sess h' r) \<and> same_peer (sess h1 r) (sess h' r)"
      by (rule less.hyps) (use prems(2-5) False h1(2,3) in \<open>simp_all add: same_peer_def\<close>)
    with h1 long prems(2) show ?thesis by (auto simp: same_peer_def)
  qed
qed

text \<open>
  The frame that opens a transfer. Its byte 9, part of the timestamp, must not be the code of a
  chat message: the clock is read in milliseconds, so this holds until the year 2144.
\<close>

definition not_chat_time :: "u64 \<Rightarrow> bool" where
  "not_chat_time now \<longleftrightarrow> (ucast (drop_bit 40 now) :: byte) \<noteq> REG_CHATMESSAGE"

definition name_fits :: "bytes \<Rightarrow> bytes \<Rightarrow> bool" where
  "name_fits service fname \<longleftrightarrow>
     0 \<notin> set service \<and> 0 \<notin> set fname \<and> length service + length fname < 116"

lemma file_frame_byte_9: "file_frame c n ! 9 = ucast (drop_bit 40 (fh_timestamp (fc_header c)))"
proof -
  have "le_enc 8 w ! 5 = ucast (drop_bit 40 w)" for w :: u64
    by (simp add: eval_nat_numeral nth_Cons' drop_bit_drop_bit)
  then show ?thesis by (simp add: file_frame_layout file_header_bytes_def nth_append)
qed

lemma named_frame_parts:
  assumes "name_fits service fname"
    and c: "c = \<lparr>fc_header = hdr, fc_payload = begin_payload service fname\<rparr>"
  shows "length (file_frame c 117) = 138" "GetFileHeader (Some (file_frame c 117)) = Inr hdr"
    "GetFileData_str (Some (file_frame c 117)) = Inr (service @ str ''|'' @ fname)"
proof -
  have "0 \<notin> set (service @ str ''|'' @ fname)" "length (service @ str ''|'' @ fname) < 117"
    using assms(1) by (auto simp: name_fits_def str_def)
  from GetFileData_str_frame [OF this, of hdr]
  show "GetFileData_str (Some (file_frame c 117)) = Inr (service @ str ''|'' @ fname)"
    by (simp add: c begin_payload_def)
qed (simp_all add: c GetFileHeader_frame)

lemma begin_step:
  assumes st: "frame_stream (begin_frame now key cs fs service fname @ rest) (sess h r)"
    and est: "sstate (sess h r) = BVSESSIONSTATE_ESTABLISHED"
    and ok: "name_fits service fname" "not_chat_time now" "unat cs + 21 < 2 ^ 32"
  shows "\<exists>s'. io_read_step env r h = Inr (PutMessageIntoAppMailbox
       (file_mail BVEVENTTYPE_APP_FILE_TRANSFER_BEGIN key cs fs (service @ str ''|'' @ fname)) (set_sess r s' h)) \<and>
     chunk_stream (unat cs + 21) rest s' \<and> s_csize s' = cs \<and> s_fsize s' = fs \<and> nodeData s' = nodeData (sess h r) \<and>
     sstate s' = BVSESSIONSTATE_ESTABLISHED"
proof -
  let ?hdr = "ConstructFileHeader now REG_FILE_TRANSFER_BEGIN key (pack_metadata cs fs)"
  let ?f = "begin_frame now key cs fs service fname"
  have f: "length ?f = 138" "GetFileHeader (Some ?f) = Inr ?hdr"
      "GetFileData_str (Some ?f) = Inr (service @ str ''|'' @ fname)"
    unfolding begin_frame_def using named_frame_parts [OF ok(1) refl] by simp_all
  obtain header where hdr: "GetMsgHeader (Some ?f) = Inr header" "mh_msgType header \<noteq> REG_CHATMESSAGE"
    using f(1) ok(2) by (simp add: GetMsgHeader_def HEADER_SIZE_BYTES_def begin_frame_def file_frame_byte_9
        ConstructFileHeader_def not_chat_time_def)
  let ?s = "got_frame ?f rest (sess h r)"
  let ?mail = "file_mail BVEVENTTYPE_APP_FILE_TRANSFER_BEGIN key cs fs (service @ str ''|'' @ fname)"
  let ?z = "?s\<lparr>s_csize := cs, s_fsize := fs, readBuf := Some (zeros 138),
      fileReadBuf := Some (zeros (unat cs + 21)), totalBytesRead := 0\<rparr>"
  have "\<exists>s'. StartReadingChunks (cs + word_of_nat FILE_HEADER_SIZE_BYTES) ?z = Inr s' \<and>
      chunk_stream (unat (cs + word_of_nat FILE_HEADER_SIZE_BYTES)) (rx (sk ?z)) s' \<and> same_peer ?z s' \<and> tx (sk s') = tx (sk ?z)"
    by (rule StartReadingChunks_stream [of _ "zeros (unat cs + 21)" _ "zeros 138"])
      (use chunk_size_word [OF ok(3)] in simp_all)
  then obtain s' where s': "StartReadingChunks (cs + word_of_nat FILE_HEADER_SIZE_BYTES) ?z = Inr s'"
      "chunk_stream (unat cs + 21) rest s'" "same_peer ?z s'"
    unfolding chunk_size_word [OF ok(3)] by auto
  have "OnReceiveFileTransferBegin r (set_sess r ?s h) = Inr (PutMessageIntoAppMailbox ?mail (set_sess r s' h))"
    using f s'(1)
    by (simp add: OnReceiveFileTransferBegin_def ConstructFileHeader_def with_sess_def PutMessageIntoAppMailbox_def
        ClearReadBuffer_def MESSAGE_FRAME_SIZE_BYTES_def FILE_HEADER_SIZE_BYTES_def Let_def set_sess_def)
  then have "OnReceiveStandardFrame env r (set_sess r ?s h) = Inr (True, PutMessageIntoAppMailbox ?mail (set_sess r s' h))"
    using hdr f by (simp add: OnReceiveStandardFrame_def ConstructFileHeader_def)
  then have "io_read_step env r h = Inr (PutMessageIntoAppMailbox ?mail (set_sess r s' h))"
    using io_frame_stream [OF st f(1) hdr(1), of env] est by simp
  then show ?thesis
    using s' est by (auto simp: same_peer_def)
qed

text \<open>A whole transfer, as the sender's worker writes it.\<close>

definition transfer_mails :: "u32 \<Rightarrow> bytes \<Rightarrow> bytes \<Rightarrow> bytes \<Rightarrow> BVMessage list" where
  "transfer_mails key service fname content =
     (let fs = word_of_nat (length content); cs = DetermineChunkSize fs in
      file_mail BVEVENTTYPE_APP_FILE_TRANSFER_BEGIN key cs fs (service @ str ''|'' @ fname) # chunk_mails key cs fs content)"

lemma receive_transfer:
  assumes st: "frame_stream (transfer_bytes clk key service fname content @ rest) (sess h r)"
    and est: "sstate (sess h r) = BVSESSIONSTATE_ESTABLISHED"
    and ok: "name_fits service fname" "not_chat_time (clk 0)" and ne: "content \<noteq> []"
  shows "\<exists>n h'. io_reads n env r h = Inr h' \<and> appMail h' = appMail h @ transfer_mails key service fname content \<and>
    frame_stream rest (sess h' r) \<and> sstate (sess h' r) = BVSESSIONSTATE_ESTABLISHED \<and>
    nodeData (sess h' r) = nodeData (sess h r)"
proof -
  define fs :: u32 where "fs = word_of_nat (length content)"
  define cs where "cs = DetermineChunkSize fs"
  let ?d = "concat (data_frames clk 1 key (unat cs) content)"
  have cs: "0 < unat cs" "unat cs + 21 < 2 ^ 32"
    using DetermineChunkSize_bounds [of fs] by (simp_all add: cs_def)
  have "frame_stream (begin_frame (clk 0) key cs fs service fname @ (?d @ rest)) (sess h r)"
    using st by (simp add: transfer_bytes_def fs_def cs_def Let_def)
  from begin_step [OF this est ok cs(2), of env] obtain s1 where s1:
      "io_read_step env r h = Inr (PutMessageIntoAppMailbox
         (file_mail BVEVENTTYPE_APP_FILE_TRANSFER_BEGIN key cs fs (service @ str ''|'' @ fname)) (set_sess r s1 h))"
      "chunk_stream (unat cs + 21) (?d @ rest) s1" "s_csize s1 = cs" "s_fsize s1 = fs"
      "nodeData s1 = nodeData (sess h r)" "sstate s1 = BVSESSIONSTATE_ESTABLISHED"
    by blast
  define h1 where "h1 = PutMessageIntoAppMailbox
      (file_mail BVEVENTTYPE_APP_FILE_TRANSFER_BEGIN key cs fs (service @ str ''|'' @ fname)) (set_sess r s1 h)"
  have h1: "sess h1 r = s1" "appMail h1 = appMail h @ [file_mail BVEVENTTYPE_APP_FILE_TRANSFER_BEGIN key cs fs (service @ str ''|'' @ fname)]"
    by (simp_all add: h1_def PutMessageIntoAppMailbox_def)
  have "chunk_stream (unat cs + 21) (?d @ rest) (sess h1 r)" "s_csize (sess h1 r) = cs" using s1 h1 by simp_all
  from receive_chunks [OF this cs ne, of env] obtain h2 where h2:
      "io_reads (length (data_frames clk 1 key (unat cs) content)) env r h1 = Inr h2"
      "appMail h2 = appMail h1 @ chunk_mails key cs (s_fsize (sess h1 r)) content"
      "frame_stream rest (sess h2 r)" "same_peer (sess h1 r) (sess h2 r)"
    by blast
  have "io_reads (Suc (length (data_frames clk 1 key (unat cs) content))) env r h = Inr h2"
    using s1(1) h2(1) by (simp add: h1_def)
  moreover have "appMail h2 = appMail h @ transfer_mails key service fname content"
    using h1 h2(2) s1(4) by (simp add: transfer_mails_def fs_def cs_def Let_def)
  moreover have "sstate (sess h2 r) = BVSESSIONSTATE_ESTABLISHED" "nodeData (sess h2 r) = nodeData (sess h r)"
    using h1(1) h2(4) s1(5,6) by (simp_all add: same_peer_def)
  ultimately show ?thesis using h2(3) by blast
qed

section \<open>Offers and answers\<close>

definition offer_frame :: "u64 \<Rightarrow> u32 \<Rightarrow> u32 \<Rightarrow> bytes \<Rightarrow> bytes \<Rightarrow> bytes" where
  "offer_frame now key fsize service fname =
     file_frame \<lparr>fc_header = ConstructFileHeader now REG_FILE_OFFER key (ucast fsize),
                 fc_payload = begin_payload service fname\<rparr> 117"

definition control_frame :: "u64 \<Rightarrow> u32 \<Rightarrow> u8 \<Rightarrow> bytes" where
  "control_frame now key t = file_frame \<lparr>fc_header = ConstructFileHeader now t key 0, fc_payload = []\<rparr> 117"

lemma low32_mask: "(0xFFFFFFFF :: u64) = mask 32"
  by (simp add: mask_eq_exp_minus_1)

lemma offer_fsize: "ucast ((ucast (w :: u32) :: u64) AND 0xFFFFFFFF) = w"
  unfolding low32_mask by (rule bit_word_eqI) (auto simp: bit_simps dest: bit_imp_le_length)

lemma file_frame_not_chat:
  assumes "not_chat_time now" and "n = 117"
  shows "\<exists>header. GetMsgHeader (Some (file_frame \<lparr>fc_header = ConstructFileHeader now t key d, fc_payload = p\<rparr> n)) = Inr header \<and>
    mh_msgType header \<noteq> REG_CHATMESSAGE"
  using assms by (simp add: GetMsgHeader_def HEADER_SIZE_BYTES_def file_frame_byte_9 ConstructFileHeader_def not_chat_time_def)

lemma offer_step:
  assumes st: "frame_stream (offer_frame now key fsize service fname @ rest) (sess h r)"
    and est: "sstate (sess h r) = BVSESSIONSTATE_ESTABLISHED"
    and ok: "name_fits service fname" "not_chat_time now"
  shows "\<exists>s'. io_read_step env r h = Inr (PutMessageIntoAppMailbox
       (file_mail BVEVENTTYPE_APP_FILE_OFFER key 0 fsize (service @ str ''|'' @ fname)) (set_sess r s' h)) \<and>
     frame_stream rest s' \<and> same_peer (sess h r) s'"
proof -
  let ?f = "offer_frame now key fsize service fname"
  let ?hdr = "ConstructFileHeader now REG_FILE_OFFER key (ucast fsize)"
  have f: "length ?f = 138" "GetFileHeader (Some ?f) = Inr ?hdr"
      "GetFileData_str (Some ?f) = Inr (service @ str ''|'' @ fname)"
    unfolding offer_frame_def using named_frame_parts [OF ok(1) refl] by simp_all
  obtain header where hdr: "GetMsgHeader (Some ?f) = Inr header" "mh_msgType header \<noteq> REG_CHATMESSAGE"
    unfolding offer_frame_def using file_frame_not_chat [OF ok(2) refl] by blast
  let ?s = "got_frame ?f rest (sess h r)"
  let ?mail = "file_mail BVEVENTTYPE_APP_FILE_OFFER key 0 fsize (service @ str ''|'' @ fname)"
  have b: "totalBytesRead (sess h r) = 0" "fileReadBuf (sess h r) \<noteq> None"
    using st by (simp_all add: frame_stream_def)
  have "\<exists>s'. StartReadingFrames ?s = Inr s' \<and> frame_stream (rx (sk ?s)) s' \<and> same_peer ?s s' \<and> tx (sk s') = tx (sk ?s)"
    by (rule rearm_stream [of _ ?f]) (use b f in simp_all)
  then obtain s' where s': "StartReadingFrames ?s = Inr s'" "frame_stream rest s'" "same_peer ?s s'" by auto
  have off: "OnReceiveFileOffer r (set_sess r ?s h) = Inr (PutMessageIntoAppMailbox ?mail (set_sess r ?s h))"
    using f by (simp add: OnReceiveFileOffer_def ConstructFileHeader_def offer_fsize)
  have "OnReceiveStandardFrame env r (set_sess r ?s h) = Inr (True, PutMessageIntoAppMailbox ?mail (set_sess r s' h))"
    using hdr f off s'(1)
    by (simp add: OnReceiveStandardFrame_def ConstructFileHeader_def msgtype_defs with_sess_def
        PutMessageIntoAppMailbox_def set_sess_def)
  then have "io_read_step env r h = Inr (PutMessageIntoAppMailbox ?mail (set_sess r s' h))"
    using io_frame_stream [OF st f(1) hdr(1), of env] est by simp
  moreover have "same_peer (sess h r) s'" using s'(3) by (simp add: same_peer_def got_frame_def)
  ultimately show ?thesis using s'(2) by blast
qed

text \<open>The peer's answer to an offer reaches \<open>SignalFileTransfer\<close>, whichever session it came on.\<close>

lemma answer_step:
  assumes st: "frame_stream (control_frame now key (if a then REG_FILE_ACCEPT else REG_FILE_REJECT) @ rest) (sess h r)"
    and est: "sstate (sess h r) = BVSESSIONSTATE_ESTABLISHED" and ok: "not_chat_time now"
    and sig: "\<And>s. SignalFileTransfer (e_fs env) key a (set_sess r s h) = Inr (set_sess r s h')"
  shows "\<exists>s'. io_read_step env r h = Inr (set_sess r s' h') \<and> frame_stream rest s' \<and> same_peer (sess h r) s'"
proof -
  let ?t = "if a then REG_FILE_ACCEPT else REG_FILE_REJECT"
  let ?f = "control_frame now key ?t"
  have f: "length ?f = 138" "GetFileHeader (Some ?f) = Inr (ConstructFileHeader now ?t key 0)"
    by (simp_all add: control_frame_def GetFileHeader_frame)
  obtain header where hdr: "GetMsgHeader (Some ?f) = Inr header" "mh_msgType header \<noteq> REG_CHATMESSAGE"
    unfolding control_frame_def using file_frame_not_chat [OF ok refl] by blast
  let ?s = "got_frame ?f rest (sess h r)"
  have b: "totalBytesRead (sess h r) = 0" "fileReadBuf (sess h r) \<noteq> None"
    using st by (simp_all add: frame_stream_def)
  have "\<exists>s'. StartReadingFrames ?s = Inr s' \<and> frame_stream (rx (sk ?s)) s' \<and> same_peer ?s s' \<and> tx (sk s') = tx (sk ?s)"
    by (rule rearm_stream [of _ ?f]) (use b f in simp_all)
  then obtain s' where s': "StartReadingFrames ?s = Inr s'" "frame_stream rest s'" "same_peer ?s s'" by auto
  have "OnReceiveStandardFrame env r (set_sess r ?s h) = Inr (True, set_sess r s' h')"
    using hdr f sig [of ?s] s'(1)
    by (cases a) (simp_all add: OnReceiveStandardFrame_def ConstructFileHeader_def msgtype_defs with_sess_def)
  then have "io_read_step env r h = Inr (set_sess r s' h')"
    using io_frame_stream [OF st f(1) hdr(1), of env] est by simp
  moreover have "same_peer (sess h r) s'" using s'(3) by (simp add: same_peer_def got_frame_def)
  ultimately show ?thesis using s'(2) by blast
qed

section \<open>The handshake\<close>

definition helloback :: "env \<Rightarrow> bytes \<Rightarrow> BVTCPMessage" where
  "helloback env name =
     \<lparr>m_header = \<lparr>mh_dataLen = word_of_nat (length name), mh_timestamp = e_now env, mh_msgType = CTRL_HELLOBACK\<rparr>,
      m_payload = name @ drop (length name) (e_garbage env)\<rparr>"

lemma empty_message_header:
  "m_header (empty_message now t) = \<lparr>mh_dataLen = 128, mh_timestamp = now, mh_msgType = t\<rparr>"
  by (simp add: empty_message_def ConstructMessage_def ConstructMessageHeader_def)

lemma hello_step:
  assumes l: "listening (sess h r)" and st: "sstate (sess h r) = BVSESSIONSTATE_UNPREPARED"
    and ns: "\<not> speculative (sk (sess h r)) \<or> length rest < 138" and w: "can_write (sess h r)"
    and g: "length (e_garbage env) = 128" and n: "length (thisMachineServiceName (sess h r)) \<le> 128"
    and rx: "rx (sk (sess h r)) = msg_bytes (empty_message now CTRL_HELLO) @ rest"
  shows "\<exists>s'. io_read_step env r h = Inr (set_sess r s' h) \<and> listening s' \<and> rx (sk s') = rest \<and>
     tx (sk s') = tx (sk (sess h r)) @ msg_bytes (helloback env (thisMachineServiceName (sess h r))) \<and>
     same_peer (sess h r) s' \<and> speculative (sk s') = speculative (sk (sess h r))"
proof -
  let ?f = "msg_bytes (empty_message now CTRL_HELLO)"
  let ?s = "got_frame ?f rest (sess h r)"
  let ?m = "helloback env (thisMachineServiceName (sess h r))"
  have len: "length ?f = 138" by simp
  have hdr: "GetMsgHeader (Some ?f) = Inr (m_header (empty_message now CTRL_HELLO))"
    using GetMsgHeader_msg_bytes [of _ "[]"] by simp
  have "?f ! 16 = 0" by (simp add: msg_bytes_def nth_append)
  then have t: "HelloMsg_msgType (Some ?f) = Inr CTRL_HELLO"
    by (simp add: HelloMsg_msgType_def CTRL_HELLO_def)
  have pl: "length (m_payload ?m) = 128" using g n by (simp add: helloback_def)
  let ?w = "?s\<lparr>totalBytesWritten := 0, writeBuf := msg_bytes ?m,
      sk := (sk ?s)\<lparr>tx := tx (sk ?s) @ msg_bytes ?m, writes := writes (sk ?s) @ [(False, 138)]\<rparr>\<rparr>"
  have wrt: "WriteMessageFrame ?m ?s = Inr ?w"
    by (rule WriteMessageFrame_tx) (use w pl in \<open>simp_all add: can_write_def\<close>)
  let ?e = "?w\<lparr>writeBuf := []\<rparr>"
  have arm: "StartReadingFrames ?e = Inr (?e\<lparr>sk := (sk ?e)\<lparr>reads := [frame_req]\<rparr>\<rparr>)"
    using StartReadingFrames_queued [of ?e ?f] ns l by (simp add: frame_req_def listening_def)
  let ?a = "?e\<lparr>sk := (sk ?e)\<lparr>reads := [frame_req]\<rparr>\<rparr>"
  have "OnReceiveHelloFrame env r (set_sess r ?s h) = Inr (set_sess r ?a h)"
    using t n wrt arm
    by (simp add: OnReceiveHelloFrame_def Let_def helloback_def ConstructMessage_def ConstructMessageHeader_def)
  then have "io_read_step env r h = finish_frame r (set_sess r ?a h)"
    using io_frame [OF l rx len hdr, of env] st by (simp add: empty_message_header msgtype_defs)
  moreover have "ClearReadBuffer ?a = Inr (?a\<lparr>readBuf := Some (zeros 138), totalBytesRead := 0\<rparr>)"
    by (rule ClearReadBuffer_ok [of _ ?f]) simp_all
  ultimately have "io_read_step env r h = Inr (set_sess r (?a\<lparr>readBuf := Some (zeros 138), totalBytesRead := 0\<rparr>) h)"
    using st by (simp add: finish_frame_def with_sess_def)
  then show ?thesis
    using l by (auto simp: listening_def same_peer_def got_frame_def)
qed

lemma confirm_step:
  assumes l: "listening (sess h r)" and st: "sstate (sess h r) = BVSESSIONSTATE_UNPREPARED"
    and ns: "\<not> speculative (sk (sess h r)) \<or> length rest < 138"
    and rx: "rx (sk (sess h r)) = msg_bytes (empty_message now CTRL_CONFIRM_ESTABLISHED) @ rest"
  shows "\<exists>s'. io_read_step env r h = Inr (set_sess r s' h) \<and> listening s' \<and> rx (sk s') = rest \<and>
     sstate s' = BVSESSIONSTATE_ESTABLISHED \<and> nodeData s' = nodeData (sess h r) \<and> tx (sk s') = tx (sk (sess h r))"
proof -
  let ?f = "msg_bytes (empty_message now CTRL_CONFIRM_ESTABLISHED)"
  let ?s = "(got_frame ?f rest (sess h r))\<lparr>sstate := BVSESSIONSTATE_ESTABLISHED\<rparr>"
  let ?a = "?s\<lparr>sk := (sk ?s)\<lparr>reads := [frame_req]\<rparr>\<rparr>"
  have len: "length ?f = 138" by simp
  have hdr: "GetMsgHeader (Some ?f) = Inr (m_header (empty_message now CTRL_CONFIRM_ESTABLISHED))"
    using GetMsgHeader_msg_bytes [of _ "[]"] by simp
  have arm: "StartReadingFrames ?s = Inr ?a"
    using StartReadingFrames_queued [of ?s ?f] ns l by (simp add: frame_req_def listening_def)
  then have "io_read_step env r h = finish_frame r (set_sess r ?a h)"
    using io_frame [OF l rx len hdr, of env] st
    by (simp add: empty_message_header msgtype_defs OnReceiveConfirmEstablished_def with_sess_def)
  moreover have "ClearReadBuffer ?a = Inr (?a\<lparr>readBuf := Some (zeros 138), totalBytesRead := 0\<rparr>)"
    by (rule ClearReadBuffer_ok [of _ ?f]) simp_all
  ultimately have "io_read_step env r h = Inr (set_sess r (?a\<lparr>readBuf := Some (zeros 138), totalBytesRead := 0\<rparr>) h)"
    by (simp add: finish_frame_def with_sess_def)
  then show ?thesis
    using l by (auto simp: listening_def got_frame_def)
qed

section \<open>Properties\<close>

definition example_chat :: "bytes \<Rightarrow> BVTCPMessage" where
  "example_chat t = \<lparr>m_header = \<lparr>mh_dataLen = word_of_nat (length t), mh_timestamp = 5, mh_msgType = REG_CHATMESSAGE\<rparr>,
     m_payload = t @ zeros (128 - length t)\<rparr>"

definition example_env :: env where
  "example_env = \<lparr>e_now = 5, e_fs = example_fs, e_garbage = zeros 128\<rparr>"

lemma example_chat_plain: "plain_chat (example_chat (str ''hey''))"
  by (simp add: plain_chat_def example_chat_def str_def msgtype_defs)

lemma example_host_session: "sess example_host 0 = example_session (str ''alice'') (str ''bob'')"
  by (simp add: example_host_def)

lemma arrive_sess [simp]:
  "sess (arrive d r h) r = (sess h r)\<lparr>sk := (sk (sess h r))\<lparr>rx := rx (sk (sess h r)) @ d\<rparr>\<rparr>"
  "appMail (arrive d r h) = appMail h" "pendingOutgoing_m (arrive d r h) = pendingOutgoing_m h"
  "sessions_m (arrive d r h) = sessions_m h" "serviceName_of (arrive d r h) = serviceName_of h"
  by (simp_all add: arrive_def set_sess_def serviceName_of_def fun_eq_iff)

lemma listening_arrive [simp]: "listening (s\<lparr>sk := (sk s)\<lparr>rx := d\<rparr>\<rparr>) = listening s"
  by (simp add: listening_def)

lemma example_listening [simp]: "listening (example_session me peer)"
  by (simp add: listening_def example_session_def frame_req_def)

lemma example_session_fields [simp]:
  "sstate (example_session me peer) = BVSESSIONSTATE_ESTABLISHED" "rx (sk (example_session me peer)) = []"
  "speculative (sk (example_session me peer)) = False"
  by (simp_all add: example_session_def example_sock_def)

text \<open>Reads completing one after the other, with the bytes that arrive before each.\<close>

fun io_arrivals :: "bytes list \<Rightarrow> env \<Rightarrow> nat \<Rightarrow> host \<Rightarrow> host result" where
  "io_arrivals [] env r h = Inr h"
| "io_arrivals (d # ds) env r h = rbind (io_read_step env r (arrive d r h)) (io_arrivals ds env r)"

text \<open>
  The pace of the arrivals: every frame is complete when its read completes; where the socket performs
  a read at once when the bytes are there, the frame behind it is not complete yet.
\<close>

fun paced :: "bool \<Rightarrow> nat \<Rightarrow> bytes list \<Rightarrow> bool" where
  "paced eager n [] \<longleftrightarrow> True"
| "paced eager n (d # ds) \<longleftrightarrow>
     138 \<le> n + length d \<and> (eager \<longrightarrow> n + length d < 2 * 138) \<and> paced eager (n + length d - 138) ds"

lemma paced_chat_steps:
  assumes "listening (sess h r)" and "sstate (sess h r) = BVSESSIONSTATE_ESTABLISHED" and "\<forall>m \<in> set ms. plain_chat m"
    and "length ds = length ms" and "paced (speculative (sk (sess h r))) (length (rx (sk (sess h r)))) ds"
    and "rx (sk (sess h r)) @ concat ds = concat (map msg_bytes ms) @ rest"
  shows "\<exists>h'. io_arrivals ds env r h = Inr h' \<and> appMail h' = appMail h @ map (chat_mail (serviceName_of h r)) ms \<and>
     listening (sess h' r) \<and> rx (sk (sess h' r)) = rest"
  using assms
proof (induction ms arbitrary: ds h)
  case (Cons m ms)
  obtain d ds' where ds: "ds = d # ds'" using Cons.prems(4) by (cases ds) auto
  define h0 where "h0 = arrive d r h"
  define rest0 where "rest0 = drop 138 (rx (sk (sess h r)) @ d)"
  have len: "length (msg_bytes m) = 138" using Cons.prems(3) by (simp add: plain_chat_def)
  have pace: "138 \<le> length (rx (sk (sess h r)) @ d)" using Cons.prems(5) ds by simp
  have eq: "(rx (sk (sess h r)) @ d) @ concat ds' = msg_bytes m @ concat (map msg_bytes ms) @ rest"
    using Cons.prems(6) ds by simp
  have "take 138 (rx (sk (sess h r)) @ d) = msg_bytes m"
    using arg_cong [OF eq, of "take 138"] pace len by simp
  then have rx0: "rx (sk (sess h r)) @ d = msg_bytes m @ rest0"
    unfolding rest0_def by (metis append_take_drop_id)
  have len0: "length rest0 = length (rx (sk (sess h r))) + length d - 138" by (simp add: rest0_def)
  have tail: "rest0 @ concat ds' = concat (map msg_bytes ms) @ rest" using eq rx0 by simp
  let ?h1 = "PutMessageIntoAppMailbox (chat_mail (serviceName_of h0 r) m)
     (set_sess r ((sess h0 r)\<lparr>readBuf := Some (zeros 138), sk := (sk (sess h0 r))\<lparr>rx := rest0\<rparr>\<rparr>) h0)"
  have step: "io_read_step env r h0 = Inr ?h1"
    by (rule chat_step) (use Cons.prems ds rx0 len0 in \<open>auto simp: h0_def\<close>)
  have "\<exists>h'. io_arrivals ds' env r ?h1 = Inr h' \<and> appMail h' = appMail ?h1 @ map (chat_mail (serviceName_of ?h1 r)) ms \<and>
     listening (sess h' r) \<and> rx (sk (sess h' r)) = rest"
    by (rule Cons.IH)
      (use Cons.prems ds tail len0 in \<open>auto simp: h0_def PutMessageIntoAppMailbox_def listening_def\<close>)
  then show ?case
    by (auto simp: ds step h0_def [symmetric]) (auto simp: h0_def PutMessageIntoAppMailbox_def serviceName_of_def)
qed simp



theorem back_to_back_lost_witness:
  "\<exists>h'. io_reads 2 example_env 0 (arrive (msg_bytes (example_chat (str ''hey'')) @ msg_bytes (example_chat (str ''hey''))) 0
       (set_sess 0 ((sess example_host 0)\<lparr>sk := (sk (sess example_host 0))\<lparr>speculative := True\<rparr>\<rparr>) example_host)) = Inr h' \<and>
     reads (sk (sess h' 0)) = [] \<and> length (appMail h') = length (appMail example_host) + 1"
proof -
  let ?s = "(sess example_host 0)\<lparr>sk := (sk (sess example_host 0))\<lparr>speculative := True\<rparr>\<rparr>"
  let ?h = "arrive (msg_bytes (example_chat (str ''hey'')) @ msg_bytes (example_chat (str ''hey''))) 0 (set_sess 0 ?s example_host)"
  have "listening (sess ?h 0)" "sstate (sess ?h 0) = BVSESSIONSTATE_ESTABLISHED" "speculative (sk (sess ?h 0))"
      "rx (sk (sess ?h 0)) = msg_bytes (example_chat (str ''hey'')) @ msg_bytes (example_chat (str ''hey'')) @ []"
    by (simp_all add: example_host_session listening_def) (simp_all add: example_session_def example_sock_def frame_req_def)
  from back_to_back_lost [OF this(1-3) example_chat_plain example_chat_plain this(4), of example_env]
  show ?thesis by auto
qed

text \<open>A frame of an established session that is neither a chat message nor a file frame is dropped without starting another read: from then on nothing the peer sends is ever read.\<close>

theorem unrecognised_frame_deafens:
  assumes "listening (sess h r)" and "sstate (sess h r) = BVSESSIONSTATE_ESTABLISHED"
    and "length f = 138" and "rx (sk (sess h r)) = f @ rest"
    and "f ! 9 \<noteq> REG_CHATMESSAGE" "f ! 12 \<notin> {REG_FILE_TRANSFER_BEGIN, REG_FILE_OFFER, REG_FILE_ACCEPT, REG_FILE_REJECT}"
  shows "\<exists>h'. io_read_step env r h = Inr h' \<and> appMail h' = appMail h \<and>
    (\<forall>n d env'. io_reads n env' r (arrive d r h') = Inr (arrive d r h'))"
proof -
  obtain h' where "io_read_step env r h = Inr h'" "reads (sk (sess h' r)) = []" "appMail h' = appMail h"
    using unknown_frame_deafens [OF assms, of env] by blast
  then show ?thesis using deaf_forever [of h' r] by blast
qed

theorem unrecognised_frame_deafens_witness:
  "\<exists>h'. io_read_step example_env 0 (arrive (zeros 138) 0 example_host) = Inr h' \<and>
    io_reads 9 example_env 0 (arrive (msg_bytes (example_chat (str ''hey''))) 0 h') =
      Inr (arrive (msg_bytes (example_chat (str ''hey''))) 0 h')"
  using unrecognised_frame_deafens [of "arrive (zeros 138) 0 example_host" 0 "zeros 138" "[]" example_env]
  by (auto simp: example_host_session msgtype_defs zeros_def)

theorem chat_taken_for_offer_witness:
  "\<exists>h'. io_read_step example_env 0 (arrive (msg_bytes (example_chat [97, 98, 9, 99])) 0 example_host) = Inr h' \<and>
     length (appMail h') = length (appMail example_host) + 2"
proof -
  let ?m = "example_chat [97, 98, 9, 99]"
  let ?h = "arrive (msg_bytes ?m) 0 example_host"
  have "mh_msgType (m_header ?m) = REG_CHATMESSAGE" "length (m_payload ?m) = 128"
      "unat (mh_dataLen (m_header ?m)) \<le> 128" "m_payload ?m ! 2 = REG_FILE_OFFER" "0 \<in> set (drop 11 (m_payload ?m))"
    by (simp_all add: example_chat_def msgtype_defs zeros_def)
  from chat_taken_for_offer [of ?h 0 ?m "[]" example_env, OF _ _ _ this] show ?thesis
    by (auto simp: example_host_session)
qed

text \<open>An acceptance starts the transfer to the peer the offer was made to, whatever session it came on.\<close>

lemma accept_answer_starts:
  assumes l: "listening (sess h r)" and est: "sstate (sess h r) = BVSESSIONSTATE_ESTABLISHED"
    and rx: "rx (sk (sess h r)) = control_frame now key REG_FILE_ACCEPT @ rest" and ok: "not_chat_time now"
    and offer: "map_of (pendingOutgoing_m h) key = Some (sid, fpath)" "map_of (sessions_m h) sid = Some q"
    and content: "fs_files (e_fs env) fpath = Some content"
  shows "\<exists>h'. io_read_step env r h = Inr h' \<and>
    map_of (fileTransferContext_m h') key =
      Some (BVFileTransferContext_ctor (fs_open_ok (e_fs env) fpath) content (path_filename fpath) key, q) \<and>
    map_of (pendingOutgoing_m h') key = None \<and> frame_stream rest (sess h' r) \<and> same_peer (sess h r) (sess h' r) \<and>
    (\<forall>x. x \<noteq> r \<longrightarrow> sess h' x = sess h x)"
proof -
  define h1 where "h1 = h\<lparr>pendingOutgoing_m := omap_erase key (pendingOutgoing_m h),
      fileTransferContext_m := omap_put key
        (BVFileTransferContext_ctor (fs_open_ok (e_fs env) fpath) content (path_filename fpath) key, q)
        (omap_erase key (fileTransferContext_m h))\<rparr>"
  have sig: "SignalFileTransfer (e_fs env) key True (set_sess r s h) = Inr (set_sess r s h1)" for s
    using offer content by (simp add: SignalFileTransfer_def RemoveFileTransferContext_def Let_def set_sess_def h1_def)
  have st: "frame_stream (control_frame now key (if True then REG_FILE_ACCEPT else REG_FILE_REJECT) @ rest) (sess h r)"
    using listening_stream [OF l] rx by simp
  from answer_step [OF st est ok sig] obtain s' where
      s': "io_read_step env r h = Inr (set_sess r s' h1)" "frame_stream rest s'" "same_peer (sess h r) s'"
    by blast
  then show ?thesis by (auto simp: h1_def set_sess_def)
qed

text \<open>An acceptance is not tied to the peer that was offered the file: any established peer that sends an ACCEPT frame with the key of a pending offer (keys count up from zero) starts the transfer of that file to the peer it was offered to.\<close>

theorem any_session_can_accept:
  assumes "listening (sess h r)" and "sstate (sess h r) = BVSESSIONSTATE_ESTABLISHED"
    and "rx (sk (sess h r)) = control_frame now key REG_FILE_ACCEPT @ rest" and "not_chat_time now"
    and "map_of (pendingOutgoing_m h) key = Some (sid, fpath)" "map_of (sessions_m h) sid = Some q" "q \<noteq> r"
    and "fs_files (e_fs env) fpath = Some content"
  shows "\<exists>h'. io_read_step env r h = Inr h' \<and> map_of (pendingOutgoing_m h') key = None \<and>
    map_of (fileTransferContext_m h') key =
      Some (BVFileTransferContext_ctor (fs_open_ok (e_fs env) fpath) content (path_filename fpath) key, q)"
  using accept_answer_starts [OF assms(1-6,8)] by blast

theorem any_session_can_accept_witness:
  "\<exists>h'. io_read_step example_env 1 (arrive (control_frame 5 3 REG_FILE_ACCEPT) 1
       (example_host\<lparr>pendingOutgoing_m := [(3, (0, str ''/w/notes.txt''))]\<rparr>)) = Inr h' \<and>
     map_option snd (map_of (fileTransferContext_m h') 3) = Some 0"
proof -
  let ?h = "arrive (control_frame 5 3 REG_FILE_ACCEPT) 1 (example_host\<lparr>pendingOutgoing_m := [(3, (0, str ''/w/notes.txt''))]\<rparr>)"
  have "sess (example_host\<lparr>pendingOutgoing_m := [(3, (0, str ''/w/notes.txt''))]\<rparr>) 1 = example_session (str ''alice'') []"
    by (simp add: example_host_def)
  then have "listening (sess ?h 1)" "sstate (sess ?h 1) = BVSESSIONSTATE_ESTABLISHED"
      "rx (sk (sess ?h 1)) = control_frame 5 3 REG_FILE_ACCEPT @ []"
    by simp_all
  moreover have "not_chat_time 5" by (simp add: not_chat_time_def msgtype_defs)
  moreover have "map_of (pendingOutgoing_m ?h) 3 = Some (0, str ''/w/notes.txt'')" "map_of (sessions_m ?h) 0 = Some 0"
      "fs_files (e_fs example_env) (str ''/w/notes.txt'') = Some [1, 2, 3]"
    by (simp_all add: example_host_def example_env_def example_fs_def)
  ultimately show ?thesis
    using any_session_can_accept [of ?h 1 5 3 "[]" 0 "str ''/w/notes.txt''" 0 example_env "[1, 2, 3]"] by auto
qed

end
