(* ===== verification/Threadsafe_Queue.thy ===== *)
theory Threadsafe_Queue
  imports LC_Prelude
begin

text \<open>
  \<open>include/threadsafequeue.hpp\<close>: the two-lock queue with a dummy node that carries every
  message between components. The nodes live in an explicit store; \<open>head\<close> is an owning
  pointer, \<open>tail\<close> a plain one. Each critical section is one operation. The abstraction
  \<open>tsq_list\<close> reads the queued values; the locale \<open>fifo\<close> is the contract the broker and the
  components rely on. The step relation \<open>tsq_step\<close> interleaves any number of producers
  and consumers at the granularity of the two mutexes.
\<close>

section \<open>Data\<close>

record 'a tsq_node =
  nd_data :: "'a option"
  nd_next :: "nat option"

record 'a tsq =
  q_nodes :: "nat \<Rightarrow> 'a tsq_node option"
  q_head :: "nat option"
  q_tail :: nat
  q_fresh :: nat  \<comment> \<open>the next address \<open>new\<close> returns\<close>

section \<open>Operations\<close>

definition tsq_new :: "'a tsq" where
  "tsq_new = \<lparr>q_nodes = [0 \<mapsto> \<lparr>nd_data = None, nd_next = None\<rparr>], q_head = Some 0, q_tail = 0,
     q_fresh = 1\<rparr>"

definition get_tail :: "'a tsq \<Rightarrow> nat" where
  "get_tail q = q_tail q"

definition pop_head :: "'a tsq \<Rightarrow> ('a tsq_node \<times> 'a tsq) result" where
  "pop_head q =
     (case q_head q of
        None \<Rightarrow> Inl Null_Deref
      | Some h \<Rightarrow>
          (case q_nodes q h of
             None \<Rightarrow> Inl Dangling
           | Some n \<Rightarrow> Inr (n, q\<lparr>q_head := nd_next n, q_nodes := (q_nodes q)(h := None)\<rparr>)))"

definition try_pop_head :: "'a tsq \<Rightarrow> ('a tsq_node option \<times> 'a tsq) result" where
  "try_pop_head q =
     (if q_head q = Some (get_tail q) then Inr (None, q)
      else rbind (pop_head q) (\<lambda>(n, q'). Inr (Some n, q')))"

definition try_pop :: "'a tsq \<Rightarrow> ('a option \<times> 'a tsq) result" where
  "try_pop q =
     rbind (try_pop_head q) (\<lambda>(old_head, q').
       Inr (case old_head of Some n \<Rightarrow> nd_data n | None \<Rightarrow> None, q'))"

text \<open>\<open>wait_for_data\<close> blocks while the queue is empty: \<open>None\<close> is "still waiting".\<close>

definition wait_for_data :: "'a tsq \<Rightarrow> 'a tsq option" where
  "wait_for_data q = (if q_head q \<noteq> Some (get_tail q) then Some q else None)"

definition wait_pop_head :: "'a tsq \<Rightarrow> ('a tsq_node \<times> 'a tsq) result option" where
  "wait_pop_head q = map_option pop_head (wait_for_data q)"

definition wait_and_pop :: "'a tsq \<Rightarrow> ('a option \<times> 'a tsq) result option" where
  "wait_and_pop q =
     map_option (\<lambda>r. rbind r (\<lambda>(old_head, q'). Inr (nd_data old_head, q'))) (wait_pop_head q)"

definition push :: "'a \<Rightarrow> 'a tsq \<Rightarrow> 'a tsq result" where
  "push new_data q =
     (let p = q_fresh q; t = q_tail q in
      case q_nodes q t of
        None \<Rightarrow> Inl Dangling
      | Some n \<Rightarrow>
          Inr (q\<lparr>q_nodes := (q_nodes q)
                  (p \<mapsto> \<lparr>nd_data = None, nd_next = None\<rparr>,
                   t \<mapsto> n\<lparr>nd_data := Some new_data, nd_next := Some p\<rparr>),
                 q_tail := p, q_fresh := Suc p\<rparr>))"

definition tsq_empty :: "'a tsq \<Rightarrow> bool" where
  "tsq_empty q \<longleftrightarrow> q_head q = Some (get_tail q)"

text \<open>Abstraction and representation invariant.\<close>

definition tsq_list :: "'a tsq \<Rightarrow> 'a list" where
  "tsq_list q =
     (case q_head q of
        None \<Rightarrow> []
      | Some h \<Rightarrow> List.map_filter (\<lambda>i. Option.bind (q_nodes q i) nd_data) [h ..< q_tail q])"

definition linked :: "'a tsq \<Rightarrow> nat \<Rightarrow> bool" where
  "linked q i \<longleftrightarrow> (\<exists>x. q_nodes q i = Some \<lparr>nd_data = Some x, nd_next = Some (Suc i)\<rparr>)"

definition tsq_inv :: "'a tsq \<Rightarrow> bool" where
  "tsq_inv q \<longleftrightarrow>
     (\<exists>h. q_head q = Some h \<and> h \<le> q_tail q \<and> q_fresh q = Suc (q_tail q) \<and>
        (\<forall>i \<in> {h ..< q_tail q}. linked q i) \<and>
        q_nodes q (q_tail q) = Some \<lparr>nd_data = None, nd_next = None\<rparr> \<and>
        dom (q_nodes q) = {h .. q_tail q})"

text \<open>Clients: push a sequence, pop a number of times.\<close>

fun push_all :: "('a \<Rightarrow> 'q \<Rightarrow> 'q result) \<Rightarrow> 'a list \<Rightarrow> 'q \<Rightarrow> 'q result" where
  "push_all psh [] q = Inr q"
| "push_all psh (x # xs) q = rbind (psh x q) (push_all psh xs)"

fun pop_n :: "('q \<Rightarrow> ('a option \<times> 'q) result) \<Rightarrow> nat \<Rightarrow> 'q \<Rightarrow> ('a option list \<times> 'q) result" where
  "pop_n pop 0 q = Inr ([], q)"
| "pop_n pop (Suc n) q =
     rbind (pop q) (\<lambda>(x, q'). rbind (pop_n pop n q') (\<lambda>(xs, q''). Inr (x # xs, q'')))"

text \<open>
  Interleavings. A consumer first takes \<open>head_mutex\<close>, then reads \<open>tail\<close> under
  \<open>tail_mutex\<close>, then compares and pops; producers run their \<open>tail_mutex\<close> section in
  between. \<open>pushed\<close> and \<open>popped\<close> record the history.
\<close>

record 'a tsq_conc =
  c_queue :: "'a tsq"
  c_owner :: "(nat \<times> nat option) option"  \<comment> \<open>holder of \<open>head_mutex\<close>, and the tail it read\<close>
  c_pushed :: "'a list"
  c_popped :: "'a option list"

definition tsq_conc_init :: "'a tsq_conc" where
  "tsq_conc_init = \<lparr>c_queue = tsq_new, c_owner = None, c_pushed = [], c_popped = []\<rparr>"

inductive tsq_step :: "'a tsq_conc \<Rightarrow> 'a tsq_conc \<Rightarrow> bool" where
  push_section: "push x (c_queue s) = Inr q \<Longrightarrow>
     tsq_step s (s\<lparr>c_queue := q, c_pushed := c_pushed s @ [x]\<rparr>)"
| lock_head: "c_owner s = None \<Longrightarrow> tsq_step s (s\<lparr>c_owner := Some (i, None)\<rparr>)"
| read_tail: "c_owner s = Some (i, None) \<Longrightarrow>
     tsq_step s (s\<lparr>c_owner := Some (i, Some (get_tail (c_queue s)))\<rparr>)"
| pop_section: "c_owner s = Some (i, Some t) \<Longrightarrow> q_head (c_queue s) \<noteq> Some t \<Longrightarrow>
     pop_head (c_queue s) = Inr (n, q) \<Longrightarrow>
     tsq_step s (s\<lparr>c_queue := q, c_owner := None, c_popped := c_popped s @ [nd_data n]\<rparr>)"
| found_empty: "c_owner s = Some (i, Some t) \<Longrightarrow> q_head (c_queue s) = Some t \<Longrightarrow>
     tsq_step s (s\<lparr>c_owner := None\<rparr>)"

inductive tsq_reach :: "'a tsq_conc \<Rightarrow> bool" where
  start: "tsq_reach tsq_conc_init"
| step: "tsq_reach s \<Longrightarrow> tsq_step s t \<Longrightarrow> tsq_reach t"

definition conc_inv :: "'a tsq_conc \<Rightarrow> bool" where
  "conc_inv s \<longleftrightarrow>
     tsq_inv (c_queue s) \<and>
     map Some (c_pushed s) = c_popped s @ map Some (tsq_list (c_queue s)) \<and>
     (case c_owner s of
        Some (i, Some t) \<Rightarrow> (\<exists>h. q_head (c_queue s) = Some h \<and> h \<le> t \<and> t \<le> q_tail (c_queue s))
      | _ \<Rightarrow> True)"

section \<open>The representation\<close>

lemma map_filter_cong:
  "(\<And>x. x \<in> set xs \<Longrightarrow> f x = g x) \<Longrightarrow> List.map_filter f xs = List.map_filter g xs"
  by (induction xs) (auto split: option.splits)

lemma map_filter_append:
  "List.map_filter f (xs @ ys) = List.map_filter f xs @ List.map_filter f ys"
  by (induction xs) (auto split: option.splits)

lemma tsq_inv_new: "tsq_inv tsq_new"
  by (auto simp: tsq_inv_def tsq_new_def)

lemma tsq_list_new: "tsq_list tsq_new = []"
  by (simp add: tsq_list_def tsq_new_def)

lemma push_total: "tsq_inv q \<Longrightarrow> \<exists>q'. push x q = Inr q'"
  by (auto simp: push_def tsq_inv_def Let_def)

lemma push_inv: "tsq_inv q \<Longrightarrow> push x q = Inr q' \<Longrightarrow> tsq_inv q'"
  by (auto simp: tsq_inv_def push_def Let_def linked_def less_Suc_eq split: if_splits)

lemma push_list: "tsq_inv q \<Longrightarrow> push x q = Inr q' \<Longrightarrow> tsq_list q' = tsq_list q @ [x]"
  by (auto simp: tsq_inv_def push_def Let_def tsq_list_def map_filter_append
      intro!: map_filter_cong)

lemma push_head: "push x q = Inr q' \<Longrightarrow> q_head q' = q_head q \<and> q_tail q \<le> q_tail q' \<or> \<not> tsq_inv q"
  by (auto simp: push_def Let_def tsq_inv_def split: option.splits)

lemma tsq_list_empty_iff:
  assumes "tsq_inv q"
  shows "tsq_list q = [] \<longleftrightarrow> q_head q = Some (q_tail q)"
proof -
  obtain h where h: "q_head q = Some h" "h \<le> q_tail q" "\<forall>i \<in> {h ..< q_tail q}. linked q i"
    using assms by (auto simp: tsq_inv_def)
  show ?thesis
  proof (cases "h < q_tail q")
    case True
    then obtain x where "q_nodes q h = Some \<lparr>nd_data = Some x, nd_next = Some (Suc h)\<rparr>"
      using h by (fastforce simp: linked_def)
    then show ?thesis
      using True h by (auto simp: tsq_list_def upt_conv_Cons)
  next
    case False
    then show ?thesis using h by (auto simp: tsq_list_def)
  qed
qed

lemma pop_head_nonempty:
  assumes "tsq_inv q" and "tsq_list q = x # xs"
  shows "\<exists>n q'. pop_head q = Inr (n, q') \<and> nd_data n = Some x \<and> tsq_inv q' \<and> tsq_list q' = xs \<and>
           q_head q' = Some (Suc (the (q_head q))) \<and> q_tail q' = q_tail q"
proof -
  obtain h where h: "q_head q = Some h" "h \<le> q_tail q" "\<forall>i \<in> {h ..< q_tail q}. linked q i"
      "dom (q_nodes q) = {h .. q_tail q}"
    using assms(1) by (auto simp: tsq_inv_def)
  with assms(2) have lt: "h < q_tail q"
    by (cases "h = q_tail q") (auto simp: tsq_list_def)
  with h obtain y where y: "q_nodes q h = Some \<lparr>nd_data = Some y, nd_next = Some (Suc h)\<rparr>"
    by (fastforce simp: linked_def)
  let ?q = "q\<lparr>q_head := Some (Suc h), q_nodes := (q_nodes q)(h := None)\<rparr>"
  have rest: "List.map_filter (\<lambda>i. Option.bind (((q_nodes q)(h := None)) i) nd_data) [Suc h ..< q_tail q]
      = List.map_filter (\<lambda>i. Option.bind (q_nodes q i) nd_data) [Suc h ..< q_tail q]"
    by (rule map_filter_cong) auto
  have "tsq_list q = y # List.map_filter (\<lambda>i. Option.bind (q_nodes q i) nd_data) [Suc h ..< q_tail q]"
    using h lt y by (simp add: tsq_list_def upt_conv_Cons)
  with assms(2) rest have "y = x" and "tsq_list ?q = xs"
    by (auto simp: tsq_list_def)
  moreover have "tsq_inv ?q"
    using assms(1) h lt by (auto simp: tsq_inv_def linked_def)
  ultimately show ?thesis
    using h y by (simp add: pop_head_def)
qed

lemma try_pop_empty: "tsq_inv q \<Longrightarrow> tsq_list q = [] \<Longrightarrow> try_pop q = Inr (None, q)"
  by (simp add: try_pop_def try_pop_head_def get_tail_def tsq_list_empty_iff)

lemma try_pop_nonempty:
  assumes "tsq_inv q" and "tsq_list q = x # xs"
  shows "\<exists>q'. try_pop q = Inr (Some x, q') \<and> tsq_inv q' \<and> tsq_list q' = xs"
proof -
  have "q_head q \<noteq> Some (q_tail q)"
    using assms tsq_list_empty_iff by fastforce
  with pop_head_nonempty [OF assms] show ?thesis
    by (auto simp: try_pop_def try_pop_head_def get_tail_def)
qed

lemma wait_and_pop_blocks: "tsq_inv q \<Longrightarrow> wait_and_pop q = None \<longleftrightarrow> tsq_list q = []"
  by (auto simp: wait_and_pop_def wait_pop_head_def wait_for_data_def get_tail_def
      tsq_list_empty_iff)

lemma wait_and_pop_nonempty:
  assumes "tsq_inv q" and "tsq_list q = x # xs"
  shows "\<exists>q'. wait_and_pop q = Some (Inr (Some x, q')) \<and> tsq_inv q' \<and> tsq_list q' = xs"
proof -
  have "q_head q \<noteq> Some (q_tail q)"
    using assms tsq_list_empty_iff by fastforce
  with pop_head_nonempty [OF assms] show ?thesis
    by (auto simp: wait_and_pop_def wait_pop_head_def wait_for_data_def get_tail_def)
qed

section \<open>The contract of a message queue\<close>

locale fifo =
  fixes new :: 'q
    and psh :: "'a \<Rightarrow> 'q \<Rightarrow> 'q result"
    and pop :: "'q \<Rightarrow> ('a option \<times> 'q) result"
    and content :: "'q \<Rightarrow> 'a list"
    and invar :: "'q \<Rightarrow> bool"
  assumes invar_new: "invar new"
    and content_new: "content new = []"
    and psh_ok: "invar q \<Longrightarrow> \<exists>q'. psh x q = Inr q' \<and> invar q' \<and> content q' = content q @ [x]"
    and pop_empty: "invar q \<Longrightarrow> content q = [] \<Longrightarrow> pop q = Inr (None, q)"
    and pop_ok: "invar q \<Longrightarrow> content q = x # xs \<Longrightarrow>
       \<exists>q'. pop q = Inr (Some x, q') \<and> invar q' \<and> content q' = xs"
begin

lemma push_all_ok:
  "invar q \<Longrightarrow> \<exists>q'. push_all psh xs q = Inr q' \<and> invar q' \<and> content q' = content q @ xs"
proof (induction xs arbitrary: q)
  case Nil
  then show ?case by simp
next
  case (Cons x xs)
  from psh_ok [OF Cons.prems, of x] obtain q1
    where q1: "psh x q = Inr q1" "invar q1" "content q1 = content q @ [x]" by blast
  from Cons.IH [OF q1(2)] q1 show ?case by auto
qed

lemma pop_n_ok:
  "invar q \<Longrightarrow> content q = xs @ ys \<Longrightarrow>
     \<exists>q'. pop_n pop (length xs) q = Inr (map Some xs, q') \<and> invar q' \<and> content q' = ys"
proof (induction xs arbitrary: q)
  case Nil
  then show ?case by simp
next
  case (Cons x xs)
  from pop_ok [OF Cons.prems(1)] Cons.prems(2) obtain q1
    where q1: "pop q = Inr (Some x, q1)" "invar q1" "content q1 = xs @ ys" by fastforce
  from Cons.IH [OF q1(2,3)] q1 show ?case by auto
qed

lemma fifo_order:
  "\<exists>q q'. push_all psh xs new = Inr q \<and> pop_n pop (length xs) q = Inr (map Some xs, q') \<and>
     pop q' = Inr (None, q')"
proof -
  obtain q where q: "push_all psh xs new = Inr q" "invar q" "content q = xs @ []"
    using push_all_ok [OF invar_new] content_new by fastforce
  from pop_n_ok [OF q(2,3)] obtain q'
    where "pop_n pop (length xs) q = Inr (map Some xs, q')" "invar q'" "content q' = []" by blast
  with q pop_empty show ?thesis by blast
qed

end

interpretation tsq: fifo tsq_new push try_pop tsq_list tsq_inv
proof unfold_locales
  show "tsq_inv tsq_new" by (rule tsq_inv_new)
  show "tsq_list tsq_new = []" by (rule tsq_list_new)
  show "\<exists>q'. push x q = Inr q' \<and> tsq_inv q' \<and> tsq_list q' = tsq_list q @ [x]"
    if "tsq_inv q" for q :: "'a tsq" and x
    using that push_total push_inv push_list by metis
  show "try_pop q = Inr (None, q)" if "tsq_inv q" "tsq_list q = []" for q :: "'a tsq"
    using that by (rule try_pop_empty)
  show "\<exists>q'. try_pop q = Inr (Some x, q') \<and> tsq_inv q' \<and> tsq_list q' = xs"
    if "tsq_inv q" "tsq_list q = x # xs" for q :: "'a tsq" and x xs
    using that by (rule try_pop_nonempty)
qed

section \<open>Interleavings\<close>

lemma conc_inv_init: "conc_inv tsq_conc_init"
  by (simp add: conc_inv_def tsq_conc_init_def tsq_inv_new tsq_list_new)

lemma push_keeps_conc_inv:
  assumes inv: "conc_inv s" and p: "push x (c_queue s) = Inr q"
  shows "conc_inv (s\<lparr>c_queue := q, c_pushed := c_pushed s @ [x]\<rparr>)"
proof -
  have i: "tsq_inv (c_queue s)" using inv by (simp add: conc_inv_def)
  from push_inv [OF i p] push_list [OF i p] push_head [OF p] i inv show ?thesis
    by (auto simp: conc_inv_def split: option.splits prod.splits)
qed

lemma pop_keeps_conc_inv:
  assumes inv: "conc_inv s" and own: "c_owner s = Some (i, Some t)"
    and ne: "q_head (c_queue s) \<noteq> Some t" and pop: "pop_head (c_queue s) = Inr (n, q)"
  shows "conc_inv (s\<lparr>c_queue := q, c_owner := None, c_popped := c_popped s @ [nd_data n]\<rparr>)"
proof -
  obtain h where h: "q_head (c_queue s) = Some h" "h < q_tail (c_queue s)"
    using inv own ne by (fastforce simp: conc_inv_def)
  have i: "tsq_inv (c_queue s)" using inv by (simp add: conc_inv_def)
  with h obtain x xs where l: "tsq_list (c_queue s) = x # xs"
    using tsq_list_empty_iff [OF i] by (cases "tsq_list (c_queue s)") auto
  from pop_head_nonempty [OF i l] pop have "nd_data n = Some x" "tsq_inv q" "tsq_list q = xs"
    by auto
  with inv l show ?thesis by (simp add: conc_inv_def)
qed

lemma tsq_step_inv: "tsq_step s t \<Longrightarrow> conc_inv s \<Longrightarrow> conc_inv t"
proof (induction rule: tsq_step.induct)
  case (push_section x s q)
  then show ?case by (blast intro: push_keeps_conc_inv)
next
  case (pop_section s i t n q)
  then show ?case by (blast intro: pop_keeps_conc_inv)
qed (auto simp: conc_inv_def tsq_inv_def get_tail_def)

lemma tsq_reach_inv: "tsq_reach s \<Longrightarrow> conc_inv s"
  by (induction rule: tsq_reach.induct) (auto intro: conc_inv_init tsq_step_inv)

section \<open>Properties\<close>

text \<open>Whatever is pushed into a new queue comes out of \<open>try_pop\<close> once each and in the same order, and then the queue reports that it is empty.\<close>

theorem queue_fifo:
  "\<exists>q q'. push_all push xs tsq_new = Inr q \<and> pop_n try_pop (length xs) q = Inr (map Some xs, q') \<and>
     try_pop q' = Inr (None, q')"
  by (rule tsq.fifo_order)

lemma tsq_reach_history:
  assumes "tsq_reach s"
  shows "map Some (c_pushed s) = c_popped s @ map Some (tsq_list (c_queue s))"
  using tsq_reach_inv [OF assms] by (simp add: conc_inv_def)

text \<open>C15: in every interleaving of any number of producers and consumers, at the granularity of the two mutexes, the values popped so far are exactly the first values pushed, in order, and the rest is still queued: nothing is lost, duplicated or reordered.\<close>

theorem queue_linearizable:
  assumes "tsq_reach s"
  shows "c_popped s = map Some (take (length (c_popped s)) (c_pushed s)) \<and>
    tsq_list (c_queue s) = drop (length (c_popped s)) (c_pushed s)"
proof -
  have eq: "map Some (c_pushed s) = c_popped s @ map Some (tsq_list (c_queue s))"
    by (rule tsq_reach_history [OF assms])
  have "map Some (take (length (c_popped s)) (c_pushed s)) = c_popped s"
    using arg_cong [OF eq, of "take (length (c_popped s))"] by (simp add: take_map)
  moreover have "map Some (drop (length (c_popped s)) (c_pushed s)) = map Some (tsq_list (c_queue s))"
    using arg_cong [OF eq, of "drop (length (c_popped s))"] by (simp add: drop_map)
  ultimately show ?thesis by (simp add: inj_map_eq_map)
qed

text \<open>A run: a producer pushes, a consumer locks, reads the tail, and pops.\<close>

definition example_pushed :: "nat tsq" where
  "example_pushed = \<lparr>q_nodes = [1 \<mapsto> \<lparr>nd_data = None, nd_next = None\<rparr>, 0 \<mapsto> \<lparr>nd_data = Some 7, nd_next = Some 1\<rparr>],
     q_head = Some 0, q_tail = 1, q_fresh = 2\<rparr>"

definition example_popped :: "nat tsq" where
  "example_popped = \<lparr>q_nodes = [1 \<mapsto> \<lparr>nd_data = None, nd_next = None\<rparr>],
     q_head = Some 1, q_tail = 1, q_fresh = 2\<rparr>"

lemma example_push: "push 7 tsq_new = Inr example_pushed"
  by (simp add: push_def tsq_new_def example_pushed_def fun_eq_iff)

lemma example_pop: "pop_head example_pushed = Inr (\<lparr>nd_data = Some 7, nd_next = Some 1\<rparr>, example_popped)"
  by (simp add: pop_head_def example_pushed_def example_popped_def fun_eq_iff)

lemma example_locked: "tsq_reach \<lparr>c_queue = example_pushed, c_owner = Some (0, Some 1), c_pushed = [7], c_popped = []\<rparr>"
proof -
  have 1: "tsq_reach (tsq_conc_init\<lparr>c_queue := example_pushed, c_pushed := c_pushed tsq_conc_init @ [7]\<rparr>)"
    by (intro tsq_reach.step [OF tsq_reach.start] push_section) (simp add: tsq_conc_init_def example_push)
  have 2: "tsq_reach (tsq_conc_init\<lparr>c_queue := example_pushed, c_pushed := c_pushed tsq_conc_init @ [7], c_owner := Some (0, None)\<rparr>)"
    by (rule tsq_reach.step [OF 1], rule lock_head) (simp add: tsq_conc_init_def)
  show ?thesis
    using tsq_reach.step [OF 2 read_tail [of _ 0]]
    by (simp add: tsq_conc_init_def get_tail_def example_pushed_def)
qed

lemma example_done: "tsq_reach \<lparr>c_queue = example_popped, c_owner = None, c_pushed = [7], c_popped = [Some 7]\<rparr>"
  using tsq_reach.step [OF example_locked pop_section [of _ 0 1 "\<lparr>nd_data = Some 7, nd_next = Some 1\<rparr>" example_popped]] example_pop
  by (simp add: example_pushed_def)

theorem queue_linearizable_witness:
  "tsq_list example_popped = drop 1 [7]"
  using queue_linearizable [OF example_done] by simp

text \<open>C31: in every interleaving the critical section of a consumer that saw a non-empty queue
  neither dereferences null nor touches a freed node.
\<close>

theorem pop_section_safe:
  assumes "tsq_reach s" and "c_owner s = Some (i, Some t)" and "q_head (c_queue s) \<noteq> Some t"
  shows "\<exists>n q x. pop_head (c_queue s) = Inr (n, q) \<and> nd_data n = Some x"
proof -
  have inv: "conc_inv s" using assms(1) by (rule tsq_reach_inv)
  then obtain h where h: "q_head (c_queue s) = Some h" "h < q_tail (c_queue s)"
    using assms by (fastforce simp: conc_inv_def)
  have i: "tsq_inv (c_queue s)" using inv by (simp add: conc_inv_def)
  with h obtain x xs where "tsq_list (c_queue s) = x # xs"
    using tsq_list_empty_iff [OF i] by (cases "tsq_list (c_queue s)") auto
  from pop_head_nonempty [OF i this] show ?thesis by blast
qed

theorem pop_section_safe_witness:
  "\<exists>n q x. pop_head example_pushed = Inr (n, q) \<and> nd_data n = Some x"
  using pop_section_safe [OF example_locked, of 0 1] by (simp add: example_pushed_def)


lemma example_pushed_inv [simp]: "tsq_inv example_pushed"
  by (rule push_inv [OF tsq_inv_new example_push])

lemma example_pushed_list [simp]: "tsq_list example_pushed = [7]"
  using push_list [OF tsq_inv_new example_push] by (simp add: tsq_list_new)

end
