(* ===== verification/Message_Broker.thy ===== *)
theory Message_Broker
  imports Threadsafe_Queue Common_Types
begin

text \<open>
  The message bus: \<open>BVBroker\<close> (\<open>src/BVBroker.cpp\<close>, \<open>include/BVBroker.hpp\<close>) and the mailbox loop of
  \<open>BVComponent\<close> (\<open>include/BVComponent.hpp\<close>). Queues and messages are objects behind
  \<open>shared_ptr\<close>s, so the model has a store of each: routing one message to two mailboxes
  puts the same reference into both, and the receiver's \<open>std::move (msg->data_p)\<close> empties the
  shared object. The queues are those of \<open>Threadsafe_Queue\<close>.
\<close>

section \<open>State\<close>

record broker =
  mailbox_m :: "(u8, nat option) omap"  \<comment> \<open>subscriber id to queue, or a null pointer\<close>
  subs_m :: "(BVEventType, u8 list) omap"
  b_inMailBox :: nat
  numOfSubscribersRegistered :: u8
  currentSubscriberId :: u8
  b_isRunning :: bool

record bus =
  brok :: broker
  queues :: "nat \<Rightarrow> nat tsq"  \<comment> \<open>queue objects; they hold message references\<close>
  nextq :: nat
  msgs :: "nat \<Rightarrow> BVMessage"
  nextm :: nat

record component =
  comp_id :: u8
  comp_out :: nat
  comp_in :: nat
  comp_listening :: bool

text \<open>
  \<open>callback_m\<close>: the handler of each event, if any. A handler takes the payload and returns a
  status, or an exception leaves it.
\<close>

type_synonym 's handlers = "BVEventType \<Rightarrow> (any option \<Rightarrow> 's \<Rightarrow> (BVStatus \<times> 's) result) option"

section \<open>The broker\<close>

definition BVBroker_ctor :: "nat \<Rightarrow> broker" where
  "BVBroker_ctor q =
     \<lparr>mailbox_m = map (\<lambda>i. (word_of_nat i, None)) [0..<255], subs_m = [], b_inMailBox = q,
      numOfSubscribersRegistered = 0, currentSubscriberId = 0, b_isRunning = True\<rparr>"

text \<open>\<open>mailbox_m[id]\<close> inserts a null pointer for an absent key.\<close>

definition touch :: "u8 \<Rightarrow> broker \<Rightarrow> broker" where
  "touch sid b =
     (case map_of (mailbox_m b) sid of
        None \<Rightarrow> b\<lparr>mailbox_m := omap_put sid None (mailbox_m b)\<rparr>
      | Some _ \<Rightarrow> b)"

text \<open>\<open>it != end () && it->second\<close>: the queue of an attached subscriber.\<close>

definition slot :: "broker \<Rightarrow> u8 \<Rightarrow> nat option" where
  "slot b sid = (case map_of (mailbox_m b) sid of Some (Some q) \<Rightarrow> Some q | _ \<Rightarrow> None)"

function cycle_loop :: "u8 \<Rightarrow> nat \<Rightarrow> broker \<Rightarrow> bool \<times> broker" where
  "cycle_loop start i b =
     (if i \<le> 255 then
        (let sid = word_of_nat ((unat start + 1 + i) mod 256);
             b = touch sid (b\<lparr>currentSubscriberId := sid\<rparr>)
         in if slot b sid = None then (True, b) else cycle_loop start (Suc i) b)
      else (False, b))"
  by pat_completeness auto
termination
  by (relation "measure (\<lambda>(start, i, b). 256 - i)") auto

declare cycle_loop.simps [simp del]

definition CycleCurrentSubscriberId :: "broker \<Rightarrow> bool \<times> broker" where
  "CycleCurrentSubscriberId b = cycle_loop (currentSubscriberId b) 0 b"

definition Attach :: "component \<Rightarrow> bus \<Rightarrow> BVStatus \<times> component \<times> bus" where
  "Attach c w =
     (if unat (numOfSubscribersRegistered (brok w)) \<ge> 255 + 1 then (BVSTATUS_MAX_COMPONENTS, c, w)
      else
        (case (if slot (brok w) (currentSubscriberId (brok w)) \<noteq> None
               then CycleCurrentSubscriberId (brok w) else (True, brok w)) of
           (ok, b) \<Rightarrow>
             (if \<not> ok then (BVSTATUS_MAX_COMPONENTS, c, w\<lparr>brok := b\<rparr>)
              else
                (let sid = currentSubscriberId b; q = nextq w;
                     c = c\<lparr>comp_id := sid, comp_out := b_inMailBox b, comp_in := q\<rparr>;
                     b = b\<lparr>mailbox_m := omap_put sid (Some q) (mailbox_m b),
                            numOfSubscribersRegistered := numOfSubscribersRegistered b + 1\<rparr>
                 in (BVSTATUS_OK, c,
                     w\<lparr>brok := snd (CycleCurrentSubscriberId b),
                       queues := (queues w)(q := tsq_new), nextq := Suc q\<rparr>)))))"

text \<open>\<open>vec.erase (std::remove (\<dots>, sid), \<dots>)\<close> on every entry; an entry that becomes empty goes.\<close>

definition drop_sid :: "u8 \<Rightarrow> (BVEventType, u8 list) omap \<Rightarrow> (BVEventType, u8 list) omap" where
  "drop_sid sid m = filter (\<lambda>p. snd p \<noteq> []) (map (\<lambda>(e, v). (e, removeAll sid v)) m)"

definition Detach :: "u8 \<Rightarrow> broker \<Rightarrow> BVStatus \<times> broker" where
  "Detach sid b =
     (if slot b sid = None then (BVSTATUS_FATAL_ERROR, b)
      else (BVSTATUS_OK,
            b\<lparr>mailbox_m := omap_put sid None (mailbox_m b),
               numOfSubscribersRegistered := numOfSubscribersRegistered b - 1,
               subs_m := drop_sid sid (subs_m b)\<rparr>))"

definition subscribers :: "broker \<Rightarrow> BVEventType \<Rightarrow> u8 list" where
  "subscribers b e = (case map_of (subs_m b) e of None \<Rightarrow> [] | Some v \<Rightarrow> v)"

definition add_sub :: "u8 \<Rightarrow> BVEventType \<Rightarrow> broker \<Rightarrow> broker" where
  "add_sub sid e b =
     (let vec = subscribers b e in
      b\<lparr>subs_m := omap_put e (if sid \<in> set vec then vec else vec @ [sid]) (subs_m b)\<rparr>)"

definition Subscribe :: "u8 \<Rightarrow> BVEventType \<Rightarrow> broker \<Rightarrow> BVStatus \<times> broker" where
  "Subscribe sid e b =
     (if slot b sid = None then (BVSTATUS_FATAL_ERROR, b) else (BVSTATUS_OK, add_sub sid e b))"

definition Subscribe_all :: "u8 \<Rightarrow> BVEventType list \<Rightarrow> broker \<Rightarrow> BVStatus \<times> broker" where
  "Subscribe_all sid es b =
     (if slot b sid = None then (BVSTATUS_FATAL_ERROR, b) else (BVSTATUS_OK, fold (add_sub sid) es b))"

definition Unsubscribe :: "u8 \<Rightarrow> BVEventType \<Rightarrow> broker \<Rightarrow> BVStatus \<times> broker" where
  "Unsubscribe sid e b =
     (case map_of (subs_m b) e of
        None \<Rightarrow> (BVSTATUS_OK, b)
      | Some vec \<Rightarrow>
          (let vec = removeAll sid vec in
           (BVSTATUS_OK,
            b\<lparr>subs_m := (if vec = [] then omap_erase e (subs_m b) else omap_put e vec (subs_m b))\<rparr>)))"

definition Unsubscribe_all :: "u8 \<Rightarrow> BVEventType list \<Rightarrow> broker \<Rightarrow> BVStatus \<times> broker" where
  "Unsubscribe_all sid es b = (BVSTATUS_OK, fold (\<lambda>e b. snd (Unsubscribe sid e b)) es b)"

definition GetSubscriberIDVectorFromEventType :: "BVEventType \<Rightarrow> broker \<Rightarrow> u8 list" where
  "GetSubscriberIDVectorFromEventType e b = subscribers b e"

definition Stop :: "broker \<Rightarrow> BVStatus \<times> broker" where
  "Stop b = (BVSTATUS_OK, b\<lparr>mailbox_m := [], subs_m := []\<rparr>)"

fun route_loop :: "nat \<Rightarrow> u8 list \<Rightarrow> bus \<Rightarrow> bus result" where
  "route_loop m [] w = Inr w"
| "route_loop m (sid # sids) w =
     (case slot (brok w) sid of
        None \<Rightarrow> route_loop m sids w
      | Some q \<Rightarrow>
          rbind (push m (queues w q)) (\<lambda>q'. route_loop m sids (w\<lparr>queues := (queues w)(q := q')\<rparr>)))"

definition Route :: "nat \<Rightarrow> bus \<Rightarrow> (BVStatus \<times> bus) result" where
  "Route m w =
     (let v = subscribers (brok w) (event_t (msgs w m)) in
      if v = [] then Inr (BVSTATUS_OK, w)
      else rbind (route_loop m v w) (\<lambda>w'. Inr (BVSTATUS_OK, w')))"

text \<open>
  The broker's thread. \<open>None\<close> is "blocked in \<open>wait_and_pop\<close> for ever": with nobody pushing
  any more, that is what an empty in-box means. The result of \<open>Route\<close> is not used.
\<close>

partial_function (option) Run :: "bus \<Rightarrow> bus result option" where
  "Run w =
     (if b_isRunning (brok w) then
        Option.bind (wait_and_pop (queues w (b_inMailBox (brok w))))
          (\<lambda>r. case r of
              Inl e \<Rightarrow> Some (Inl e)
            | Inr (msg_p, q) \<Rightarrow>
                (let w = w\<lparr>queues := (queues w)(b_inMailBox (brok w) := q)\<rparr> in
                 case msg_p of
                   None \<Rightarrow> Run w
                 | Some m \<Rightarrow>
                     (let w = (if event_t (msgs w m) = BVEVENTTYPE_TERMINATE_ALL
                               then w\<lparr>brok := (brok w)\<lparr>b_isRunning := False\<rparr>\<rparr> else w)
                      in case Route m w of Inl e \<Rightarrow> Some (Inl e) | Inr (st, w') \<Rightarrow> Run w')))
      else Some (Inr w))"

text \<open>One round of that loop.\<close>

definition broker_step :: "bus \<Rightarrow> bus result option" where
  "broker_step w =
     Option.bind (wait_and_pop (queues w (b_inMailBox (brok w))))
       (\<lambda>r. case r of
           Inl e \<Rightarrow> Some (Inl e)
         | Inr (msg_p, q) \<Rightarrow>
             (let w = w\<lparr>queues := (queues w)(b_inMailBox (brok w) := q)\<rparr> in
              case msg_p of
                None \<Rightarrow> Some (Inr w)
              | Some m \<Rightarrow>
                  (let w = (if event_t (msgs w m) = BVEVENTTYPE_TERMINATE_ALL
                            then w\<lparr>brok := (brok w)\<lparr>b_isRunning := False\<rparr>\<rparr> else w)
                   in Some (rbind (Route m w) (\<lambda>(st, w'). Inr w')))))"

section \<open>Components\<close>

definition SendMessage :: "component \<Rightarrow> BVMessage \<Rightarrow> bus \<Rightarrow> (BVStatus \<times> bus) result" where
  "SendMessage c m w =
     rbind (push (nextm w) (queues w (comp_out c))) (\<lambda>q.
       Inr (BVSTATUS_OK, w\<lparr>queues := (queues w)(comp_out c := q), msgs := (msgs w)(nextm w := m),
                           nextm := Suc (nextm w)\<rparr>))"

text \<open>
  One message of \<open>ListenToMail\<close> over the component's own state: \<open>cb\<close> is its table of
  handlers, and the handler is given the payload moved out of the message. The result says
  whether the loop goes on.
\<close>

definition dispatch_mail ::
  "'s handlers \<Rightarrow> nat \<Rightarrow> bus \<Rightarrow> 's \<Rightarrow>
     (bool \<times> bus \<times> 's) result" where
  "dispatch_mail cb m w s =
     (case cb (event_t (msgs w m)) of
        None \<Rightarrow> Inl Runtime_Error
      | Some h \<Rightarrow>
          rbind (h (data_p (msgs w m)) s) (\<lambda>(st, s').
            if st \<noteq> BVSTATUS_OK then Inl Runtime_Error
            else Inr (\<not> (event_t (msgs w m) = BVEVENTTYPE_TERMINATE_ALL \<or>
                          event_t (msgs w m) = BVEVENTTYPE_TEST_REQUEST_SHUTDOWN),
                      w\<lparr>msgs := (msgs w)(m := (msgs w m)\<lparr>data_p := None\<rparr>)\<rparr>, s')))"

definition listen_step ::
  "'s handlers \<Rightarrow> component \<Rightarrow> bus \<times> 's \<Rightarrow>
     (bool \<times> bus \<times> 's) result option" where
  "listen_step cb c ws =
     (case ws of
        (w, s) \<Rightarrow>
          map_option
            (\<lambda>r. rbind r (\<lambda>(msg_p, q).
               (case msg_p of
                  None \<Rightarrow> Inl Null_Deref
                | Some m \<Rightarrow> dispatch_mail cb m (w\<lparr>queues := (queues w)(comp_in c := q)\<rparr>) s)))
            (wait_and_pop (queues w (comp_in c))))"

partial_function (option) ListenToMail ::
  "'s handlers \<Rightarrow> component \<Rightarrow> bus \<times> 's \<Rightarrow>
     (bus \<times> 's) result option" where
  "ListenToMail cb c ws =
     (if comp_listening c then
        Option.bind (listen_step cb c ws)
          (\<lambda>r. case r of
              Inl e \<Rightarrow> Some (Inl e)
            | Inr (go_on, ws') \<Rightarrow> (if go_on then ListenToMail cb c ws' else Some (Inr ws')))
      else Some (Inr ws))"

section \<open>Invariant\<close>

definition attached :: "broker \<Rightarrow> u8 set" where
  "attached b = {sid. slot b sid \<noteq> None}"

definition broker_inv :: "broker \<Rightarrow> bool" where
  "broker_inv b \<longleftrightarrow>
     omap_inv (mailbox_m b) \<and> omap_inv (subs_m b) \<and>
     (\<forall>(e, v) \<in> set (subs_m b). v \<noteq> [] \<and> distinct v \<and> set v \<subseteq> attached b) \<and>
     numOfSubscribersRegistered b = word_of_nat (card (attached b))"

definition bus_inv :: "bus \<Rightarrow> bool" where
  "bus_inv w \<longleftrightarrow>
     broker_inv (brok w) \<and> (\<forall>q. tsq_inv (queues w q)) \<and>
     (\<forall>a b q. slot (brok w) a = Some q \<longrightarrow> slot (brok w) b = Some q \<longrightarrow> a = b) \<and>
     (\<forall>a q. slot (brok w) a = Some q \<longrightarrow> q < nextq w \<and> q \<noteq> b_inMailBox (brok w)) \<and>
     b_inMailBox (brok w) < nextq w"

text \<open>The messages waiting in a subscriber's mailbox, and in the broker's.\<close>

definition mailbox :: "bus \<Rightarrow> u8 \<Rightarrow> nat list" where
  "mailbox w sid = (case slot (brok w) sid of None \<Rightarrow> [] | Some q \<Rightarrow> tsq_list (queues w q))"

definition inbox :: "bus \<Rightarrow> nat list" where
  "inbox w = tsq_list (queues w (b_inMailBox (brok w)))"

definition subscribed :: "bus \<Rightarrow> u8 \<Rightarrow> nat \<Rightarrow> bool" where
  "subscribed w sid m \<longleftrightarrow> sid \<in> set (subscribers (brok w) (event_t (msgs w m)))"

definition same_but_current :: "broker \<Rightarrow> broker \<Rightarrow> bool" where
  "same_but_current b b' \<longleftrightarrow>
     slot b' = slot b \<and> subs_m b' = subs_m b \<and> b_inMailBox b' = b_inMailBox b \<and>
     numOfSubscribersRegistered b' = numOfSubscribersRegistered b \<and> b_isRunning b' = b_isRunning b \<and>
     (omap_inv (mailbox_m b) \<longrightarrow> omap_inv (mailbox_m b'))"

text \<open>
  What a component's mailbox thread amounts to: the handlers in the order of the messages, up to
  a shutdown, an exception, or the end of the mail (\<open>None\<close>: it waits for more).
\<close>

fun handle_all ::
  "'s handlers \<Rightarrow> BVMessage list \<Rightarrow> 's \<Rightarrow> 's result option" where
  "handle_all cb [] s = None"
| "handle_all cb (m # ms) s =
     (case cb (event_t m) of
        None \<Rightarrow> Some (Inl Runtime_Error)
      | Some h \<Rightarrow>
          (case h (data_p m) s of
             Inl e \<Rightarrow> Some (Inl e)
           | Inr (st, s') \<Rightarrow>
               (if st \<noteq> BVSTATUS_OK then Some (Inl Runtime_Error)
                else if event_t m \<in> {BVEVENTTYPE_TERMINATE_ALL, BVEVENTTYPE_TEST_REQUEST_SHUTDOWN}
                then Some (Inr s')
                else handle_all cb ms s')))"

text \<open>The same up to a point in the mail, with the state it leads to.\<close>

fun run_mail :: "'s handlers \<Rightarrow> BVMessage list \<Rightarrow> 's \<Rightarrow> 's result" where
  "run_mail cb [] s = Inr s"
| "run_mail cb (m # ms) s =
     (case cb (event_t m) of
        None \<Rightarrow> Inl Runtime_Error
      | Some h \<Rightarrow>
          rbind (h (data_p m) s) (\<lambda>(st, s').
            if st \<noteq> BVSTATUS_OK then Inl Runtime_Error else run_mail cb ms s'))"

section \<open>Slots and the search for a free one\<close>

lemma slot_touch [simp]: "slot (touch sid b) x = slot b x"
  by (auto simp: slot_def touch_def split: option.splits)

lemma touch_fields [simp]:
  "subs_m (touch sid b) = subs_m b" "b_inMailBox (touch sid b) = b_inMailBox b"
  "numOfSubscribersRegistered (touch sid b) = numOfSubscribersRegistered b"
  "currentSubscriberId (touch sid b) = currentSubscriberId b"
  "b_isRunning (touch sid b) = b_isRunning b"
  by (auto simp: touch_def split: option.splits)

lemma slot_cong [simp]:
  "slot (b\<lparr>currentSubscriberId := x\<rparr>) = slot b" "slot (b\<lparr>numOfSubscribersRegistered := n\<rparr>) = slot b"
  "slot (b\<lparr>subs_m := m\<rparr>) = slot b" "slot (b\<lparr>b_isRunning := r\<rparr>) = slot b"
  by (auto simp: slot_def fun_eq_iff)

lemma slot_put [simp]:
  "slot (b\<lparr>mailbox_m := omap_put sid v (mailbox_m b)\<rparr>) = (slot b)(sid := v)"
  by (auto simp: slot_def fun_eq_iff split: option.splits)

lemma omap_inv_touch [simp]: "omap_inv (mailbox_m b) \<Longrightarrow> omap_inv (mailbox_m (touch sid b))"
  by (auto simp: touch_def split: option.splits)

lemma same_but_current_refl [simp]: "same_but_current b b"
  by (simp add: same_but_current_def)

lemma same_but_current_trans:
  "same_but_current a b \<Longrightarrow> same_but_current b c \<Longrightarrow> same_but_current a c"
  by (simp add: same_but_current_def)

lemma same_but_current_slot: "same_but_current b b' \<Longrightarrow> slot b' = slot b"
  by (simp add: same_but_current_def)

lemma cycle_id: "word_of_nat ((unat (start :: u8) + 1 + i) mod 256) = start + 1 + word_of_nat i"
proof -
  have "word_of_nat (n mod 256) = (word_of_nat n :: u8)" for n
    by (simp add: word_of_nat_eq_iff take_bit_eq_mod)
  then show ?thesis
    by (simp only: of_nat_add of_nat_1 of_nat_unat ucast_id)
qed

text \<open>One round of the search, with the candidate it tries as a word sum.\<close>

lemma cycle_loop_round:
  obtains sid b1 where "sid = start + 1 + word_of_nat i" "same_but_current b b1"
    "currentSubscriberId b1 = sid"
    "i \<le> 255 \<Longrightarrow> cycle_loop start i b = (if slot b sid = None then (True, b1) else cycle_loop start (Suc i) b1)"
proof
  let ?sid = "start + 1 + word_of_nat i"
  let ?b = "touch ?sid (b\<lparr>currentSubscriberId := ?sid\<rparr>)"
  show "same_but_current b ?b" by (auto simp: same_but_current_def fun_eq_iff)
  show "i \<le> 255 \<Longrightarrow>
      cycle_loop start i b = (if slot b ?sid = None then (True, ?b) else cycle_loop start (Suc i) ?b)"
    unfolding cycle_loop.simps [of start i b] cycle_id by (simp add: Let_def)
qed simp_all

lemma cycle_loop_found:
  "cycle_loop start i b = (True, b') \<Longrightarrow>
     same_but_current b b' \<and> slot b (currentSubscriberId b') = None"
proof (induction "256 - i" arbitrary: i b)
  case 0
  then show ?case by (simp add: cycle_loop.simps [of start i b])
next
  case (Suc n)
  obtain sid b1 where r: "same_but_current b b1" "currentSubscriberId b1 = sid"
      "i \<le> 255 \<Longrightarrow> cycle_loop start i b = (if slot b sid = None then (True, b1) else cycle_loop start (Suc i) b1)"
    by (rule cycle_loop_round [of start i b]) iprover
  from Suc.hyps(2) have i: "i \<le> 255" "n = 256 - Suc i" by auto
  show ?case
  proof (cases "slot b sid = None")
    case True
    with r i Suc.prems show ?thesis by simp
  next
    case False
    with r i Suc.prems have "cycle_loop start (Suc i) b1 = (True, b')" by simp
    from Suc.hyps(1) [OF i(2) this] r(1) show ?thesis
      by (auto simp: same_but_current_slot intro: same_but_current_trans)
  qed
qed

lemma cycle_loop_same: "same_but_current b (snd (cycle_loop start i b))"
proof (induction "256 - i" arbitrary: i b)
  case 0
  then show ?case by (simp add: cycle_loop.simps [of start i b])
next
  case (Suc n)
  obtain sid b1 where r: "same_but_current b b1"
      "i \<le> 255 \<Longrightarrow> cycle_loop start i b = (if slot b sid = None then (True, b1) else cycle_loop start (Suc i) b1)"
    by (rule cycle_loop_round [of start i b]) iprover
  with Suc show ?case by (auto intro: same_but_current_trans)
qed

lemma cycle_loop_full:
  "cycle_loop start i b = (False, b') \<Longrightarrow> i \<le> j \<Longrightarrow> j \<le> 255 \<Longrightarrow> slot b (start + 1 + word_of_nat j) \<noteq> None"
proof (induction "256 - i" arbitrary: i b)
  case 0
  then show ?case by simp
next
  case (Suc n)
  obtain sid b1 where r: "sid = start + 1 + word_of_nat i" "same_but_current b b1"
      "i \<le> 255 \<Longrightarrow> cycle_loop start i b = (if slot b sid = None then (True, b1) else cycle_loop start (Suc i) b1)"
    by (rule cycle_loop_round [of start i b]) iprover
  from Suc.hyps(2) have i: "i \<le> 255" "n = 256 - Suc i" by auto
  with r Suc.prems have taken: "slot b sid \<noteq> None" and rest: "cycle_loop start (Suc i) b1 = (False, b')"
    by (auto split: if_splits)
  show ?case
  proof (cases "i = j")
    case True
    with taken r(1) show ?thesis by simp
  next
    case False
    with Suc.prems have "Suc i \<le> j" by simp
    from Suc.hyps(1) [OF i(2) rest this Suc.prems(3)] r(2) show ?thesis
      by (simp add: same_but_current_slot)
  qed
qed

lemma cycle_covers: "\<exists>j \<le> 255. (start :: u8) + 1 + word_of_nat j = x"
proof -
  have "unat (x - start - 1) < 256" using unsigned_less [of "x - start - 1"] by simp
  then have "unat (x - start - 1) \<le> 255" by simp
  moreover have "start + 1 + word_of_nat (unat (x - start - 1)) = x" by simp
  ultimately show ?thesis by blast
qed

lemma Cycle_found:
  "CycleCurrentSubscriberId b = (True, b') \<Longrightarrow> same_but_current b b' \<and> slot b (currentSubscriberId b') = None"
  unfolding CycleCurrentSubscriberId_def by (rule cycle_loop_found)

lemma Cycle_same: "same_but_current b (snd (CycleCurrentSubscriberId b))"
  unfolding CycleCurrentSubscriberId_def by (rule cycle_loop_same)

lemma Cycle_full:
  assumes "CycleCurrentSubscriberId b = (False, b')"
  shows "slot b x \<noteq> None"
proof -
  obtain j where "j \<le> 255" "currentSubscriberId b + 1 + word_of_nat j = x"
    using cycle_covers by blast
  with cycle_loop_full [of "currentSubscriberId b" 0 b b' j] assms show ?thesis
    by (simp add: CycleCurrentSubscriberId_def)
qed

lemma Cycle_finds: "fst (CycleCurrentSubscriberId b) \<longleftrightarrow> (\<exists>x. slot b x = None)"
  using Cycle_found Cycle_full by (metis prod.collapse)

section \<open>Attaching\<close>

lemma attached_same: "same_but_current b b' \<Longrightarrow> attached b' = attached b"
  by (simp add: attached_def same_but_current_def)

text \<open>The slot \<open>Attach\<close> takes: free, and found whenever there is one.\<close>

lemma Attach_slot:
  assumes "slot b x = None"
  obtains b1 where
    "(if slot b (currentSubscriberId b) \<noteq> None then CycleCurrentSubscriberId b else (True, b)) = (True, b1)"
    "same_but_current b b1" "slot b (currentSubscriberId b1) = None"
proof (cases "slot b (currentSubscriberId b) = None")
  case True
  then show ?thesis by (auto intro: that [of b])
next
  case False
  from assms Cycle_finds [of b] obtain b1 where "CycleCurrentSubscriberId b = (True, b1)"
    by (metis prod.collapse)
  with False Cycle_found [OF this] show ?thesis by (auto intro: that [of b1])
qed

lemma Attach_ok:
  assumes "slot (brok w) x = None"
  obtains sid c' w' where
    "Attach c w = (BVSTATUS_OK, c', w')" "slot (brok w) sid = None" "comp_id c' = sid"
    "comp_in c' = nextq w" "comp_out c' = b_inMailBox (brok w)"
    "comp_listening c' = comp_listening c"
    "slot (brok w') = (slot (brok w))(sid \<mapsto> nextq w)"
    "subs_m (brok w') = subs_m (brok w)" "b_inMailBox (brok w') = b_inMailBox (brok w)"
    "numOfSubscribersRegistered (brok w') = numOfSubscribersRegistered (brok w) + 1"
    "b_isRunning (brok w') = b_isRunning (brok w)"
    "omap_inv (mailbox_m (brok w)) \<Longrightarrow> omap_inv (mailbox_m (brok w'))"
    "queues w' = (queues w)(nextq w := tsq_new)" "nextq w' = Suc (nextq w)"
    "msgs w' = msgs w" "nextm w' = nextm w"
proof -
  obtain b1 where b1: "(if slot (brok w) (currentSubscriberId (brok w)) \<noteq> None
        then CycleCurrentSubscriberId (brok w) else (True, brok w)) = (True, b1)"
      "same_but_current (brok w) b1" "slot (brok w) (currentSubscriberId b1) = None"
    by (rule Attach_slot [OF assms])
  let ?sid = "currentSubscriberId b1"
  let ?b2 = "b1\<lparr>mailbox_m := omap_put ?sid (Some (nextq w)) (mailbox_m b1),
               numOfSubscribersRegistered := numOfSubscribersRegistered b1 + 1\<rparr>"
  have full: "\<not> 255 + 1 \<le> unat (numOfSubscribersRegistered (brok w))"
    using unsigned_less [of "numOfSubscribersRegistered (brok w)", where ?'a = nat] by simp
  have same: "same_but_current ?b2 (snd (CycleCurrentSubscriberId ?b2))" by (rule Cycle_same)
  define c' where "c' = c\<lparr>comp_id := ?sid, comp_out := b_inMailBox b1, comp_in := nextq w\<rparr>"
  define w' where "w' = w\<lparr>brok := snd (CycleCurrentSubscriberId ?b2),
                       queues := (queues w)(nextq w := tsq_new), nextq := Suc (nextq w)\<rparr>"
  have eq: "Attach c w = (BVSTATUS_OK, c', w')"
    unfolding Attach_def b1(1) if_not_P [OF full] c'_def w'_def by (simp add: Let_def)
  show ?thesis
    by (rule that [OF eq b1(3)])
      (use b1(2) same in \<open>simp_all add: same_but_current_def c'_def w'_def\<close>)
qed

lemma Attach_full:
  assumes "\<And>x. slot (brok w) x \<noteq> None"
  shows "fst (Attach c w) = BVSTATUS_MAX_COMPONENTS"
proof -
  have "\<not> fst (CycleCurrentSubscriberId (brok w))"
    using assms Cycle_finds by blast
  with assms show ?thesis
    by (auto simp: Attach_def split: prod.splits)
qed

lemma finite_attached: "finite (attached b)"
  by simp

lemma Attach_inv:
  assumes inv: "bus_inv w" and att: "Attach c w = (BVSTATUS_OK, c', w')"
  shows "bus_inv w'"
proof -
  have "\<exists>x. slot (brok w) x = None"
    using Attach_full [of w c] att by (metis BVStatus.simps(10) fst_conv)
  then obtain x where x: "slot (brok w) x = None" ..
  obtain sid where A: "slot (brok w) sid = None" 
    "slot (brok w') = (slot (brok w))(sid \<mapsto> nextq w)"
    "subs_m (brok w') = subs_m (brok w)" "b_inMailBox (brok w') = b_inMailBox (brok w)"
    "numOfSubscribersRegistered (brok w') = numOfSubscribersRegistered (brok w) + 1"
    "omap_inv (mailbox_m (brok w)) \<Longrightarrow> omap_inv (mailbox_m (brok w'))"
    "queues w' = (queues w)(nextq w := tsq_new)" "nextq w' = Suc (nextq w)"
    by (rule Attach_ok [OF x, of c]) (use att in auto)
  have new: "attached (brok w') = insert sid (attached (brok w))" "sid \<notin> attached (brok w)"
    using A by (auto simp: attached_def)
  then have "broker_inv (brok w')"
    using inv A by (auto simp: broker_inv_def bus_inv_def)
  with inv A show ?thesis
    by (fastforce simp: bus_inv_def tsq_inv_new)
qed

section \<open>Subscriptions\<close>

lemma subs_vector: "broker_inv b \<Longrightarrow> map_of (subs_m b) e = Some v \<Longrightarrow> v \<noteq> [] \<and> distinct v \<and> set v \<subseteq> attached b"
  by (auto simp: broker_inv_def dest!: map_of_SomeD)

lemma subscribers_distinct: "broker_inv b \<Longrightarrow> distinct (subscribers b e)"
  by (auto simp: subscribers_def subs_vector split: option.splits)

lemma subscribers_attached: "broker_inv b \<Longrightarrow> set (subscribers b e) \<subseteq> attached b"
  by (cases "map_of (subs_m b) e") (auto simp: subscribers_def dest: subs_vector)

lemma broker_inv_omap: "broker_inv b \<Longrightarrow> omap_inv (subs_m b)"
  by (simp add: broker_inv_def)

lemma broker_inv_subs:
  "broker_inv b \<Longrightarrow> omap_inv m \<Longrightarrow>
     (\<And>e v. map_of m e = Some v \<Longrightarrow> v \<noteq> [] \<and> distinct v \<and> set v \<subseteq> attached b) \<Longrightarrow>
     broker_inv (b\<lparr>subs_m := m\<rparr>)"
  by (auto simp: broker_inv_def attached_def map_of_eq_Some_iff [OF omap_inv_distinct])

lemma add_sub_inv:
  assumes inv: "broker_inv b" and sid: "sid \<in> attached b"
  shows "broker_inv (add_sub sid e b)"
  unfolding add_sub_def Let_def
proof (rule broker_inv_subs [OF inv])
  let ?v = "if sid \<in> set (subscribers b e) then subscribers b e else subscribers b e @ [sid]"
  show "omap_inv (omap_put e ?v (subs_m b))" using inv by (simp add: broker_inv_omap)
  show "v \<noteq> [] \<and> distinct v \<and> set v \<subseteq> attached b" if "map_of (omap_put e ?v (subs_m b)) e' = Some v" for e' v
    using that sid subs_vector [OF inv, of e' v] subscribers_distinct [OF inv, of e]
      subscribers_attached [OF inv, of e]
    by (auto split: if_splits)
qed

lemma subscribers_add_sub:
  "set (subscribers (add_sub sid e b) e') =
     (if e' = e then insert sid (set (subscribers b e)) else set (subscribers b e'))"
  by (auto simp: add_sub_def Let_def subscribers_def)

lemma slot_add_sub [simp]: "slot (add_sub sid e b) = slot b"
  by (simp add: add_sub_def Let_def)

lemma Subscribe_all_inv:
  "broker_inv b \<Longrightarrow> sid \<in> attached b \<Longrightarrow> broker_inv (fold (add_sub sid) es b)"
  by (induction es arbitrary: b) (simp_all add: add_sub_inv attached_def)

lemma subscribers_fold:
  "set (subscribers (fold (add_sub sid) es b) e) =
     (if e \<in> set es then insert sid (set (subscribers b e)) else set (subscribers b e))"
  by (induction es arbitrary: b) (auto simp: subscribers_add_sub)

lemma Unsubscribe_inv:
  assumes inv: "broker_inv b"
  shows "broker_inv (snd (Unsubscribe sid e b))"
proof (cases "map_of (subs_m b) e")
  case None
  with inv show ?thesis by (simp add: Unsubscribe_def)
next
  case (Some v)
  let ?m = "if removeAll sid v = [] then omap_erase e (subs_m b) else omap_put e (removeAll sid v) (subs_m b)"
  have "broker_inv (b\<lparr>subs_m := ?m\<rparr>)"
  proof (rule broker_inv_subs [OF inv])
    show "omap_inv ?m" using inv by (simp add: broker_inv_omap)
    show "u \<noteq> [] \<and> distinct u \<and> set u \<subseteq> attached b" if "map_of ?m e' = Some u" for e' u
      using that subs_vector [OF inv, of e' u] subs_vector [OF inv Some]
      by (auto simp: distinct_removeAll split: if_splits)
  qed
  with Some show ?thesis by (simp add: Unsubscribe_def Let_def)
qed

lemma subscribers_Unsubscribe:
  "subscribers (snd (Unsubscribe sid e b)) e' =
     (if e' = e then removeAll sid (subscribers b e) else subscribers b e')"
  by (auto simp: Unsubscribe_def Let_def subscribers_def split: option.splits)

lemma map_of_drop_sid:
  "omap_inv m \<Longrightarrow> map_of (drop_sid sid m) e =
     (case map_of m e of None \<Rightarrow> None | Some v \<Rightarrow> if removeAll sid v = [] then None else Some (removeAll sid v))"
proof (induction m)
  case Nil
  then show ?case by (simp add: drop_sid_def)
next
  case (Cons p m)
  obtain k v where p: "p = (k, v)" by (cases p)
  have m: "omap_inv m" "k \<notin> fst ` set m" using Cons.prems by (auto simp: omap_inv_def p)
  then have "map_of m k = None" by (simp add: map_of_eq_None_iff)
  with Cons.IH [OF m(1)] show ?case by (auto simp: drop_sid_def p split: option.splits)
qed

lemma omap_inv_drop_sid: "omap_inv m \<Longrightarrow> omap_inv (drop_sid sid m)"
  by (induction m) (auto simp: omap_inv_def drop_sid_def)

lemma subscribers_Detach:
  "broker_inv b \<Longrightarrow> slot b sid \<noteq> None \<Longrightarrow>
     subscribers (snd (Detach sid b)) e = removeAll sid (subscribers b e)"
  by (auto simp: Detach_def subscribers_def map_of_drop_sid broker_inv_def split: option.splits)

lemma attached_Detach: "attached (snd (Detach sid b)) = attached b - {sid}"
  by (auto simp: Detach_def attached_def)

lemma Detach_inv:
  assumes "broker_inv b"
  shows "broker_inv (snd (Detach sid b))"
proof (cases "slot b sid = None")
  case True
  with assms show ?thesis by (simp add: Detach_def)
next
  case False
  let ?b = "snd (Detach sid b)"
  have sid: "sid \<in> attached b" using False by (simp add: attached_def)
  then have "card (attached b) = Suc (card (attached ?b))"
    unfolding attached_Detach by (simp only: card_Suc_Diff1 finite_attached)
  moreover have "numOfSubscribersRegistered ?b = word_of_nat (card (attached b)) - 1"
    using assms False by (simp add: Detach_def broker_inv_def)
  ultimately have "numOfSubscribersRegistered ?b = word_of_nat (card (attached ?b))"
    by (metis add_diff_cancel_left' of_nat_Suc)
  moreover have "v \<noteq> [] \<and> distinct v \<and> set v \<subseteq> attached ?b"
    if "(e, v) \<in> set (drop_sid sid (subs_m b))" for e v
  proof -
    from that obtain v0 where "(e, v0) \<in> set (subs_m b)" "v = removeAll sid v0" "v \<noteq> []"
      by (auto simp: drop_sid_def)
    with assms attached_Detach [of sid b] show ?thesis
      by (fastforce simp: broker_inv_def distinct_removeAll)
  qed
  moreover have "omap_inv (mailbox_m ?b)" "subs_m ?b = drop_sid sid (subs_m b)"
    using assms False by (auto simp: broker_inv_def Detach_def)
  ultimately show ?thesis
    using assms omap_inv_drop_sid [OF broker_inv_omap [OF assms]]
    unfolding broker_inv_def [of ?b] by auto
qed

section \<open>Routing\<close>

lemma mailbox_cong:
  "brok w' = brok w \<Longrightarrow> (\<And>q. slot (brok w) sid = Some q \<Longrightarrow> tsq_list (queues w' q) = tsq_list (queues w q)) \<Longrightarrow>
     mailbox w' sid = mailbox w sid"
  by (auto simp: mailbox_def split: option.splits)

lemma bus_inv_push:
  "bus_inv w \<Longrightarrow> push m (queues w q) = Inr q' \<Longrightarrow> bus_inv (w\<lparr>queues := (queues w)(q := q')\<rparr>)"
  by (auto simp: bus_inv_def intro: push_inv)

lemma route_loop_ok:
  "bus_inv w \<Longrightarrow> distinct sids \<Longrightarrow>
     \<exists>w'. route_loop m sids w = Inr w' \<and> bus_inv w' \<and> brok w' = brok w \<and> msgs w' = msgs w \<and>
       nextm w' = nextm w \<and> nextq w' = nextq w \<and>
       inbox w' = inbox w \<and>
       (\<forall>sid. mailbox w' sid = mailbox w sid @
          (if sid \<in> set sids \<and> slot (brok w) sid \<noteq> None then [m] else []))"
proof (induction sids arbitrary: w)
  case Nil
  then show ?case by simp
next
  case (Cons s sids)
  show ?case
  proof (cases "slot (brok w) s")
    case None
    from Cons.IH [of w] Cons.prems None show ?thesis by auto
  next
    case (Some q)
    have "tsq_inv (queues w q)" using Cons.prems by (simp add: bus_inv_def)
    then obtain q' where q': "push m (queues w q) = Inr q'" "tsq_list q' = tsq_list (queues w q) @ [m]"
      using push_total [of "queues w q" m] push_list [of "queues w q" m] by auto
    let ?w = "w\<lparr>queues := (queues w)(q := q')\<rparr>"
    have inv: "bus_inv ?w" by (rule bus_inv_push [OF Cons.prems(1) q'(1)])
    have box: "mailbox ?w x = mailbox w x @ (if x = s then [m] else [])" for x
      using Cons.prems(1) Some q'(2) by (auto simp: mailbox_def bus_inv_def split: option.splits)
    have "inbox ?w = inbox w"
      using Cons.prems(1) Some by (auto simp: inbox_def bus_inv_def)
    with Cons.IH [OF inv] Cons.prems(2) Some q'(1) box show ?thesis by auto
  qed
qed

lemma Route_ok:
  assumes "bus_inv w"
  shows "\<exists>w'. Route m w = Inr (BVSTATUS_OK, w') \<and> bus_inv w' \<and> brok w' = brok w \<and>
           msgs w' = msgs w \<and> nextm w' = nextm w \<and> inbox w' = inbox w \<and>
           (\<forall>sid. mailbox w' sid = mailbox w sid @ (if subscribed w sid m then [m] else []))"
proof (cases "subscribers (brok w) (event_t (msgs w m)) = []")
  case True
  with assms show ?thesis by (simp add: Route_def subscribed_def)
next
  case False
  have inv: "broker_inv (brok w)" using assms by (simp add: bus_inv_def)
  have att: "\<And>sid. subscribed w sid m \<Longrightarrow> slot (brok w) sid \<noteq> None"
    using subscribers_attached [OF inv] by (auto simp: subscribed_def attached_def)
  from route_loop_ok [OF assms subscribers_distinct [OF inv, of "event_t (msgs w m)"], of m]
  obtain w' where w': "route_loop m (subscribers (brok w) (event_t (msgs w m))) w = Inr w'"
      "bus_inv w'" "brok w' = brok w" "msgs w' = msgs w" "nextm w' = nextm w" "inbox w' = inbox w"
      "\<And>sid. mailbox w' sid = mailbox w sid @ (if subscribed w sid m \<and> slot (brok w) sid \<noteq> None then [m] else [])"
    unfolding subscribed_def by blast
  have "mailbox w' sid = mailbox w sid @ (if subscribed w sid m then [m] else [])" for sid
    using w'(7) [of sid] att [of sid] by simp
  with w' False show ?thesis by (simp add: Route_def)
qed

text \<open>
  The broker's thread, run on the messages waiting in its in-box: what each mailbox holds when
  the in-box is used up or a termination message has gone through.
\<close>

lemma broker_step_ok:
  assumes inv: "bus_inv w" and run: "b_isRunning (brok w)" and box: "inbox w = m # ms"
  obtains w' where
    "broker_step w = Some (Inr w')" "bus_inv w'" "inbox w' = ms" "msgs w' = msgs w" "nextm w' = nextm w"
    "slot (brok w') = slot (brok w)" "subs_m (brok w') = subs_m (brok w)"
    "b_inMailBox (brok w') = b_inMailBox (brok w)"
    "b_isRunning (brok w') \<longleftrightarrow> event_t (msgs w m) \<noteq> BVEVENTTYPE_TERMINATE_ALL"
    "\<And>sid. mailbox w' sid = mailbox w sid @ (if subscribed w sid m then [m] else [])"
proof -
  let ?i = "b_inMailBox (brok w)"
  have "tsq_inv (queues w ?i)" using inv by (simp add: bus_inv_def)
  then obtain q where q: "wait_and_pop (queues w ?i) = Some (Inr (Some m, q))" "tsq_inv q" "tsq_list q = ms"
    using wait_and_pop_nonempty [of "queues w ?i" m ms] box by (auto simp: inbox_def)
  define w1 where "w1 = w\<lparr>queues := (queues w)(?i := q)\<rparr>"
  define w2 where "w2 = (if event_t (msgs w m) = BVEVENTTYPE_TERMINATE_ALL
      then w1\<lparr>brok := (brok w1)\<lparr>b_isRunning := False\<rparr>\<rparr> else w1)"
  have inv1: "bus_inv w1" using inv q(2) by (auto simp: bus_inv_def w1_def)
  then have inv2: "bus_inv w2"
    by (simp add: w2_def bus_inv_def broker_inv_def attached_def)
  have w2: "slot (brok w2) = slot (brok w)" "subs_m (brok w2) = subs_m (brok w)" "msgs w2 = msgs w" "nextm w2 = nextm w"
      "b_inMailBox (brok w2) = ?i" "queues w2 = (queues w)(?i := q)"
      "b_isRunning (brok w2) \<longleftrightarrow> event_t (msgs w m) \<noteq> BVEVENTTYPE_TERMINATE_ALL"
    using run by (simp_all add: w1_def w2_def)
  have same: "mailbox w2 sid = mailbox w sid" "subscribed w2 sid m = subscribed w sid m" for sid
    using inv w2 by (auto simp: mailbox_def subscribed_def subscribers_def bus_inv_def split: option.splits)
  obtain w' where w': "Route m w2 = Inr (BVSTATUS_OK, w')" "bus_inv w'" "brok w' = brok w2"
      "msgs w' = msgs w2" "nextm w' = nextm w2" "inbox w' = inbox w2"
      "\<And>sid. mailbox w' sid = mailbox w2 sid @ (if subscribed w2 sid m then [m] else [])"
    using Route_ok [OF inv2, of m] by blast
  have "broker_step w = Some (Inr w')"
    using run q(1) w'(1) by (auto simp: broker_step_def Let_def w1_def w2_def split: if_splits)
  moreover have "inbox w' = ms" using w' w2 q(3) by (simp add: inbox_def)
  ultimately show ?thesis using that w' w2 same by simp
qed

lemma Run_unfold:
  "Run w =
     (if b_isRunning (brok w)
      then Option.bind (broker_step w) (\<lambda>r. case r of Inl e \<Rightarrow> Some (Inl e) | Inr w' \<Rightarrow> Run w')
      else Some (Inr w))"
  by (subst Run.simps, cases "wait_and_pop (queues w (b_inMailBox (brok w)))")
    (auto simp: broker_step_def rbind_def Let_def split: option.splits sum.splits prod.splits)

lemma Run_step:
  assumes inv: "bus_inv w" and run: "b_isRunning (brok w)" and box: "inbox w = m # ms"
  obtains w' where
    "Run w = Run w'" "bus_inv w'" "inbox w' = ms" "msgs w' = msgs w"
    "slot (brok w') = slot (brok w)" "subs_m (brok w') = subs_m (brok w)"
    "b_inMailBox (brok w') = b_inMailBox (brok w)"
    "b_isRunning (brok w') \<longleftrightarrow> event_t (msgs w m) \<noteq> BVEVENTTYPE_TERMINATE_ALL"
    "\<And>sid. mailbox w' sid = mailbox w sid @ (if subscribed w sid m then [m] else [])"
proof (rule broker_step_ok [OF assms], rule that)
  fix w'
  assume "broker_step w = Some (Inr w')"
  then show "Run w = Run w'" using run by (subst Run_unfold) simp
qed

lemma Run_stopped: "\<not> b_isRunning (brok w) \<Longrightarrow> Run w = Some (Inr w)"
  by (subst Run.simps) simp

lemma Run_blocks: "bus_inv w \<Longrightarrow> b_isRunning (brok w) \<Longrightarrow> inbox w = [] \<Longrightarrow> Run w = None"
  using wait_and_pop_blocks [of "queues w (b_inMailBox (brok w))"]
  by (subst Run.simps) (auto simp: inbox_def bus_inv_def)

lemma Run_routes:
  "bus_inv w \<Longrightarrow> b_isRunning (brok w) \<Longrightarrow> inbox w = ms @ t # rest \<Longrightarrow>
     event_t (msgs w t) = BVEVENTTYPE_TERMINATE_ALL \<Longrightarrow>
     (\<forall>m \<in> set ms. event_t (msgs w m) \<noteq> BVEVENTTYPE_TERMINATE_ALL) \<Longrightarrow>
     \<exists>w'. Run w = Some (Inr w') \<and> bus_inv w' \<and> msgs w' = msgs w \<and> inbox w' = rest \<and>
       (\<forall>sid. mailbox w' sid = mailbox w sid @ filter (subscribed w sid) (ms @ [t]))"
proof (induction ms arbitrary: w)
  case Nil
  obtain w' where "Run w = Run w'" "bus_inv w'" "inbox w' = rest" "msgs w' = msgs w"
      "b_isRunning (brok w') \<longleftrightarrow> event_t (msgs w t) \<noteq> BVEVENTTYPE_TERMINATE_ALL"
      "\<And>sid. mailbox w' sid = mailbox w sid @ (if subscribed w sid t then [t] else [])"
    by (rule Run_step [OF Nil.prems(1,2), of t rest]) (use Nil.prems(3) in simp, iprover)
  then show ?case using Nil.prems(4) by (simp add: Run_stopped)
next
  case (Cons m ms)
  obtain w1 where w1: "Run w = Run w1" "bus_inv w1" "inbox w1 = ms @ t # rest" "msgs w1 = msgs w"
      "subs_m (brok w1) = subs_m (brok w)"
      "b_isRunning (brok w1) \<longleftrightarrow> event_t (msgs w m) \<noteq> BVEVENTTYPE_TERMINATE_ALL"
      "\<And>sid. mailbox w1 sid = mailbox w sid @ (if subscribed w sid m then [m] else [])"
    by (rule Run_step [OF Cons.prems(1,2), of m "ms @ t # rest"]) (use Cons.prems(3) in simp, iprover)
  have sub: "subscribed w1 sid = subscribed w sid" for sid
    using w1 by (simp add: fun_eq_iff subscribed_def subscribers_def)
  have "\<exists>w'. Run w1 = Some (Inr w') \<and> bus_inv w' \<and> msgs w' = msgs w1 \<and> inbox w' = rest \<and>
       (\<forall>sid. mailbox w' sid = mailbox w1 sid @ filter (subscribed w1 sid) (ms @ [t]))"
    by (rule Cons.IH) (use w1 Cons.prems in auto)
  then show ?case by (auto simp: w1 sub)
qed


section \<open>Components\<close>

lemma listen_step_message:
  assumes "tsq_inv (queues w (comp_in c))" and "tsq_list (queues w (comp_in c)) = m # ms"
  obtains q where "tsq_inv q" "tsq_list q = ms"
    "listen_step cb c (w, s) = Some (dispatch_mail cb m (w\<lparr>queues := (queues w)(comp_in c := q)\<rparr>) s)"
proof -
  obtain q where q: "wait_and_pop (queues w (comp_in c)) = Some (Inr (Some m, q))" "tsq_inv q" "tsq_list q = ms"
    using wait_and_pop_nonempty [OF assms] by blast
  show ?thesis
    by (rule that [OF q(2,3)]) (simp add: listen_step_def q(1))
qed

lemma listen_step_waits:
  "tsq_inv (queues w (comp_in c)) \<Longrightarrow> tsq_list (queues w (comp_in c)) = [] \<Longrightarrow> listen_step cb c (w, s) = None"
  using wait_and_pop_blocks [of "queues w (comp_in c)"] by (simp add: listen_step_def)

lemma dispatch_mail_cases:
  "dispatch_mail cb m w s = Inr (go, w', s') \<Longrightarrow>
     w' = w\<lparr>msgs := (msgs w)(m := (msgs w m)\<lparr>data_p := None\<rparr>)\<rparr>"
  by (auto simp: dispatch_mail_def rbind_eq_Inr split: option.splits if_splits)

text \<open>C30: a component's mailbox thread is the handlers run in the order of the messages: up to a shutdown message, a missing handler or a failing one (both end the thread with an exception), or until the mail runs out, when it waits.\<close>

theorem ListenToMail_handles:
  "tsq_inv (queues w (comp_in c)) \<Longrightarrow> tsq_list (queues w (comp_in c)) = ms \<Longrightarrow> distinct ms \<Longrightarrow>
     comp_listening c \<Longrightarrow>
     map_option (map_sum id snd) (ListenToMail cb c (w, s)) = handle_all cb (map (msgs w) ms) s"
proof (induction ms arbitrary: w s)
  case Nil
  then show ?case
    by (subst ListenToMail.simps) (simp add: listen_step_waits)
next
  case (Cons m ms)
  obtain q where q: "tsq_inv q" "tsq_list q = ms" and
    step: "listen_step cb c (w, s) = Some (dispatch_mail cb m (w\<lparr>queues := (queues w)(comp_in c := q)\<rparr>) s)"
    by (rule listen_step_message [OF Cons.prems(1,2), of cb s])
  let ?w = "w\<lparr>queues := (queues w)(comp_in c := q),
              msgs := (msgs w)(m := (msgs w m)\<lparr>data_p := None\<rparr>)\<rparr>"
  have same: "map (msgs ?w) ms = map (msgs w) ms" using Cons.prems(3) by auto
  have IH: "map_option (map_sum id snd) (ListenToMail cb c (?w, s')) = handle_all cb (map (msgs w) ms) s'" for s'
    unfolding same [symmetric] by (rule Cons.IH) (use q Cons.prems in simp_all)
  show ?case
    by (subst ListenToMail.simps)
      (use Cons.prems(4) IH in \<open>auto simp: step dispatch_mail_def rbind_def split: option.splits prod.splits sum.splits\<close>)
qed

text \<open>When a message has been routed to two components, the first to handle it moves the payload out of the shared message object, and the second component's handler is called with a null pointer.\<close>

theorem second_reader_null:
  assumes "tsq_inv (queues w (comp_in c1))" "tsq_inv (queues w (comp_in c2))"
    and "comp_in c1 \<noteq> comp_in c2"
    and "tsq_list (queues w (comp_in c1)) = m # ms1" "tsq_list (queues w (comp_in c2)) = m # ms2"
    and ok: "listen_step cb1 c1 (w, s1) = Some (Inr (go, w', s1'))"
    and h: "cb2 (event_t (msgs w m)) = Some h2"
  shows "map_option (map_sum id (snd \<circ> snd)) (listen_step cb2 c2 (w', s2)) =
     Some (rbind (h2 None s2) (\<lambda>(st, s'). if st = BVSTATUS_OK then Inr s' else Inl Runtime_Error))"
proof -
  obtain q where "listen_step cb1 c1 (w, s1) =
      Some (dispatch_mail cb1 m (w\<lparr>queues := (queues w)(comp_in c1 := q)\<rparr>) s1)"
    by (rule listen_step_message [OF assms(1,4), of cb1 s1])
  with ok have w': "w' = w\<lparr>queues := (queues w)(comp_in c1 := q),
                     msgs := (msgs w)(m := (msgs w m)\<lparr>data_p := None\<rparr>)\<rparr>"
    by (auto dest: dispatch_mail_cases)
  have "tsq_inv (queues w' (comp_in c2))" "tsq_list (queues w' (comp_in c2)) = m # ms2"
    using assms by (simp_all add: w')
  then obtain q2 where "listen_step cb2 c2 (w', s2) =
      Some (dispatch_mail cb2 m (w'\<lparr>queues := (queues w')(comp_in c2 := q2)\<rparr>) s2)"
    by (rule listen_step_message [of _ _ _ _ cb2 s2])
  with h show ?thesis by (simp add: w' dispatch_mail_def rbind_def split: prod.splits sum.splits)
qed

lemma handle_all_run:
  "run_mail cb ms s = Inr s' \<Longrightarrow>
     (\<And>m. m \<in> set ms \<Longrightarrow> event_t m \<notin> {BVEVENTTYPE_TERMINATE_ALL, BVEVENTTYPE_TEST_REQUEST_SHUTDOWN}) \<Longrightarrow>
     handle_all cb (ms @ rest) s = handle_all cb rest s'"
  by (induction ms arbitrary: s) (auto simp: rbind_def split: option.splits sum.splits if_splits)

lemma run_mail_append: "run_mail cb (ms @ ns) s = rbind (run_mail cb ms s) (run_mail cb ns)"
  by (induction ms arbitrary: s) (auto simp: rbind_def split: option.splits sum.splits)

section \<open>Components with more state\<close>

text \<open>
  A component that extends another keeps, on some events, to what the other does to the shared part of its state.
  Then so it does over every sequence of such messages.
\<close>

locale handler_simulation =
  fixes abs :: "'c \<Rightarrow> 's" and conc :: "'c handlers" and spec :: "'s handlers" and evs :: "BVEventType set"
  assumes handler_sim: "e \<in> evs \<Longrightarrow>
    \<exists>f h. spec e = Some f \<and> conc e = Some h \<and> (\<forall>dp s. map_sum id (map_prod id abs) (h dp s) = f dp (abs s))"
begin

lemma run_mail_sim:
  assumes "\<forall>m \<in> set ms. event_t m \<in> evs"
  shows "map_sum id abs (run_mail conc ms s) = run_mail spec ms (abs s)"
  using assms
proof (induction ms arbitrary: s)
  case Nil
  then show ?case by simp
next
  case (Cons m ms)
  obtain f h where fh: "spec (event_t m) = Some f" "conc (event_t m) = Some h"
      "\<And>dp s. map_sum id (map_prod id abs) (h dp s) = f dp (abs s)"
    using handler_sim [of "event_t m"] Cons.prems by auto
  have step: "f (data_p m) (abs s) = map_sum id (map_prod id abs) (h (data_p m) s)" using fh(3) by simp
  show ?case
  proof (cases "h (data_p m) s")
    case (Inl e)
    then show ?thesis using fh(1,2) step by simp
  next
    case (Inr p)
    obtain st s1 where p: "p = (st, s1)" by (cases p)
    have "map_sum id abs (run_mail conc ms s1) = run_mail spec ms (abs s1)"
      by (rule Cons.IH) (use Cons.prems in simp)
    then show ?thesis using fh(1,2) step Inr p by (simp add: id_def)
  qed
qed

end

section \<open>Properties\<close>

definition example_bus :: bus where
  "example_bus =
     \<lparr>brok = \<lparr>mailbox_m = [(0, Some 1), (1, Some 2)], subs_m = [(BVEVENTTYPE_TERMINATE_ALL, [0])], b_inMailBox = 0,
        numOfSubscribersRegistered = 2, currentSubscriberId = 2, b_isRunning = True\<rparr>,
      queues = (\<lambda>q. if q = 0 then example_pushed else tsq_new), nextq = 3,
      msgs = (\<lambda>_. \<lparr>event_t = BVEVENTTYPE_TERMINATE_ALL, data_p = None\<rparr>), nextm = 8\<rparr>"

lemma example_slot: "slot (brok example_bus) = [0 \<mapsto> 1, 1 \<mapsto> 2]"
  by (simp add: fun_eq_iff slot_def example_bus_def)

lemma example_bus_inv: "bus_inv example_bus"
proof -
  have att: "attached (brok example_bus) = {0, 1}"
    unfolding attached_def example_slot by auto
  then have "broker_inv (brok example_bus)"
    by (simp add: broker_inv_def omap_inv_def) (simp add: example_bus_def)
  then show ?thesis
    unfolding bus_inv_def example_slot
    by (simp add: example_bus_def tsq_inv_new)
qed


text \<open>\<open>Attach\<close> succeeds whenever one of the 256 subscriber ids is free, gives the component an id nobody has and an empty mailbox of its own, and keeps the broker's invariant; when all ids are taken it reports that.\<close>

theorem Attach_takes_free_slot:
  assumes "bus_inv w"
  shows "case Attach c w of (st, c', w') \<Rightarrow>
    if \<exists>x. slot (brok w) x = None
    then st = BVSTATUS_OK \<and> bus_inv w' \<and> slot (brok w) (comp_id c') = None \<and>
      slot (brok w') = (slot (brok w))(comp_id c' \<mapsto> comp_in c') \<and> mailbox w' (comp_id c') = [] \<and>
      comp_out c' = b_inMailBox (brok w)
    else st = BVSTATUS_MAX_COMPONENTS"
proof (cases "\<exists>x. slot (brok w) x = None")
  case True
  then obtain x where "slot (brok w) x = None" by blast
  then obtain sid c' w' where a: "Attach c w = (BVSTATUS_OK, c', w')" "slot (brok w) sid = None" "comp_id c' = sid"
      "comp_in c' = nextq w" "comp_out c' = b_inMailBox (brok w)" "slot (brok w') = (slot (brok w))(sid \<mapsto> nextq w)"
      "queues w' = (queues w)(nextq w := tsq_new)"
    by (rule Attach_ok [of w _ c])
  with True Attach_inv [OF assms a(1)] show ?thesis by (simp add: mailbox_def tsq_list_new)
next
  case False
  then show ?thesis using Attach_full [of w c] by (cases "Attach c w") auto
qed

definition example_component :: component where
  "example_component = \<lparr>comp_id = 0, comp_out = 0, comp_in = 0, comp_listening = True\<rparr>"

theorem Attach_takes_free_slot_witness:
  "fst (Attach example_component example_bus) = BVSTATUS_OK"
proof -
  have "slot (brok example_bus) 2 = None" unfolding example_slot by simp
  then have free: "\<exists>x. slot (brok example_bus) x = None" by blast
  show ?thesis
    using Attach_takes_free_slot [OF example_bus_inv, of example_component] free
    by (cases "Attach example_component example_bus") (simp only: prod.case if_True fst_conv)
qed

text \<open>C28: detaching an attached component succeeds, frees its id, removes it from the subscribers of every event without disturbing the others, and keeps the broker's invariant.\<close>

theorem Detach_forgets:
  assumes "broker_inv b" and "slot b sid \<noteq> None"
  shows "fst (Detach sid b) = BVSTATUS_OK \<and> broker_inv (snd (Detach sid b)) \<and>
    attached (snd (Detach sid b)) = attached b - {sid} \<and>
    (\<forall>e. subscribers (snd (Detach sid b)) e = removeAll sid (subscribers b e))"
  using assms Detach_inv [OF assms(1), of sid] attached_Detach [of sid b] subscribers_Detach [OF assms]
  by (simp add: Detach_def)

theorem Detach_forgets_witness:
  "subscribers (snd (Detach 0 (brok example_bus))) BVEVENTTYPE_TERMINATE_ALL = []"
  using Detach_forgets [of "brok example_bus" 0] example_bus_inv
  by (simp add: bus_inv_def example_slot) (simp add: subscribers_def example_bus_def)

theorem ListenToMail_handles_witness:
  "map_option (map_sum id snd) (ListenToMail (\<lambda>e. Some (\<lambda>d n. Inr (BVSTATUS_OK, Suc n))) example_component (example_bus, 4)) =
     Some (Inr 5)"
  using ListenToMail_handles [of example_bus example_component "[7]" "\<lambda>e. Some (\<lambda>d n. Inr (BVSTATUS_OK, Suc n))" 4]
  by (simp add: example_component_def example_bus_def)

definition example_shared :: bus where
  "example_shared = example_bus\<lparr>queues := (\<lambda>_. example_pushed),
     msgs := (\<lambda>_. \<lparr>event_t = BVEVENTTYPE_APP_MESSAGE_INCOMING, data_p = Some (Any_BrowseList [])\<rparr>)\<rparr>"

definition example_handlers :: "bool handlers" where
  "example_handlers e = Some (\<lambda>d b. Inr (BVSTATUS_OK, d \<noteq> None))"

theorem second_reader_null_witness:
  "\<exists>w'. listen_step example_handlers example_component (example_shared, False) = Some (Inr (True, w', True)) \<and>
     map_option (map_sum id (snd \<circ> snd))
       (listen_step example_handlers (example_component\<lparr>comp_in := 1\<rparr>) (w', False)) = Some (Inr False)"
proof -
  have q: "tsq_inv (queues example_shared q)" "tsq_list (queues example_shared q) = 7 # []" for q
    by (simp_all add: example_shared_def)
  obtain q' where "listen_step example_handlers example_component (example_shared, False) =
      Some (dispatch_mail example_handlers 7 (example_shared\<lparr>queues := (queues example_shared)(comp_in example_component := q')\<rparr>) False)"
    using listen_step_message [OF q] by metis
  then obtain w' where w': "listen_step example_handlers example_component (example_shared, False) = Some (Inr (True, w', True))"
    by (auto simp: dispatch_mail_def example_handlers_def example_shared_def)
  have "map_option (map_sum id (snd \<circ> snd))
      (listen_step example_handlers (example_component\<lparr>comp_in := 1\<rparr>) (w', False)) = Some (Inr False)"
    using second_reader_null [OF q(1) q(1) _ q(2) q(2) w', of "example_component\<lparr>comp_in := 1\<rparr>" example_handlers _ False]
    by (simp add: example_handlers_def example_component_def)
  with w' show ?thesis by blast
qed

end
