(* ===== verification/Console_App.thy ===== *)
theory Console_App
  imports Session_Handlers Message_Broker
begin

text \<open>
  The application: \<open>BVApp\<close> (\<open>include/BVApp.hpp\<close>) and its console client
  (\<open>include/BVApp_ConsoleClient.hpp\<close>, \<open>src/BVApp_ConsoleClient.cpp\<close>). Mailbox handlers and key handlers
  act on one record; work handed to the event loop with \<open>boost::asio::post\<close> waits in \<open>posted\<close>;
  everything written to \<open>std::cout\<close> is appended to \<open>stdout\<close>. The clock, \<open>ctime\<close>, the current
  directory and the name resolver are the environment.
\<close>

section \<open>State\<close>

datatype UIState = MainMenu | Chat | FileOffer

datatype BVConsoleActionType =
    BVCONSOLEACTION_SENDMSG
  | BVCONSOLEACTION_REPRINT
  | BVCONSOLEACTION_QUIT
  | BVCONSOLEACTION_PAUSE_DISCOVERY
  | BVCONSOLEACTION_RESUME_DISCOVERY
  | BVCONSOLEACTION_BLOCKHOST

record PendingOffer =
  po_key :: u32
  po_sender :: bytes
  po_fname :: bytes
  po_size :: nat

datatype post =
    Post_Message bytes bytes  \<comment> \<open>sender, text\<close>
  | Post_Offer PendingOffer

record app =
  uiState :: UIState
  priorUiState :: UIState
  activeChatService :: bytes
  inputLine :: bytes
  lastNotification :: bytes
  pendingOffer :: "PendingOffer option"
  recvBytes :: u64
  serviceV :: "BVServiceBrowseInstance list"
  chatLogsM :: "(bytes, BVChatMessageLog) omap"
  fileTransferData :: "(u32, bytes \<times> bytes) omap"
  isRunning :: bool
  ioStopped :: bool
  stdinArmed :: bool
  thisMachineServiceData :: BVServiceData
  mgr :: host
  outMail :: "BVMessage list"
  posted :: "post list"
  a_fs :: fsys
  stdout :: bytes

record app_env =
  ae_now :: u64
  ae_time :: nat
  ae_ctime :: "nat \<Rightarrow> bytes"
  ae_cwd :: bytes
  ae_resolve :: "nat \<Rightarrow> bytes \<Rightarrow> bytes \<Rightarrow> bool \<times> endpoint list"

section \<open>Output\<close>

definition emit :: "bytes \<Rightarrow> app \<Rightarrow> app" where
  "emit d a = a\<lparr>stdout := stdout a @ d\<rparr>"

definition endl :: bytes where "endl = [10]"

definition ClearScreen :: "app \<Rightarrow> app" where
  "ClearScreen a = emit (concat (replicate 200 endl)) a"

definition print_instance :: "BVServiceBrowseInstance \<Rightarrow> bytes" where
  "print_instance b =
     str ''service name: '' @ bi_serviceName b @ endl @
     str ''reg type:     '' @ bi_regType b @ endl @
     str ''domain:       '' @ bi_replyDomain b @ endl"

definition PrintServices :: "app \<Rightarrow> app" where
  "PrintServices a =
     emit ((if serviceV a = []
            then str ''None available apart from ours... :('' @ endl @
                 sd_hostname (thisMachineServiceData a) @ endl
            else []) @
           concat (map (\<lambda>b. str ''  - '' @ print_instance b) (serviceV a))) a"

fun session_lines :: "host \<Rightarrow> nat \<Rightarrow> (u16 \<times> nat) list \<Rightarrow> bytes list" where
  "session_lines h n [] = []"
| "session_lines h n ((k, r) # rest) =
     (str ''  ('' @ to_string n @ str '')  '' @ serviceName_of h r @ str ''   [session '' @
      to_string (unat (sessionID (sess h r))) @ str '', node '' @
      to_string (unat (n_id (nodeData (sess h r)))) @ str '']'') # session_lines h (Suc n) rest"

definition PrintSessions :: "app \<Rightarrow> app" where
  "PrintSessions a =
     emit ((if sessions_m (mgr a) = [] then str ''None.'' @ endl else []) @
           concat (map (\<lambda>l. l @ endl) (session_lines (mgr a) 1 (sessions_m (mgr a))))) a"

definition rule_line :: bytes where "rule_line = str ''-----------------------------'' @ endl"

definition PrintAll :: "app \<Rightarrow> app" where
  "PrintAll a =
     (let a = ClearScreen a;
          a = emit (str ''LocalChat console client v0.4.0'' @ endl @ str ''Re(D)raw'' @ endl @
                    str ''(1-9) Chat with a session listed below'' @ endl @
                    str ''(P)ause discovery'' @ endl @ str ''(R)esume discovery'' @ endl @
                    str ''(Q)uit'' @ endl @ rule_line @ str ''Discovered services:'' @ endl) a;
          a = PrintServices a;
          a = emit (rule_line @ str ''Sessions  --  press the number to chat:'' @ endl) a;
          a = PrintSessions a;
          a = (if lastNotification a \<noteq> [] then emit (rule_line @ str ''>> '' @ lastNotification a @ endl) a else a)
      in emit (str ''============================='' @ endl) a)"

definition RenderFileOffer :: "app \<Rightarrow> app" where
  "RenderFileOffer a =
     (case pendingOffer a of
        None \<Rightarrow> a
      | Some p \<Rightarrow>
          emit (str ''Incoming file from '' @ po_sender p @ str '':'' @ endl @ str ''  '' @ po_fname p @
                str '' ('' @ to_string (po_size p) @ str '' bytes)'' @ endl @ endl @ str ''Accept? (y/n): '')
               (ClearScreen a))"

definition RenderChat :: "app_env \<Rightarrow> app \<Rightarrow> app result" where
  "RenderChat env a =
     (let a = PrintAll a in
      rbind
        (case map_of (chatLogsM a) (activeChatService a) of
           Some log \<Rightarrow>
             rbind (PrintNLastMessages (ae_ctime env) (ae_time env) TEN_LAST_MESSAGES log) (\<lambda>ls.
               Inr (emit (str ''Message log with '' @ activeChatService a @ endl @ concat (map (\<lambda>l. l @ endl) ls)) a))
         | None \<Rightarrow> Inr (emit (str ''No messages with '' @ activeChatService a @ str '' :)'' @ endl) a))
        (\<lambda>a. Inr (emit (str ''(|q quit chat) (|f <path> send file) (|r redraw)'' @ endl @ str ''>> '' @ inputLine a) a)))"

definition Render :: "app_env \<Rightarrow> app \<Rightarrow> app result" where
  "Render env a =
     (case uiState a of
        FileOffer \<Rightarrow> Inr (RenderFileOffer a)
      | Chat \<Rightarrow> RenderChat env a
      | MainMenu \<Rightarrow> Inr (PrintAll a))"

section \<open>Sending\<close>

definition app_SendMessage :: "BVMessage \<Rightarrow> app \<Rightarrow> app" where
  "app_SendMessage m a = a\<lparr>outMail := outMail a @ [m]\<rparr>"

definition StopIOContext :: "app \<Rightarrow> app" where
  "StopIOContext a = a\<lparr>ioStopped := True\<rparr>"

definition ConstructChatMessageFromInput :: "u64 \<Rightarrow> bytes \<Rightarrow> BVTCPMessage" where
  "ConstructChatMessageFromInput now inputString =
     (let copyLen = min (length inputString) 128 in
      \<lparr>m_header = \<lparr>mh_dataLen = word_of_nat copyLen, mh_timestamp = now, mh_msgType = REG_CHATMESSAGE\<rparr>,
       m_payload = memcpy_at (zeros 128) 0 (take copyLen inputString)\<rparr>)"

definition log_message :: "bytes \<Rightarrow> BVChatMessage \<Rightarrow> app \<Rightarrow> app" where
  "log_message name msg a =
     (case map_of (chatLogsM a) name of
        Some log \<Rightarrow> a\<lparr>chatLogsM := omap_put name (AddMessage msg log) (chatLogsM a)\<rparr>
      | None \<Rightarrow> a\<lparr>chatLogsM := omap_put name (new_BVChatMessageLog name msg) (chatLogsM a)\<rparr>)"

text \<open>The clean-up of a path typed or dropped after \<open>|f\<close>.\<close>

definition isSpace :: "byte \<Rightarrow> bool" where
  "isSpace c \<longleftrightarrow> c = 32 \<or> c = 9"

definition trim :: "bytes \<Rightarrow> bytes" where
  "trim s = rev (dropWhile isSpace (rev (dropWhile isSpace s)))"

definition unquote :: "bytes \<Rightarrow> bytes" where
  "unquote s =
     (if length s \<ge> 2 \<and> (hd s = 39 \<and> last s = 39 \<or> hd s = 34 \<and> last s = 34)
      then take (length s - 2) (drop 1 s) else s)"

fun unescape :: "bytes \<Rightarrow> bytes" where
  "unescape (c # d # s) = (if c = 92 \<and> d = 32 then unescape (d # s) else c # unescape (d # s))"
| "unescape s = s"

definition SendChatLine :: "app_env \<Rightarrow> bytes \<Rightarrow> bytes \<Rightarrow> app \<Rightarrow> app result" where
  "SendChatLine env serviceName line a =
     (case GetSessionIDFromServiceName serviceName (mgr a) of
        None \<Rightarrow> Inr a
      | Some sid \<Rightarrow>
          (if take 3 line = str ''|f '' then
             (let filePath = unescape (unquote (trim (drop 3 line))) in
              if fs_files (a_fs a) filePath \<noteq> None then
                rbind (InitiateFileTransferWithSession (ae_now env) (a_fs a) sid filePath (mgr a)) (\<lambda>(st, h).
                  Inr (a\<lparr>mgr := h\<rparr>))
              else Inr a)
           else
             (let chatMsg = ConstructChatMessageFromInput (ae_now env) line in
              rbind (SendDataToNode chatMsg sid (mgr a)) (\<lambda>(st, h).
                if st = BVSTATUS_FATAL_ERROR then Inr (a\<lparr>mgr := h\<rparr>)
                else Inr (log_message serviceName
                       \<lparr>cm_textData = line, cm_sender = sd_hostname (thisMachineServiceData a),
                        cm_timestamp = mh_timestamp (m_header chatMsg)\<rparr> (a\<lparr>mgr := h\<rparr>))))))"

section \<open>Keys\<close>

definition tolower :: "byte \<Rightarrow> byte" where
  "tolower c = (if 65 \<le> c \<and> c \<le> 90 then c + 32 else c)"

definition isprint :: "byte \<Rightarrow> bool" where
  "isprint c \<longleftrightarrow> 32 \<le> c \<and> c \<le> 126"

definition isdigit :: "byte \<Rightarrow> bool" where
  "isdigit c \<longleftrightarrow> 48 \<le> c \<and> c \<le> 57"

definition ParseConsoleActionFromKey :: "byte \<Rightarrow> (BVConsoleActionType \<times> int option) option" where
  "ParseConsoleActionFromKey key =
     (let k = tolower key in
      if k = 100 then Some (BVCONSOLEACTION_REPRINT, None)
      else if k = 112 then Some (BVCONSOLEACTION_PAUSE_DISCOVERY, None)
      else if k = 114 then Some (BVCONSOLEACTION_RESUME_DISCOVERY, None)
      else if k = 113 then Some (BVCONSOLEACTION_QUIT, None)
      else if k = 98 then Some (BVCONSOLEACTION_BLOCKHOST, None)
      else if isdigit key then Some (BVCONSOLEACTION_SENDMSG, Some (uint key - 48))
      else None)"

definition EnterChat :: "app_env \<Rightarrow> int \<Rightarrow> app \<Rightarrow> app result" where
  "EnterChat env selection a =
     (let sessionNames = GetSessionServiceNamesInDisplayOrder (mgr a); idx = selection - 1 in
      if idx < 0 \<or> idx \<ge> int (length sessionNames) then Inr a
      else RenderChat env
        (a\<lparr>activeChatService := sessionNames ! nat idx, uiState := Chat, inputLine := [], lastNotification := []\<rparr>))"

definition mail :: "BVEventType \<Rightarrow> BVMessage" where
  "mail e = \<lparr>event_t = e, data_p = None\<rparr>"

definition HandleMainMenuKey :: "app_env \<Rightarrow> byte \<Rightarrow> app \<Rightarrow> app result" where
  "HandleMainMenuKey env key a =
     (case ParseConsoleActionFromKey key of
        None \<Rightarrow> Inr a
      | Some (BVCONSOLEACTION_REPRINT, num) \<Rightarrow> Render env a
      | Some (BVCONSOLEACTION_SENDMSG, num) \<Rightarrow> (case num of Some n \<Rightarrow> EnterChat env n a | None \<Rightarrow> Inr a)
      | Some (BVCONSOLEACTION_PAUSE_DISCOVERY, num) \<Rightarrow> Inr (app_SendMessage (mail BVEVENTTYPE_DISCOVERY_REQUEST_PAUSE) a)
      | Some (BVCONSOLEACTION_RESUME_DISCOVERY, num) \<Rightarrow> Inr (app_SendMessage (mail BVEVENTTYPE_DISCOVERY_REQUEST_RESUME) a)
      | Some (BVCONSOLEACTION_QUIT, num) \<Rightarrow>
          Inr (StopIOContext ((app_SendMessage (mail BVEVENTTYPE_TERMINATE_ALL) a)\<lparr>isRunning := False\<rparr>))
      | Some (BVCONSOLEACTION_BLOCKHOST, num) \<Rightarrow> Inr a)"

definition HandleChatKey :: "app_env \<Rightarrow> byte \<Rightarrow> app \<Rightarrow> app result" where
  "HandleChatKey env c a =
     (if c = 10 \<or> c = 13 then
        (let a = emit endl a; line = inputLine a; a = a\<lparr>inputLine := []\<rparr> in
         if line = str ''|q'' then Render env (a\<lparr>uiState := MainMenu, activeChatService := []\<rparr>)
         else if line = [] \<or> line = str ''|r'' then RenderChat env a
         else rbind (SendChatLine env (activeChatService a) line a) (RenderChat env))
      else if c = 127 \<or> c = 8 then
        (if inputLine a \<noteq> [] then Inr (emit [8, 32, 8] (a\<lparr>inputLine := butlast (inputLine a)\<rparr>)) else Inr a)
      else if isprint c then Inr (emit [c] (a\<lparr>inputLine := inputLine a @ [c]\<rparr>))
      else Inr a)"

definition HandleFileOfferKey :: "app_env \<Rightarrow> byte \<Rightarrow> app \<Rightarrow> app result" where
  "HandleFileOfferKey env c a =
     (case pendingOffer a of
        None \<Rightarrow> Render env (a\<lparr>uiState := priorUiState a\<rparr>)
      | Some offer \<Rightarrow>
          (if c = 121 \<or> c = 89 \<or> c = 110 \<or> c = 78 then
             (let yes = (c = 121 \<or> c = 89);
                  a = a\<lparr>mgr := RespondToFileOffer (ae_now env) (po_sender offer) (po_key offer) yes (mgr a)\<rparr>;
                  a = emit (if yes then endl @ str ''Accepted. Receiving '' @ po_fname offer @ str ''...'' @ endl
                            else endl @ str ''Rejected '' @ po_fname offer @ str ''.'' @ endl) a;
                  a = a\<lparr>pendingOffer := None, uiState := priorUiState a\<rparr>
              in if priorUiState a \<noteq> FileOffer then Render env a else Inr a)
           else Inr a))"

definition OnKey :: "app_env \<Rightarrow> byte \<Rightarrow> app \<Rightarrow> app result" where
  "OnKey env c a =
     (case uiState a of
        FileOffer \<Rightarrow> HandleFileOfferKey env c a
      | Chat \<Rightarrow> HandleChatKey env c a
      | MainMenu \<Rightarrow> HandleMainMenuKey env c a)"

definition StartStdinRead :: "app \<Rightarrow> app" where
  "StartStdinRead a = a\<lparr>stdinArmed := True\<rparr>"

text \<open>The completion handler of the one-byte read of standard input.\<close>

definition stdin_handler :: "app_env \<Rightarrow> bool \<Rightarrow> nat \<Rightarrow> byte \<Rightarrow> app \<Rightarrow> app result" where
  "stdin_handler env ec n c a =
     (let a = a\<lparr>stdinArmed := False\<rparr> in
      if ec then Inr a
      else if n = 1 then
        rbind (OnKey env c a) (\<lambda>a. Inr (if isRunning a then StartStdinRead a else a))
      else Inr a)"

section \<open>Mailbox handlers\<close>

fun publish :: "bytes \<Rightarrow> BVServiceBrowseInstance list \<Rightarrow> BVServiceBrowseInstance list \<Rightarrow> BVServiceBrowseInstance list \<Rightarrow>
    BVServiceBrowseInstance list \<times> BVServiceBrowseInstance list" where
  "publish own [] sv toResolve = (sv, toResolve)"
| "publish own (e # es) sv toResolve =
     (if e \<notin> set sv then
        (if bi_serviceName e = own then publish own es sv toResolve
         else publish own es (sv @ [e]) (toResolve @ [e]))
      else publish own es sv toResolve)"

definition resolve_request :: "BVServiceBrowseInstance \<Rightarrow> BVMessage" where
  "resolve_request e = \<lparr>event_t = BVEVENTTYPE_DISCOVERY_REQUEST_RESOLVE, data_p = Some (Any_Browse e)\<rparr>"

definition HandlePublishedServices :: "any option \<Rightarrow> app \<Rightarrow> (BVStatus \<times> app) result" where
  "HandlePublishedServices dp a =
     (case dp of
        Some (Any_BrowseList newServicesList) \<Rightarrow>
          (case publish (sd_hostname (thisMachineServiceData a)) newServicesList (serviceV a) [] of
             (sv, toResolve) \<Rightarrow>
               Inr (BVSTATUS_OK, PrintAll (fold (\<lambda>e. app_SendMessage (resolve_request e)) toResolve (a\<lparr>serviceV := sv\<rparr>))))
      | _ \<Rightarrow> Inr (BVSTATUS_FATAL_ERROR, a))"

text \<open>Up to five attempts of \<open>resolver.resolve\<close>.\<close>

function resolve_loop :: "(nat \<Rightarrow> bool \<times> endpoint list) \<Rightarrow> nat \<Rightarrow> bool \<times> endpoint list \<Rightarrow> bool \<times> endpoint list" where
  "resolve_loop res attempt acc =
     (if attempt < 5 then
        (case res attempt of
           (ec, rs) \<Rightarrow> (if \<not> ec \<and> rs \<noteq> [] then (ec, rs) else resolve_loop res (Suc attempt) (ec, rs)))
      else acc)"
  by pat_completeness auto
termination
  by (relation "measure (\<lambda>(res, attempt, acc). 5 - attempt)") auto

declare resolve_loop.simps [simp del]

text \<open>\<open>results.begin ()->endpoint ()\<close> is undefined when there is no error and no result either.\<close>

definition ResolveServiceToEndpoint :: "app_env \<Rightarrow> bytes \<Rightarrow> bytes \<Rightarrow> int \<Rightarrow> BVNode result" where
  "ResolveServiceToEndpoint env hosttarget serviceName port =
     (case resolve_loop (\<lambda>i. ae_resolve env i hosttarget (to_string (nat port))) 0 (False, []) of
        (ec, results) \<Rightarrow>
          (if ec \<and> results = [] then Inr (BVNode_default\<lparr>n_serviceName := str ''ERROR''\<rparr>)
           else if results = [] then Inl Out_Of_Bounds
           else Inr (BVNode_default\<lparr>n_ep := hd results, n_address := fst (hd results), n_hostname := hosttarget,
                       n_serviceName := serviceName, n_results := results, n_port := port\<rparr>)))"

definition HandleResolvedServices :: "app_env \<Rightarrow> any option \<Rightarrow> app \<Rightarrow> (BVStatus \<times> app) result" where
  "HandleResolvedServices env dp a =
     (case dp of
        Some (Any_Resolution res) \<Rightarrow>
          rbind (cstr (dr_hosttarget res)) (\<lambda>hosttarget.
          rbind (cstr (dr_serviceName res)) (\<lambda>serviceName.
          rbind (ResolveServiceToEndpoint env hosttarget serviceName (uint (dr_port res))) (\<lambda>node.
            if n_serviceName node = str ''ERROR'' then Inr (BVSTATUS_FATAL_ERROR, a)
            else
              (case map_of (nodesM (mgr a)) serviceName of
                 None \<Rightarrow>
                   rbind (InitiateSessionWithNode node (snd (AddNodeToNodesM serviceName node (mgr a)))) (\<lambda>(status, h).
                     Inr (status, a\<lparr>mgr := h\<rparr>))
               | Some _ \<Rightarrow> Inr (BVSTATUS_OK, a)))))
      | _ \<Rightarrow> Inr (BVSTATUS_FATAL_ERROR, a))"

definition deregister :: "BVServiceBrowseInstance \<Rightarrow> app \<Rightarrow> app" where
  "deregister e a =
     (let sv = filter (\<lambda>s. bi_serviceName s \<noteq> bi_serviceName e) (serviceV a) in
      if length sv < length (serviceV a)
      then a\<lparr>serviceV := sv,
             mgr := snd (RemoveSession (bi_serviceName e)
                      ((mgr a)\<lparr>nodesM := omap_erase (bi_serviceName e) (nodesM (mgr a))\<rparr>))\<rparr>
      else a\<lparr>serviceV := sv\<rparr>)"

definition HandleServiceDeregistration :: "any option \<Rightarrow> app \<Rightarrow> (BVStatus \<times> app) result" where
  "HandleServiceDeregistration dp a =
     (case dp of
        Some (Any_BrowseList l) \<Rightarrow> Inr (BVSTATUS_OK, PrintAll (fold deregister l a))
      | _ \<Rightarrow> Inr (BVSTATUS_FATAL_ERROR, a))"

definition HandleMessageIncoming :: "any option \<Rightarrow> app \<Rightarrow> (BVStatus \<times> app) result" where
  "HandleMessageIncoming dp a =
     (case dp of
        Some (Any_Chat res) \<Rightarrow>
          (let a = log_message (cm_sender res) res a in
           Inr (BVSTATUS_OK, a\<lparr>posted := posted a @ [Post_Message (cm_sender res) (cm_textData res)]\<rparr>))
      | _ \<Rightarrow> Inr (BVSTATUS_FATAL_ERROR, a))"

text \<open>\<open>"service|filename"\<close>, cut at a zero byte.\<close>

definition bar :: byte where "bar = 124"

definition offer_meta :: "bytes \<Rightarrow> bytes \<times> bytes" where
  "offer_meta d =
     (let meta = takeWhile (\<lambda>c. c \<noteq> 0) d in
      case find_first bar meta of None \<Rightarrow> (meta, []) | Some i \<Rightarrow> (take i meta, drop (i + 1) meta))"

definition HandleFileOffer :: "any option \<Rightarrow> app \<Rightarrow> (BVStatus \<times> app) result" where
  "HandleFileOffer dp a =
     (case dp of
        Some (Any_FileData res) \<Rightarrow>
          (let m = offer_meta (fd_fdata res);
               offer = \<lparr>po_key = fd_correlationKey res, po_sender = fst m, po_fname = snd m, po_size = unat (fd_fsize res)\<rparr>
           in Inr (BVSTATUS_OK, a\<lparr>posted := posted a @ [Post_Offer offer]\<rparr>))
      | _ \<Rightarrow> Inr (BVSTATUS_OK, a))"

text \<open>\<open>substr (0, find ('|'))\<close> and \<open>substr (find ("|") + 1)\<close>, where \<open>npos + 1\<close> is 0.\<close>

definition begin_meta :: "bytes \<Rightarrow> bytes \<times> bytes" where
  "begin_meta d = (case find_first bar d of None \<Rightarrow> (d, d) | Some i \<Rightarrow> (take i d, drop (i + 1) d))"

definition HandleFileTransferBegin :: "app_env \<Rightarrow> any option \<Rightarrow> app \<Rightarrow> (BVStatus \<times> app) result" where
  "HandleFileTransferBegin env dp a =
     (case dp of
        Some (Any_FileData res) \<Rightarrow>
          (let (serviceName, fname) = begin_meta (fd_fdata res) in
           case Begin (ae_cwd env) serviceName fname (a_fs a) of
             (st, fs) \<Rightarrow>
               (let a = a\<lparr>a_fs := fs\<rparr> in
                if st \<noteq> BVSTATUS_OK then Inr (st, a)
                else Inr (BVSTATUS_OK,
                       a\<lparr>fileTransferData := omap_put (fd_correlationKey res) (serviceName, fname) (fileTransferData a),
                         recvBytes := 0\<rparr>)))
      | _ \<Rightarrow> Inr (BVSTATUS_FATAL_ERROR, a))"

definition HandleFileChunkSent :: "app_env \<Rightarrow> any option \<Rightarrow> app \<Rightarrow> (BVStatus \<times> app) result" where
  "HandleFileChunkSent env dp a =
     (case dp of
        Some (Any_FileData res) \<Rightarrow>
          (case map_of (fileTransferData a) (fd_correlationKey res) of
             None \<Rightarrow> Inr (BVSTATUS_FATAL_ERROR, a)
           | Some (serviceName, fname) \<Rightarrow>
               (case AppendChunk (ae_cwd env) serviceName fname (fd_fdata res) (a_fs a) of
                  (st, fs) \<Rightarrow>
                    (let a = a\<lparr>a_fs := fs\<rparr> in
                     if st \<noteq> BVSTATUS_OK then Inr (st, a)
                     else
                       (let recv = recvBytes a + word_of_nat (length (fd_fdata res));
                            pct = (if fd_fsize res > 0 then ucast (recv * 100 div ucast (fd_fsize res)) else 0) :: u32
                        in Inr (BVSTATUS_OK,
                             emit ([13] @ str ''Receiving '' @ fname @ str '': '' @ to_string (unat pct) @ str ''%  ('' @
                                   to_string (unat recv) @ str '' / '' @ to_string (unat (fd_fsize res)) @ str '' bytes)'')
                               (a\<lparr>recvBytes := recv\<rparr>))))))
      | _ \<Rightarrow> Inr (BVSTATUS_FATAL_ERROR, a))"

definition HandleFileTransferEnd :: "app_env \<Rightarrow> any option \<Rightarrow> app \<Rightarrow> (BVStatus \<times> app) result" where
  "HandleFileTransferEnd env dp a =
     (case dp of
        Some (Any_FileData res) \<Rightarrow>
          (case map_of (fileTransferData a) (fd_correlationKey res) of
             None \<Rightarrow> Inr (BVSTATUS_FATAL_ERROR, a)
           | Some (serviceName, fname) \<Rightarrow>
               (case Finish (ae_cwd env) serviceName fname (fd_fdata res) (unat (fd_fsize res)) (a_fs a) of
                  (st, fs) \<Rightarrow>
                    (let a = a\<lparr>a_fs := fs\<rparr> in
                     if st \<noteq> BVSTATUS_OK then Inr (st, a)
                     else
                       (let a = emit (endl @ str ''File saved: '' @ fname @ str '' ('' @
                                      to_string (unat (fd_fsize res)) @ str '' bytes)'' @ endl) a
                        in Inr (BVSTATUS_OK,
                             a\<lparr>fileTransferData := omap_erase (fd_correlationKey res) (fileTransferData a)\<rparr>)))))
      | _ \<Rightarrow> Inr (BVSTATUS_FATAL_ERROR, a))"

definition OnShutdown :: "any option \<Rightarrow> app \<Rightarrow> (BVStatus \<times> app) result" where
  "OnShutdown dp a = Inr (BVSTATUS_OK, StopIOContext a)"

text \<open>The handlers the constructor registers.\<close>

definition console_callbacks :: "app_env \<Rightarrow> (BVEventType \<times> (any option \<Rightarrow> app \<Rightarrow> (BVStatus \<times> app) result)) list" where
  "console_callbacks env =
     [(BVEVENTTYPE_APP_PUBLISHED_SERVICE, HandlePublishedServices),
      (BVEVENTTYPE_TERMINATE_ALL, OnShutdown),
      (BVEVENTTYPE_APP_DISCOVERY_SERVICE_RESOLVED, HandleResolvedServices env),
      (BVEVENTTYPE_APP_DEREGISTERED_SERVICE, HandleServiceDeregistration),
      (BVEVENTTYPE_APP_MESSAGE_INCOMING, HandleMessageIncoming),
      (BVEVENTTYPE_APP_FILE_OFFER, HandleFileOffer),
      (BVEVENTTYPE_APP_FILE_TRANSFER_BEGIN, HandleFileTransferBegin env),
      (BVEVENTTYPE_APP_FILE_TRANSFER_CHUNK_SENT, HandleFileChunkSent env),
      (BVEVENTTYPE_APP_FILE_TRANSFER_END, HandleFileTransferEnd env)]"

definition console_handlers :: "app_env \<Rightarrow> app handlers" where
  "console_handlers env e = map_of (console_callbacks env) e"

section \<open>Posted work\<close>

definition post_message :: "app_env \<Rightarrow> bytes \<Rightarrow> bytes \<Rightarrow> app \<Rightarrow> app result" where
  "post_message env sender textData a =
     (if uiState a = Chat \<and> activeChatService a = sender
      then RenderChat env (a\<lparr>lastNotification := []\<rparr>)
      else Render env (a\<lparr>lastNotification := str ''New message from '' @ sender @ str '': '' @ textData\<rparr>))"

definition post_offer :: "PendingOffer \<Rightarrow> app \<Rightarrow> app" where
  "post_offer offer a =
     RenderFileOffer (a\<lparr>pendingOffer := Some offer, priorUiState := uiState a, uiState := FileOffer\<rparr>)"

fun run_post :: "app_env \<Rightarrow> post \<Rightarrow> app \<Rightarrow> app result" where
  "run_post env (Post_Message sender textData) a = post_message env sender textData a"
| "run_post env (Post_Offer offer) a = Inr (post_offer offer a)"

definition io_post_step :: "app_env \<Rightarrow> app \<Rightarrow> app result" where
  "io_post_step env a =
     (case posted a of [] \<Rightarrow> Inr a | p # ps \<Rightarrow> run_post env p (a\<lparr>posted := ps\<rparr>))"

text \<open>\<open>Run\<close> up to the event loop.\<close>

definition app_Run :: "app_env \<Rightarrow> app \<Rightarrow> app result" where
  "app_Run env a = rbind (Render env (a\<lparr>uiState := MainMenu\<rparr>)) (\<lambda>a. Inr (StartStdinRead a))"

section \<open>The application as a state machine\<close>

text \<open>A key, a message from the mailbox, or work posted to the event loop.\<close>

inductive app_step :: "app_env \<Rightarrow> app \<Rightarrow> app \<Rightarrow> bool" for env :: app_env where
  key: "stdin_handler env ec n c a = Inr a' \<Longrightarrow> app_step env a a'"
| message: "console_handlers env e = Some f \<Longrightarrow> f dp a = Inr (st, a') \<Longrightarrow> app_step env a a'"
| posted: "io_post_step env a = Inr a' \<Longrightarrow> app_step env a a'"

text \<open>The screen of a file offer, to be left for the screen of a file offer.\<close>

definition wedged :: "app \<Rightarrow> bool" where
  "wedged a \<longleftrightarrow> uiState a = FileOffer \<and> priorUiState a = FileOffer"

definition typed_ok :: "app \<Rightarrow> bool" where
  "typed_ok a \<longleftrightarrow> (\<forall>c \<in> set (inputLine a). isprint c)"

section \<open>Handlers in the table\<close>

lemma console_handlers_file [simp]:
  "console_handlers env BVEVENTTYPE_APP_FILE_TRANSFER_BEGIN = Some (HandleFileTransferBegin env)"
  "console_handlers env BVEVENTTYPE_APP_FILE_TRANSFER_CHUNK_SENT = Some (HandleFileChunkSent env)"
  "console_handlers env BVEVENTTYPE_APP_FILE_TRANSFER_END = Some (HandleFileTransferEnd env)"
  "console_handlers env BVEVENTTYPE_APP_FILE_OFFER = Some HandleFileOffer"
  "console_handlers env BVEVENTTYPE_APP_MESSAGE_INCOMING = Some HandleMessageIncoming"
  "console_handlers env BVEVENTTYPE_APP_DISCOVERY_SERVICE_RESOLVED = Some (HandleResolvedServices env)"
  by (simp_all add: console_handlers_def console_callbacks_def)

section \<open>Storing a received file\<close>

text \<open>The application knows the transfer and its file holds \<open>c\<close> so far.\<close>

definition storing :: "app_env \<Rightarrow> u32 \<Rightarrow> bytes \<Rightarrow> bytes \<Rightarrow> bytes \<Rightarrow> app \<Rightarrow> bool" where
  "storing env key sn fn c a \<longleftrightarrow>
     map_of (fileTransferData a) key = Some (sn, fn) \<and> prepared (ae_cwd env) sn fn (a_fs a) \<and>
     stored (ae_cwd env) sn fn (a_fs a) = Some c"

lemma begin_meta_split: "bar \<notin> set sn \<Longrightarrow> begin_meta (sn @ str ''|'' @ fn) = (sn, fn)"
proof -
  have b: "str ''|'' = [bar]" by (simp add: str_def bar_def)
  show "bar \<notin> set sn \<Longrightarrow> begin_meta (sn @ str ''|'' @ fn) = (sn, fn)"
    unfolding b by (simp add: begin_meta_def find_first_append)
qed

lemma begin_mail_stored:
  assumes "writable (ae_cwd env) sn fn (a_fs a)" and "bar \<notin> set sn"
  shows "\<exists>a'. run_mail (console_handlers env) [file_mail BVEVENTTYPE_APP_FILE_TRANSFER_BEGIN key cs fs (sn @ str ''|'' @ fn)] a = Inr a' \<and>
    storing env key sn fn [] a' \<and> uiState a' = uiState a"
proof -
  obtain fs' where "Begin (ae_cwd env) sn fn (a_fs a) = (BVSTATUS_OK, fs')" "prepared (ae_cwd env) sn fn fs'"
      "stored (ae_cwd env) sn fn fs' = Some []"
    using Begin_ok [OF assms(1)] by blast
  then show ?thesis
    by (simp add: HandleFileTransferBegin_def file_mail_def begin_meta_split [OF assms(2)] storing_def)
qed

lemma chunk_mail_stored:
  assumes "storing env key sn fn c a"
  shows "\<exists>a'. run_mail (console_handlers env) [file_mail BVEVENTTYPE_APP_FILE_TRANSFER_CHUNK_SENT key cs fs d] a = Inr a' \<and>
    storing env key sn fn (c @ d) a'"
proof -
  obtain fs' where "AppendChunk (ae_cwd env) sn fn d (a_fs a) = (BVSTATUS_OK, fs')" "prepared (ae_cwd env) sn fn fs'"
      "stored (ae_cwd env) sn fn fs' = Some (c @ d)"
    using AppendChunk_ok assms unfolding storing_def by blast
  with assms show ?thesis
    by (simp add: HandleFileChunkSent_def file_mail_def storing_def Let_def emit_def)
qed

lemma end_mail_stored:
  assumes "storing env key sn fn c a"
  shows "\<exists>a'. run_mail (console_handlers env) [file_mail BVEVENTTYPE_APP_FILE_TRANSFER_END key cs fs d] a = Inr a' \<and>
    stored (ae_cwd env) sn fn (a_fs a') = Some (resize (unat fs) (c @ d)) \<and> map_of (fileTransferData a') key = None"
proof -
  obtain fs' where "Finish (ae_cwd env) sn fn d (unat fs) (a_fs a) = (BVSTATUS_OK, fs')"
      "stored (ae_cwd env) sn fn fs' = Some (resize (unat fs) (c @ d))"
    using Finish_ok assms unfolding storing_def by blast
  with assms show ?thesis
    by (simp add: HandleFileTransferEnd_def file_mail_def storing_def Let_def emit_def)
qed

lemma chunk_mails_stored:
  assumes "storing env key sn fn c a" and "0 < unat cs" and "xs \<noteq> []" and "unat fs = length (c @ xs)"
  shows "\<exists>a'. run_mail (console_handlers env) (chunk_mails key cs fs xs) a = Inr a' \<and>
    stored (ae_cwd env) sn fn (a_fs a') = Some (c @ xs) \<and> map_of (fileTransferData a') key = None"
  using assms
proof (induction "length xs" arbitrary: xs c a rule: less_induct)
  case less
  let ?n = "unat cs"
  show ?case
  proof (cases "length xs \<le> ?n")
    case True
    then have mails: "chunk_mails key cs fs xs =
        [file_mail BVEVENTTYPE_APP_FILE_TRANSFER_END key cs fs (take ?n xs @ zeros (?n - length xs))]"
      using less.prems by (simp add: chunk_mails.simps [of _ _ _ xs] chunk_mails.simps [of _ _ _ "[]"])
    have r: "resize (unat fs) (c @ take ?n xs @ zeros (?n - length xs)) = c @ xs"
      unfolding less.prems(4) take_all [OF True]
      using resize_append_exact [of "c @ xs" "zeros (?n - length xs)"] by simp
    show ?thesis
      using end_mail_stored [OF less.prems(1), of cs fs "take ?n xs @ zeros (?n - length xs)"]
      unfolding mails r .
  next
    case False
    let ?m = "file_mail BVEVENTTYPE_APP_FILE_TRANSFER_CHUNK_SENT key cs fs (take ?n xs)"
    have mails: "chunk_mails key cs fs xs = [?m] @ chunk_mails key cs fs (drop ?n xs)"
      using False less.prems by (subst chunk_mails.simps) simp
    obtain a1 where a1: "run_mail (console_handlers env) [?m] a = Inr a1" "storing env key sn fn (c @ take ?n xs) a1"
      using chunk_mail_stored [OF less.prems(1)] by blast
    have "\<exists>a'. run_mail (console_handlers env) (chunk_mails key cs fs (drop ?n xs)) a1 = Inr a' \<and>
        stored (ae_cwd env) sn fn (a_fs a') = Some ((c @ take ?n xs) @ drop ?n xs) \<and> map_of (fileTransferData a') key = None"
      by (rule less.hyps [OF _ a1(2)]) (use less.prems False in auto)
    then show ?thesis unfolding mails run_mail_append a1(1) by simp
  qed
qed

lemma file_mails_stored:
  assumes "writable (ae_cwd env) sn fn (a_fs a)" and "bar \<notin> set sn" and "0 < unat cs" and "xs \<noteq> []"
    and "unat fs = length xs"
  shows "\<exists>a'. run_mail (console_handlers env)
      (file_mail BVEVENTTYPE_APP_FILE_TRANSFER_BEGIN key cs fs (sn @ str ''|'' @ fn) # chunk_mails key cs fs xs) a = Inr a' \<and>
    stored (ae_cwd env) sn fn (a_fs a') = Some xs \<and> map_of (fileTransferData a') key = None"
proof -
  let ?m = "file_mail BVEVENTTYPE_APP_FILE_TRANSFER_BEGIN key cs fs (sn @ str ''|'' @ fn)"
  obtain a1 where a1: "run_mail (console_handlers env) [?m] a = Inr a1" "storing env key sn fn [] a1"
    using begin_mail_stored [OF assms(1,2)] by blast
  have "run_mail (console_handlers env) (?m # chunk_mails key cs fs xs) a =
      rbind (run_mail (console_handlers env) [?m] a) (run_mail (console_handlers env) (chunk_mails key cs fs xs))"
    by (rule run_mail_append [of _ "[?m]", unfolded append_Cons append_Nil])
  then have eq: "run_mail (console_handlers env) (?m # chunk_mails key cs fs xs) a =
      run_mail (console_handlers env) (chunk_mails key cs fs xs) a1"
    by (simp only: a1(1) rbind_simps)
  have "unat fs = length ([] @ xs)" using assms(5) by simp
  from chunk_mails_stored [OF a1(2) assms(3,4) this] show ?thesis
    unfolding eq by (simp only: append_Nil)
qed

section \<open>What drawing leaves alone\<close>

lemma emit_fields [simp]:
  "uiState (emit d a) = uiState a" "priorUiState (emit d a) = priorUiState a" "isRunning (emit d a) = isRunning a"
  "inputLine (emit d a) = inputLine a" "mgr (emit d a) = mgr a" "outMail (emit d a) = outMail a"
  "ioStopped (emit d a) = ioStopped a" "activeChatService (emit d a) = activeChatService a"
  "pendingOffer (emit d a) = pendingOffer a"
  by (simp_all add: emit_def)

text \<open>Everything but the text on the terminal.\<close>

definition same_but_stdout :: "app \<Rightarrow> app \<Rightarrow> bool" where
  "same_but_stdout a b \<longleftrightarrow> b\<lparr>stdout := []\<rparr> = a\<lparr>stdout := []\<rparr>"

lemma same_but_stdout_emit [simp]: "same_but_stdout a (emit d b) \<longleftrightarrow> same_but_stdout a b"
  by (simp add: same_but_stdout_def emit_def)

lemma same_but_stdout_refl [simp]: "same_but_stdout a a"
  by (simp add: same_but_stdout_def)

lemma same_but_stdout_trans: "same_but_stdout a b \<Longrightarrow> same_but_stdout b c \<Longrightarrow> same_but_stdout a c"
  by (simp add: same_but_stdout_def)

lemma ClearScreen_same [simp]: "same_but_stdout a (ClearScreen b) \<longleftrightarrow> same_but_stdout a b"
  by (simp only: ClearScreen_def same_but_stdout_emit)

lemma PrintAll_same [simp]: "same_but_stdout a (PrintAll b) \<longleftrightarrow> same_but_stdout a b"
  by (simp add: PrintAll_def PrintServices_def PrintSessions_def Let_def)

lemma RenderFileOffer_same: "same_but_stdout a (RenderFileOffer a)"
  by (simp add: RenderFileOffer_def split: option.splits)

lemma RenderChat_same: "RenderChat env a = Inr b \<Longrightarrow> same_but_stdout a b"
  by (auto simp: RenderChat_def Let_def rbind_eq_Inr split: option.splits)

lemma Render_same: "Render env a = Inr b \<Longrightarrow> same_but_stdout a b"
  by (auto simp: Render_def RenderChat_same PrintAll_same RenderFileOffer_same split: UIState.splits)

lemma same_but_stdout_PrintAll: "same_but_stdout a (PrintAll a)"
  by simp

lemma same_but_stdout_fields:
  "same_but_stdout a b \<Longrightarrow> uiState b = uiState a \<and> priorUiState b = priorUiState a \<and> isRunning b = isRunning a \<and>
     outMail b = outMail a \<and> inputLine b = inputLine a \<and> mgr b = mgr a \<and> chatLogsM b = chatLogsM a \<and>
     pendingOffer b = pendingOffer a \<and> activeChatService b = activeChatService a \<and> ioStopped b = ioStopped a"
  unfolding same_but_stdout_def by (cases a; cases b) simp

lemma PrintAll_fields [simp]:
  "uiState (PrintAll a) = uiState a" "priorUiState (PrintAll a) = priorUiState a"
  "isRunning (PrintAll a) = isRunning a" "inputLine (PrintAll a) = inputLine a" "mgr (PrintAll a) = mgr a"
  "outMail (PrintAll a) = outMail a"
  using same_but_stdout_fields [OF same_but_stdout_PrintAll] by blast+

section \<open>The file-offer screen\<close>

lemma Render_fields:
  assumes "Render env a = Inr b"
  shows "uiState b = uiState a" "priorUiState b = priorUiState a" "isRunning b = isRunning a" "outMail b = outMail a"
    "inputLine b = inputLine a" "ioStopped b = ioStopped a" "pendingOffer b = pendingOffer a"
  using same_but_stdout_fields [OF Render_same [OF assms]] by blast+

lemma RenderChat_fields:
  assumes "RenderChat env a = Inr b"
  shows "uiState b = uiState a" "priorUiState b = priorUiState a" "isRunning b = isRunning a" "outMail b = outMail a"
    "inputLine b = inputLine a" "ioStopped b = ioStopped a" "pendingOffer b = pendingOffer a"
  using same_but_stdout_fields [OF RenderChat_same [OF assms]] by blast+

lemma RenderFileOffer_fields [simp]:
  "uiState (RenderFileOffer a) = uiState a" "priorUiState (RenderFileOffer a) = priorUiState a"
  "isRunning (RenderFileOffer a) = isRunning a" "outMail (RenderFileOffer a) = outMail a"
  "inputLine (RenderFileOffer a) = inputLine a" "ioStopped (RenderFileOffer a) = ioStopped a"
  using same_but_stdout_fields [OF RenderFileOffer_same] by blast+

lemma wedged_key:
  assumes w: "wedged a" and k: "OnKey env c a = Inr a'"
  shows "wedged a' \<and> isRunning a' = isRunning a \<and> outMail a' = outMail a \<and> ioStopped a' = ioStopped a"
proof -
  have h: "HandleFileOfferKey env c a = Inr a'" using assms by (simp add: OnKey_def wedged_def)
  show ?thesis
  proof (cases "pendingOffer a")
    case None
    then have "Render env (a\<lparr>uiState := priorUiState a\<rparr>) = Inr a'" using h by (simp add: HandleFileOfferKey_def)
    from Render_fields [OF this] w show ?thesis by (simp add: wedged_def)
  next
    case (Some offer)
    then show ?thesis using h w by (auto simp: HandleFileOfferKey_def Let_def wedged_def split: if_splits)
  qed
qed

lemma fold_app_SendMessage:
  "fold (\<lambda>e. app_SendMessage (f e)) es a = a\<lparr>outMail := outMail a @ map f es\<rparr>"
  by (induction es arbitrary: a) (simp_all add: app_SendMessage_def)

lemma deregister_ui: "uiState (fold deregister l a) = uiState a \<and> priorUiState (fold deregister l a) = priorUiState a \<and>
    isRunning (fold deregister l a) = isRunning a \<and> inputLine (fold deregister l a) = inputLine a"
  by (induction l arbitrary: a) (simp_all add: deregister_def Let_def)

lemma log_message_ui [simp]:
  "uiState (log_message n m a) = uiState a" "priorUiState (log_message n m a) = priorUiState a"
  "isRunning (log_message n m a) = isRunning a" "inputLine (log_message n m a) = inputLine a"
  "mgr (log_message n m a) = mgr a" "posted (log_message n m a) = posted a"
  by (simp_all add: log_message_def split: option.splits)

text \<open>What no mailbox handler touches.\<close>

definition ui_kept :: "app \<Rightarrow> app \<Rightarrow> bool" where
  "ui_kept a b \<longleftrightarrow> uiState b = uiState a \<and> priorUiState b = priorUiState a \<and> isRunning b = isRunning a \<and>
     inputLine b = inputLine a"

lemma ui_kept_simps [simp]:
  "ui_kept a a" "ui_kept a (emit d b) = ui_kept a b" "ui_kept a (PrintAll b) = ui_kept a b"
  "ui_kept a (b\<lparr>a_fs := fs\<rparr>) = ui_kept a b" "ui_kept a (b\<lparr>recvBytes := r\<rparr>) = ui_kept a b"
  "ui_kept a (b\<lparr>fileTransferData := td\<rparr>) = ui_kept a b" "ui_kept a (b\<lparr>mgr := h\<rparr>) = ui_kept a b"
  "ui_kept a (b\<lparr>posted := ps\<rparr>) = ui_kept a b" "ui_kept a (b\<lparr>serviceV := sv\<rparr>) = ui_kept a b"
  "ui_kept a (b\<lparr>outMail := om\<rparr>) = ui_kept a b" "ui_kept a (b\<lparr>ioStopped := x\<rparr>) = ui_kept a b"
  "ui_kept a (log_message n m b) = ui_kept a b" "ui_kept a (fold deregister l b) = ui_kept a b"
  by (simp_all add: ui_kept_def deregister_ui)

lemma published_ui: "HandlePublishedServices dp a = Inr (st, a') \<Longrightarrow> ui_kept a a'"
  by (auto simp: HandlePublishedServices_def fold_app_SendMessage split: option.splits any.splits prod.splits)

lemma shutdown_ui: "OnShutdown dp a = Inr (st, a') \<Longrightarrow> ui_kept a a'"
  by (auto simp: OnShutdown_def StopIOContext_def)

lemma resolved_cases:
  assumes "HandleResolvedServices env dp a = Inr (st, a')"
  shows "a' = a \<or> (\<exists>s n h. InitiateSessionWithNode n (snd (AddNodeToNodesM s n (mgr a))) = Inr (st, h) \<and> a' = a\<lparr>mgr := h\<rparr>)"
proof (cases "\<exists>res. dp = Some (Any_Resolution res)")
  case True
  then obtain res where dp: "dp = Some (Any_Resolution res)" by blast
  define ht where "ht = cstr (dr_hosttarget res)"
  define sn where "sn = cstr (dr_serviceName res)"
  define node where "node h s = ResolveServiceToEndpoint env h s (uint (dr_port res))" for h s
  define init where "init s n = InitiateSessionWithNode n (snd (AddNodeToNodesM s n (mgr a)))" for s n
  define known where "known s = map_of (nodesM (mgr a)) s" for s
  have "rbind ht (\<lambda>h. rbind sn (\<lambda>s. rbind (node h s) (\<lambda>n.
      if n_serviceName n = str ''ERROR'' then Inr (BVSTATUS_FATAL_ERROR, a)
      else case known s of None \<Rightarrow> rbind (init s n) (\<lambda>(status, h). Inr (status, a\<lparr>mgr := h\<rparr>))
        | Some _ \<Rightarrow> Inr (BVSTATUS_OK, a)))) = Inr (st, a')"
    using assms unfolding HandleResolvedServices_def dp ht_def sn_def node_def init_def known_def
    by (simp only: option.case any.case)
  then have "a' = a \<or> (\<exists>s n h. init s n = Inr (st, h) \<and> a' = a\<lparr>mgr := h\<rparr>)"
    by (cases ht; cases sn) (auto simp: rbind_eq_Inr split: if_splits option.splits)
  then show ?thesis by (simp add: init_def)
next
  case False
  then have "HandleResolvedServices env dp a = Inr (BVSTATUS_FATAL_ERROR, a)"
    unfolding HandleResolvedServices_def by (cases dp; simp; cases "the dp"; simp)
  with assms show ?thesis by simp
qed

lemma resolved_ui: "HandleResolvedServices env dp a = Inr (st, a') \<Longrightarrow> ui_kept a a'"
  by (auto dest: resolved_cases)

lemma deregistered_ui: "HandleServiceDeregistration dp a = Inr (st, a') \<Longrightarrow> ui_kept a a'"
  by (auto simp: HandleServiceDeregistration_def split: option.splits any.splits)

lemma incoming_ui: "HandleMessageIncoming dp a = Inr (st, a') \<Longrightarrow> ui_kept a a'"
  by (auto simp: HandleMessageIncoming_def Let_def split: option.splits any.splits)

lemma offer_ui: "HandleFileOffer dp a = Inr (st, a') \<Longrightarrow> ui_kept a a'"
  by (auto simp: HandleFileOffer_def Let_def split: option.splits any.splits)

lemma begin_ui: "HandleFileTransferBegin env dp a = Inr (st, a') \<Longrightarrow> ui_kept a a'"
  by (auto simp: HandleFileTransferBegin_def Let_def split: option.splits any.splits prod.splits if_splits)

lemma chunk_cases:
  assumes "HandleFileChunkSent env dp a = Inr (st, a')"
  shows "a' = a \<or> (\<exists>fs. a' = a\<lparr>a_fs := fs\<rparr>) \<or> (\<exists>fs r d. a' = emit d (a\<lparr>a_fs := fs, recvBytes := r\<rparr>))"
proof -
  define ok where "ok x \<longleftrightarrow> x = a \<or> (\<exists>fs. x = a\<lparr>a_fs := fs\<rparr>) \<or> (\<exists>fs r d. x = emit d (a\<lparr>a_fs := fs, recvBytes := r\<rparr>))" for x
  have "ok x" if "(if st' \<noteq> BVSTATUS_OK then Inr (st', a\<lparr>a_fs := fs\<rparr>)
      else Inr (BVSTATUS_OK, emit d (a\<lparr>a_fs := fs, recvBytes := r\<rparr>))) = Inr (st, x)" for st' fs d r and x :: app
    using that by (auto simp: ok_def split: if_splits)
  moreover have "ok a" by (simp add: ok_def)
  ultimately have "ok a'"
    using assms unfolding HandleFileChunkSent_def Let_def app.simps
    by (auto split: option.splits any.splits prod.splits simp del: not_None_eq)
  then show ?thesis by (simp add: ok_def)
qed

lemma chunk_ui: "HandleFileChunkSent env dp a = Inr (st, a') \<Longrightarrow> ui_kept a a'"
  by (auto dest: chunk_cases)

lemma end_ui: "HandleFileTransferEnd env dp a = Inr (st, a') \<Longrightarrow> ui_kept a a'"
  by (auto simp: HandleFileTransferEnd_def Let_def split: option.splits any.splits prod.splits if_splits)

lemmas handler_ui = published_ui shutdown_ui resolved_ui deregistered_ui incoming_ui offer_ui begin_ui chunk_ui end_ui

lemma message_ui:
  assumes "console_handlers env e = Some f" and "f dp a = Inr (st, a')"
  shows "ui_kept a a'"
proof -
  have "f \<in> {HandlePublishedServices, OnShutdown, HandleResolvedServices env, HandleServiceDeregistration,
      HandleMessageIncoming, HandleFileOffer, HandleFileTransferBegin env, HandleFileChunkSent env,
      HandleFileTransferEnd env}"
    using map_of_SomeD [OF assms(1) [unfolded console_handlers_def]] by (auto simp: console_callbacks_def)
  with assms(2) show ?thesis by (blast intro: handler_ui)
qed

lemma post_ui:
  assumes "io_post_step env a = Inr a'"
  shows "isRunning a' = isRunning a \<and> inputLine a' = inputLine a \<and> (wedged a \<longrightarrow> wedged a')"
proof (cases "posted a")
  case Nil
  with assms show ?thesis by (simp add: io_post_step_def)
next
  case (Cons p ps)
  then have r: "run_post env p (a\<lparr>posted := ps\<rparr>) = Inr a'" using assms by (simp add: io_post_step_def)
  show ?thesis
  proof (cases p)
    case (Post_Message sender textData)
    then show ?thesis
      using r by (cases "uiState a = Chat \<and> activeChatService a = sender")
        (simp_all add: post_message_def wedged_def RenderChat_fields Render_fields del: de_Morgan_conj)
  next
    case (Post_Offer offer)
    then show ?thesis using r by (auto simp: post_offer_def wedged_def)
  qed
qed

lemma wedged_step:
  assumes "app_step env a a'" and "wedged a"
  shows "wedged a' \<and> isRunning a' = isRunning a"
  using assms(1)
proof cases
  case (key ec n c)
  show ?thesis
  proof (cases "ec \<or> n \<noteq> 1")
    case True
    with key assms(2) show ?thesis by (auto simp: stdin_handler_def Let_def wedged_def split: if_splits)
  next
    case False
    with key obtain b where b: "OnKey env c (a\<lparr>stdinArmed := False\<rparr>) = Inr b"
        "a' = (if isRunning b then StartStdinRead b else b)"
      by (auto simp: stdin_handler_def Let_def rbind_eq_Inr)
    have "wedged (a\<lparr>stdinArmed := False\<rparr>)" using assms(2) by (simp add: wedged_def)
    from wedged_key [OF this b(1)] b(2) show ?thesis
      by (auto simp: wedged_def StartStdinRead_def)
  qed
next
  case (message e f dp st)
  then show ?thesis using message_ui [OF message] assms(2) by (simp add: wedged_def ui_kept_def)
next
  case posted
  then show ?thesis using post_ui assms(2) by blast
qed

lemma wedged_for_ever: "rtranclp (app_step env) a a' \<Longrightarrow> wedged a \<Longrightarrow> wedged a' \<and> isRunning a' = isRunning a"
  by (induction rule: rtranclp_induct) (auto dest: wedged_step)

section \<open>Typing and sending\<close>

lemma typed_ok_chat_key:
  assumes "typed_ok a" and "HandleChatKey env c a = Inr a'"
  shows "typed_ok a'"
proof (cases "c = 10 \<or> c = 13")
  case True
  have nil: "SendChatLine env n l b = Inr b' \<Longrightarrow> inputLine b' = inputLine b" for n l b b'
    by (auto simp: SendChatLine_def Let_def rbind_eq_Inr split: option.splits if_splits prod.splits)
  have "inputLine a' = []"
    using assms(2) True
    by (auto simp: HandleChatKey_def Let_def rbind_eq_Inr nil Render_fields RenderChat_fields split: if_splits)
  then show ?thesis by (simp add: typed_ok_def)
next
  case False
  have b: "\<forall>c \<in> set (butlast (inputLine a)). isprint c" using assms(1) by (auto simp: typed_ok_def dest: in_set_butlastD)
  with False assms(1,2) show ?thesis
    by (auto simp: HandleChatKey_def typed_ok_def split: if_splits)
qed

lemma console_chat_plain:
  assumes "\<forall>c \<in> set line. isprint c"
  shows "plain_chat (ConstructChatMessageFromInput now line)"
proof -
  let ?n = "min (length line) 128"
  let ?p = "memcpy_at (zeros 128) 0 (take ?n line)"
  have p: "?p = take ?n line @ zeros (128 - ?n)" by (simp add: memcpy_at_def)
  have len: "length ?p = 128" by (simp add: memcpy_at_def)
  have "?p ! 2 \<in> set line \<or> ?p ! 2 = 0"
    unfolding p by (cases "2 < ?n") (auto simp: nth_append)
  then have third: "isprint (?p ! 2) \<or> ?p ! 2 = 0" using assms by blast
  have no: "\<not> isprint t \<and> t \<noteq> 0" if "t \<in> {REG_FILE_TRANSFER_BEGIN, REG_FILE_OFFER, REG_FILE_ACCEPT, REG_FILE_REJECT}" for t
    using that by (auto simp: msgtype_defs isprint_def)
  have small: "unat (word_of_nat ?n :: u8) = ?n"
    by (simp add: unat_of_nat take_bit_nat_eq_self)
  show ?thesis
    unfolding plain_chat_def ConstructChatMessageFromInput_def Let_def using third no len small by auto
qed

lemma console_chat_text:
  "chat_mail peer (ConstructChatMessageFromInput now line) =
     \<lparr>event_t = BVEVENTTYPE_APP_MESSAGE_INCOMING,
      data_p = Some (Any_Chat \<lparr>cm_textData = take 128 line, cm_sender = peer, cm_timestamp = now\<rparr>)\<rparr>"
proof -
  let ?n = "min (length line) 128"
  have "unat (word_of_nat ?n :: u8) = ?n" by (simp add: unat_of_nat take_bit_nat_eq_self)
  then show ?thesis
    by (cases "length line \<le> 128") (simp_all add: chat_mail_def ConstructChatMessageFromInput_def Let_def memcpy_at_def)
qed

end
