(* ===== verification/Console_Properties.thy ===== *)
theory Console_Properties
  imports Console_App
begin

text \<open>
  What the console application guarantees, and where it does not: the text a user can type, the
  screen of a file offer, the numbers of the menu, files received under equal keys, services
  that are published, resolved and deregistered.
\<close>

section \<open>Keys and the line being typed\<close>

lemma EnterChat_line: "EnterChat env n a = Inr b \<Longrightarrow> inputLine b = inputLine a \<or> inputLine b = []"
  by (auto simp: EnterChat_def Let_def RenderChat_fields split: if_splits)

lemma HandleMainMenuKey_line: "HandleMainMenuKey env c a = Inr b \<Longrightarrow> inputLine b = inputLine a \<or> inputLine b = []"
  by (auto simp: HandleMainMenuKey_def app_SendMessage_def StopIOContext_def Render_fields dest: EnterChat_line
      split: option.splits prod.splits BVConsoleActionType.splits)

lemma HandleFileOfferKey_line: "HandleFileOfferKey env c a = Inr b \<Longrightarrow> inputLine b = inputLine a"
  by (auto simp: HandleFileOfferKey_def Let_def Render_fields split: option.splits if_splits)

lemma typed_ok_key: "typed_ok a \<Longrightarrow> OnKey env c a = Inr b \<Longrightarrow> typed_ok b"
  by (auto simp: OnKey_def typed_ok_def dest: HandleMainMenuKey_line HandleFileOfferKey_line
      typed_ok_chat_key [unfolded typed_ok_def] split: UIState.splits)

lemma typed_ok_step:
  assumes "app_step env a a'" and "typed_ok a"
  shows "typed_ok a'"
  using assms(1)
proof cases
  case (key ec n c)
  have t: "typed_ok (a\<lparr>stdinArmed := False\<rparr>)" using assms(2) by (simp add: typed_ok_def)
  show ?thesis
  proof (cases "ec \<or> n \<noteq> 1")
    case True
    with key t show ?thesis by (auto simp: stdin_handler_def Let_def split: if_splits)
  next
    case False
    with key obtain b where b: "OnKey env c (a\<lparr>stdinArmed := False\<rparr>) = Inr b"
        "a' = (if isRunning b then StartStdinRead b else b)"
      by (auto simp: stdin_handler_def Let_def rbind_eq_Inr)
    from typed_ok_key [OF t b(1)] b(2) show ?thesis by (simp add: typed_ok_def StartStdinRead_def)
  qed
next
  case (message e f dp st)
  then show ?thesis using message_ui [OF message] assms(2) by (simp add: typed_ok_def ui_kept_def)
next
  case posted
  then show ?thesis using post_ui [OF posted] assms(2) by (simp add: typed_ok_def)
qed

lemma typed_ok_steps: "rtranclp (app_step env) a a' \<Longrightarrow> typed_ok a \<Longrightarrow> typed_ok a'"
  by (induction rule: rtranclp_induct) (auto dest: typed_ok_step)

section \<open>A concrete application\<close>

definition example_app_env :: app_env where
  "example_app_env = \<lparr>ae_now = 5, ae_time = 0, ae_ctime = (\<lambda>_. str ''Thu Jan  1 00:00:00 1970''), ae_cwd = str ''/w'',
     ae_resolve = (\<lambda>_ _ _. (True, []))\<rparr>"

definition example_app :: app where
  "example_app = \<lparr>uiState = MainMenu, priorUiState = MainMenu, activeChatService = [], inputLine = [], lastNotification = [],
     pendingOffer = None, recvBytes = 0, serviceV = [], chatLogsM = [], fileTransferData = [], isRunning = True,
     ioStopped = False, stdinArmed = True, thisMachineServiceData = example_service (str ''alice''), mgr = example_host,
     outMail = [], posted = [], a_fs = example_fs, stdout = []\<rparr>"

text \<open>What is logged of the conversation with a peer.\<close>

definition log_of :: "bytes \<Rightarrow> app \<Rightarrow> BVChatMessage list" where
  "log_of name a = (case map_of (chatLogsM a) name of None \<Rightarrow> [] | Some l \<Rightarrow> cl_logV l)"

lemma log_of_log_message: "log_of n (log_message name msg a) = log_of n a @ (if n = name then [msg] else [])"
  by (simp add: log_of_def log_message_def new_BVChatMessageLog_def AddMessage_def split: option.splits)

lemma log_of_mgr [simp]: "log_of n (a\<lparr>mgr := h\<rparr>) = log_of n a" "log_of n (a\<lparr>posted := p\<rparr>) = log_of n a"
  by (simp_all add: log_of_def)

text \<open>One service, from its publication to the dialing.\<close>

lemma publish_one:
  assumes "bi_serviceName bI \<noteq> sd_hostname (thisMachineServiceData a)" "bI \<notin> set (serviceV a)"
  shows "\<exists>a'. HandlePublishedServices (Some (Any_BrowseList [bI])) a = Inr (BVSTATUS_OK, a') \<and>
    outMail a' = outMail a @ [resolve_request bI] \<and> mgr a' = mgr a"
  using assms by (simp add: HandlePublishedServices_def app_SendMessage_def)

lemma resolved_dials:
  assumes c: "cstr (dr_hosttarget res) = Inr ht" "cstr (dr_serviceName res) = Inr sn" and sn: "sn \<noteq> str ''ERROR''"
    and eps: "ae_resolve env 0 ht (to_string (nat (uint (dr_port res)))) = (False, ep # eps)"
    and h: "host_inv (mgr a)" "map_of (nodesM (mgr a)) sn = None"
      "n_serviceName (thisMachineHostData (mgr a)) < sn" "\<not> IsSessionAlreadyPresent sn (mgr a)"
  shows "\<exists>a'. HandleResolvedServices env (Some (Any_Resolution res)) a = Inr (BVSTATUS_OK, a') \<and>
    dialing (mgr a') = dialing (mgr a) @ [next_ref (mgr a)] \<and>
    n_serviceName (nodeData (sess (mgr a') (next_ref (mgr a)))) = sn \<and> n_ep (nodeData (sess (mgr a') (next_ref (mgr a)))) = ep \<and>
    n_results (nodeData (sess (mgr a') (next_ref (mgr a)))) = ep # eps"
proof -
  define node where "node = BVNode_default\<lparr>n_ep := ep, n_address := fst ep, n_hostname := ht, n_serviceName := sn,
      n_results := ep # eps, n_port := uint (dr_port res)\<rparr>"
  have loop: "resolve_loop f 0 acc = (False, ep # eps)" if "f 0 = (False, ep # eps)" for f acc
    using that by (subst resolve_loop.simps) simp
  have r: "ResolveServiceToEndpoint env ht sn (uint (dr_port res)) = Inr node"
    unfolding ResolveServiceToEndpoint_def using loop [of "\<lambda>i. ae_resolve env i ht (to_string (nat (uint (dr_port res))))"] eps
    by (simp add: node_def)
  define h1 where "h1 = snd (AddNodeToNodesM sn node (mgr a))"
  have h1: "host_inv h1" "thisMachineHostData h1 = thisMachineHostData (mgr a)" "dialing h1 = dialing (mgr a)"
      "next_ref h1 = next_ref (mgr a)" "IsSessionAlreadyPresent sn h1 = IsSessionAlreadyPresent sn (mgr a)"
    using h(1,2) by (auto simp: h1_def AddNodeToNodesM_def host_inv_def IsSessionAlreadyPresent_def serviceName_of_def list_ex_iff)
  have nn: "n_serviceName node = sn" "n_ep node = ep" "n_results node = ep # eps" by (simp_all add: node_def)
  obtain h' i where h': "InitiateSessionWithNode node h1 = Inr (BVSTATUS_OK, h')" "dialing h' = dialing h1 @ [next_ref h1]"
      "nodeData (sess h' (next_ref h1)) = node\<lparr>n_id := i\<rparr>"
    using Initiate_session [OF h1(1), of node] h h1 nn by auto
  have "HandleResolvedServices env (Some (Any_Resolution res)) a = Inr (BVSTATUS_OK, a\<lparr>mgr := h'\<rparr>)"
    using c r sn h(2) h'(1) nn(1) by (simp add: HandleResolvedServices_def h1_def [symmetric])
  with h' h1 nn show ?thesis by simp
qed

section \<open>Properties\<close>

text \<open>C34: whatever keys are pressed and whatever arrives, the line being typed holds printable characters only, so a chat message made from it is never mistaken for a file frame by the receiver.\<close>

theorem typed_text_is_plain:
  assumes "rtranclp (app_step env) a a'" and "inputLine a = []"
  shows "plain_chat (ConstructChatMessageFromInput now (inputLine a'))"
proof -
  have "typed_ok a" using assms(2) by (simp add: typed_ok_def)
  from typed_ok_steps [OF assms(1) this] show ?thesis
    by (intro console_chat_plain) (simp add: typed_ok_def)
qed

theorem typed_text_is_plain_witness:
  "plain_chat (ConstructChatMessageFromInput 5 (inputLine (example_app\<lparr>uiState := Chat, stdout := [104], inputLine := [104]\<rparr>)))"
proof -
  have "app_step example_app_env (example_app\<lparr>uiState := Chat\<rparr>) (example_app\<lparr>uiState := Chat, stdout := [104], inputLine := [104]\<rparr>)"
    by (rule app_step.key [of _ False 1 104])
      (simp add: stdin_handler_def Let_def OnKey_def HandleChatKey_def isprint_def emit_def StartStdinRead_def example_app_def)
  then have "rtranclp (app_step example_app_env) (example_app\<lparr>uiState := Chat\<rparr>)
      (example_app\<lparr>uiState := Chat, stdout := [104], inputLine := [104]\<rparr>)"
    by (rule r_into_rtranclp)
  from typed_text_is_plain [OF this] show ?thesis by (simp add: example_app_def)
qed

text \<open>A second file offer that arrives while the first is on the screen wedges the console: the screen to return to is the offer screen itself, and no key, message or posted work ever leaves it again or ends the program.\<close>

theorem second_offer_wedges:
  assumes "posted a = [Post_Offer o1, Post_Offer o2]"
  shows "\<exists>a1 a2. io_post_step env a = Inr a1 \<and> io_post_step env a1 = Inr a2 \<and>
    (\<forall>env' a'. rtranclp (app_step env') a2 a' \<longrightarrow> uiState a' = FileOffer \<and> isRunning a' = isRunning a)"
proof -
  define a1 where "a1 = post_offer o1 (a\<lparr>posted := [Post_Offer o2]\<rparr>)"
  define a2 where "a2 = post_offer o2 (a1\<lparr>posted := []\<rparr>)"
  have p1: "posted a1 = [Post_Offer o2]"
    by (simp add: a1_def post_offer_def RenderFileOffer_def ClearScreen_def emit_def)
  have "io_post_step env a = Inr a1" "io_post_step env a1 = Inr a2"
    using assms p1 by (simp_all add: io_post_step_def a1_def a2_def)
  moreover have "wedged a2" "isRunning a2 = isRunning a"
    by (simp_all add: wedged_def a2_def a1_def post_offer_def)
  ultimately show ?thesis
    using wedged_for_ever unfolding wedged_def by blast
qed

theorem second_offer_wedges_witness:
  "\<exists>a1 a2. io_post_step example_app_env (example_app\<lparr>posted := [Post_Offer \<lparr>po_key = 0, po_sender = str ''bob'', po_fname = str ''a'', po_size = 1\<rparr>,
      Post_Offer \<lparr>po_key = 0, po_sender = str ''carol'', po_fname = str ''b'', po_size = 1\<rparr>]\<rparr>) = Inr a1 \<and>
    io_post_step example_app_env a1 = Inr a2 \<and>
    (\<forall>a'. rtranclp (app_step example_app_env) a2 a' \<longrightarrow> uiState a' = FileOffer)"
  using second_offer_wedges [of "example_app\<lparr>posted := [Post_Offer \<lparr>po_key = 0, po_sender = str ''bob'', po_fname = str ''a'', po_size = 1\<rparr>,
      Post_Offer \<lparr>po_key = 0, po_sender = str ''carol'', po_fname = str ''b'', po_size = 1\<rparr>]\<rparr>" _ _ example_app_env] by (auto 0 3)

lemma session_lines_nth:
  "i < length rs \<Longrightarrow> session_lines h n rs ! i =
     str ''  ('' @ to_string (n + i) @ str '')  '' @ serviceName_of h (snd (rs ! i)) @ str ''   [session '' @
      to_string (unat (sessionID (sess h (snd (rs ! i))))) @ str '', node '' @
      to_string (unat (n_id (nodeData (sess h (snd (rs ! i)))))) @ str '']''"
  by (induction h n rs arbitrary: i rule: session_lines.induct) (auto simp: nth_Cons split: nat.split)

text \<open>The number shown in front of a session in the menu is the number that enters the chat with it.\<close>

theorem menu_number_enters_chat:
  assumes "i < length (sessions_m (mgr a))"
  shows "\<exists>rest. session_lines (mgr a) 1 (sessions_m (mgr a)) ! i =
      str ''  ('' @ to_string (Suc i) @ str '')  '' @ serviceName_of (mgr a) (snd (sessions_m (mgr a) ! i)) @ rest \<and>
    EnterChat env (int (Suc i)) a = RenderChat env
      (a\<lparr>activeChatService := serviceName_of (mgr a) (snd (sessions_m (mgr a) ! i)), uiState := Chat, inputLine := [],
         lastNotification := []\<rparr>)"
  using assms by (simp add: session_lines_nth EnterChat_def GetSessionServiceNamesInDisplayOrder_def case_prod_beta Let_def)

theorem menu_number_enters_chat_witness:
  "EnterChat example_app_env 1 example_app = RenderChat example_app_env (example_app\<lparr>activeChatService := str ''bob'', uiState := Chat\<rparr>)"
proof -
  have "sessions_m (mgr example_app) = [(0, 0)]" "serviceName_of (mgr example_app) 0 = str ''bob''"
    by (simp_all add: example_app_def example_host_def serviceName_of_def example_session_def)
  then show ?thesis
    using menu_number_enters_chat [of 0 example_app example_app_env] by (simp add: example_app_def)
qed

section \<open>Transfers with the same key\<close>

lemma Begin_other:
  "Begin root sn fn fs = (st, fs') \<Longrightarrow> p \<noteq> PathFor root sn fn \<Longrightarrow> fs_files fs' p = fs_files fs p"
  by (auto simp: Begin_def create_directories_def open_trunc_def split: if_splits)

lemma AppendChunk_other:
  "AppendChunk root sn fn d fs = (st, fs') \<Longrightarrow> p \<noteq> PathFor root sn fn \<Longrightarrow> fs_files fs' p = fs_files fs p"
  by (auto simp: AppendChunk_def open_app_def write_app_def Let_def split: if_splits option.splits)

text \<open>Keys are chosen by each sender on its own (they count up from zero), but the receiver files transfers under the key alone: when a second peer begins a transfer with the key of a transfer in progress, the next chunk of the first peer is appended to the second peer's file, and the first file gets nothing more.\<close>

theorem same_key_mixes_files:
  assumes first: "storing env key sn1 fn1 c a" and second: "writable (ae_cwd env) sn2 fn2 (a_fs a)" "bar \<notin> set sn2"
    and other: "PathFor (ae_cwd env) sn1 fn1 \<noteq> PathFor (ae_cwd env) sn2 fn2"
  shows "\<exists>a'. run_mail (console_handlers env)
      [file_mail BVEVENTTYPE_APP_FILE_TRANSFER_BEGIN key cs2 fs2 (sn2 @ str ''|'' @ fn2),
       file_mail BVEVENTTYPE_APP_FILE_TRANSFER_CHUNK_SENT key cs1 fs1 d] a = Inr a' \<and>
    stored (ae_cwd env) sn2 fn2 (a_fs a') = Some d \<and> stored (ae_cwd env) sn1 fn1 (a_fs a') = Some c"
proof -
  obtain f1 where f1: "Begin (ae_cwd env) sn2 fn2 (a_fs a) = (BVSTATUS_OK, f1)" "prepared (ae_cwd env) sn2 fn2 f1"
      "stored (ae_cwd env) sn2 fn2 f1 = Some []"
    using Begin_ok [OF second(1)] by blast
  obtain f2 where f2: "AppendChunk (ae_cwd env) sn2 fn2 d f1 = (BVSTATUS_OK, f2)" "stored (ae_cwd env) sn2 fn2 f2 = Some d"
    using AppendChunk_ok [OF f1(2,3), of d] by auto
  have "stored (ae_cwd env) sn1 fn1 f2 = Some c"
    using first Begin_other [OF f1(1) other] AppendChunk_other [OF f2(1) other] by (simp add: storing_def stored_def)
  then show ?thesis
    using f1(1) f2
    by (simp add: HandleFileTransferBegin_def HandleFileChunkSent_def file_mail_def begin_meta_split [OF second(2)] Let_def emit_def)
qed

theorem same_key_mixes_files_witness:
  "\<exists>a'. run_mail (console_handlers example_app_env)
      [file_mail BVEVENTTYPE_APP_FILE_TRANSFER_BEGIN 0 64 9 (str ''carol|b''),
       file_mail BVEVENTTYPE_APP_FILE_TRANSFER_CHUNK_SENT 0 64 9 [4, 5]]
      (example_app\<lparr>fileTransferData := [(0, (str ''bob'', str ''a''))],
         a_fs := example_fs\<lparr>fs_dirs := (\<lambda>_. True), fs_files := [PathFor (str ''/w'') (str ''bob'') (str ''a'') \<mapsto> [1]]\<rparr>\<rparr>) = Inr a' \<and>
    stored (str ''/w'') (str ''carol'') (str ''b'') (a_fs a') = Some [4, 5] \<and>
    stored (str ''/w'') (str ''bob'') (str ''a'') (a_fs a') = Some [1]"
proof -
  let ?a = "example_app\<lparr>fileTransferData := [(0, (str ''bob'', str ''a''))],
         a_fs := example_fs\<lparr>fs_dirs := (\<lambda>_. True), fs_files := [PathFor (str ''/w'') (str ''bob'') (str ''a'') \<mapsto> [1]]\<rparr>\<rparr>"
  have "storing example_app_env 0 (str ''bob'') (str ''a'') [1] ?a"
    by (simp add: storing_def prepared_def writable_def stored_def example_app_env_def example_fs_def str_def slash_def)
  moreover have "writable (ae_cwd example_app_env) (str ''carol'') (str ''b'') (a_fs ?a)"
    by (simp add: writable_def example_app_env_def example_fs_def str_def slash_def)
  moreover have "bar \<notin> set (str ''carol'')" by (simp add: bar_def str_def)
  moreover have "PathFor (ae_cwd example_app_env) (str ''bob'') (str ''a'') \<noteq> PathFor (ae_cwd example_app_env) (str ''carol'') (str ''b'')"
    by (simp add: PathFor_def DirFor_def path_append_def slash_def str_def example_app_env_def)
  moreover have "str ''carol'' @ str ''|'' @ str ''b'' = str ''carol|b''" "ae_cwd example_app_env = str ''/w''"
    by (simp_all add: str_def example_app_env_def)
  ultimately show ?thesis
    using same_key_mixes_files [of example_app_env 0 "str ''bob''" "str ''a''" "[1]" ?a "str ''carol''" "str ''b''" 64 9 64 9 "[4, 5]"]
    by simp
qed

section \<open>Resolved services\<close>

lemma resolve_loop_fails:
  "(\<And>i. i < 5 \<Longrightarrow> res i = (True, [])) \<Longrightarrow> n \<le> 5 \<Longrightarrow> acc = (True, []) \<or> n < 5 \<Longrightarrow> resolve_loop res n acc = (True, [])"
proof (induction res n acc rule: resolve_loop.induct)
  case (1 res n acc)
  then show ?case by (cases "n < 5") (simp_all add: resolve_loop.simps [of res n] resolve_loop.simps [of res 5])
qed

text \<open>C39: A service whose host cannot be resolved in five attempts ends the application's mailbox thread with an exception: the handler reports an error for it, and the thread treats every error as fatal.\<close>

theorem unresolvable_host_kills_mailbox:
  assumes "cstr (dr_hosttarget res) = Inr hosttarget" and "cstr (dr_serviceName res) = Inr serviceName"
    and "\<And>i. i < 5 \<Longrightarrow> ae_resolve env i hosttarget (to_string (unat (dr_port res))) = (True, [])"
  shows "run_mail (console_handlers env)
      (\<lparr>event_t = BVEVENTTYPE_APP_DISCOVERY_SERVICE_RESOLVED, data_p = Some (Any_Resolution res)\<rparr> # rest) a = Inl Runtime_Error"
proof -
  have "resolve_loop (\<lambda>i. ae_resolve env i hosttarget (to_string (unat (dr_port res)))) 0 (False, []) = (True, [])"
    by (rule resolve_loop_fails) (use assms(3) in auto)
  then have "ResolveServiceToEndpoint env hosttarget serviceName (uint (dr_port res)) =
      Inr (BVNode_default\<lparr>n_serviceName := str ''ERROR''\<rparr>)"
    by (simp add: ResolveServiceToEndpoint_def)
  with assms(1,2) show ?thesis by (simp add: HandleResolvedServices_def)
qed

definition example_resolution :: DNSResolutionResult where
  "example_resolution = \<lparr>dr_fullname = [0], dr_hosttarget = str ''bob.local'' @ [0], dr_port = 50001, dr_txtLen = 0,
     dr_txtRecord = [], dr_serviceName = str ''bob'' @ [0], dr_regType = [0], dr_replyDomain = [0]\<rparr>"

lemma example_resolution_strings:
  "cstr (dr_hosttarget example_resolution) = Inr (str ''bob.local'')" "cstr (dr_serviceName example_resolution) = Inr (str ''bob'')"
  by (simp_all add: cstr_def example_resolution_def str_def)

theorem unresolvable_host_kills_mailbox_witness:
  "run_mail (console_handlers example_app_env)
     [\<lparr>event_t = BVEVENTTYPE_APP_DISCOVERY_SERVICE_RESOLVED, data_p = Some (Any_Resolution example_resolution)\<rparr>] example_app = Inl Runtime_Error"
  by (rule unresolvable_host_kills_mailbox [OF example_resolution_strings]) (simp add: example_app_env_def)

text \<open>A failed connection attempt is final: the node stays in the table of known nodes, so resolving the service again, with any answer of the resolver, neither dials nor changes anything.\<close>

theorem failed_dial_is_final:
  assumes "cstr (dr_hosttarget res) = Inr hosttarget" and "cstr (dr_serviceName res) = Inr serviceName"
    and "ResolveServiceToEndpoint env hosttarget serviceName (uint (dr_port res)) = Inr node" "n_serviceName node \<noteq> str ''ERROR''"
    and "map_of (nodesM (mgr a)) serviceName = Some known" and "ConnectHandler True ep k r (mgr a) = Inr h'"
  shows "HandleResolvedServices env (Some (Any_Resolution res)) (a\<lparr>mgr := h'\<rparr>) = Inr (BVSTATUS_OK, a\<lparr>mgr := h'\<rparr>)"
proof -
  have "nodesM h' = nodesM (mgr a)" using assms(6) by (auto simp: ConnectHandler_def Let_def)
  with assms(1-5) show ?thesis by (simp add: HandleResolvedServices_def)
qed

theorem failed_dial_is_final_witness:
  "\<exists>h'. ConnectHandler True ([], 0) example_sock 1 (example_host\<lparr>nodesM := [(str ''bob'', BVNode_default)], dialing := [1]\<rparr>) = Inr h' \<and>
     HandleResolvedServices (example_app_env\<lparr>ae_resolve := (\<lambda>_ _ _. (False, [([1], 50001)]))\<rparr>) (Some (Any_Resolution example_resolution))
       (example_app\<lparr>mgr := h'\<rparr>) = Inr (BVSTATUS_OK, example_app\<lparr>mgr := h'\<rparr>)"
proof -
  let ?e = "example_app_env\<lparr>ae_resolve := (\<lambda>_ _ _. (False, [([1], 50001)]))\<rparr>"
  let ?a = "example_app\<lparr>mgr := example_host\<lparr>nodesM := [(str ''bob'', BVNode_default)], dialing := [1]\<rparr>\<rparr>"
  obtain h' where h': "ConnectHandler True ([], 0) example_sock 1 (mgr ?a) = Inr h'"
    by (simp add: ConnectHandler_def Let_def)
  have n: "ResolveServiceToEndpoint ?e (str ''bob.local'') (str ''bob'') (uint (dr_port example_resolution)) =
      Inr (BVNode_default\<lparr>n_ep := ([1], 50001), n_address := [1], n_hostname := str ''bob.local'', n_serviceName := str ''bob'',
        n_results := [([1], 50001)], n_port := uint (dr_port example_resolution)\<rparr>)"
    by (simp add: ResolveServiceToEndpoint_def resolve_loop.simps)
  have "map_of (nodesM (mgr ?a)) (str ''bob'') = Some BVNode_default" by simp
  from failed_dial_is_final [OF example_resolution_strings n _ this h'] h' show ?thesis by (simp add: str_def)
qed

section \<open>Published services\<close>

lemma publish_result:
  "publish own es sv tr = (sv', tr') \<Longrightarrow> distinct sv \<Longrightarrow>
     \<exists>new. sv' = sv @ new \<and> tr' = tr @ new \<and> distinct sv' \<and>
       set new = {e \<in> set es. bi_serviceName e \<noteq> own} - set sv"
proof (induction own es sv tr arbitrary: sv' tr' rule: publish.induct)
  case (1 own sv tr)
  then show ?case by auto
next
  case (2 own e es sv tr)
  show ?case
  proof (cases "e \<in> set sv \<or> bi_serviceName e = own")
    case True
    then have "publish own es sv tr = (sv', tr')" using 2 by (auto split: if_splits)
    with 2 True show ?thesis by (auto simp: insert_Diff_if Collect_disj_eq split: if_splits)
  next
    case False
    then have p: "publish own es (sv @ [e]) (tr @ [e]) = (sv', tr')" using 2 by simp
    have "distinct (sv @ [e])" using 2 False by simp
    with 2 False p obtain new where new: "sv' = (sv @ [e]) @ new" "tr' = (tr @ [e]) @ new" "distinct sv'"
        "set new = {e \<in> set es. bi_serviceName e \<noteq> own} - set (sv @ [e])"
      by auto
    then show ?thesis using False by (intro exI [of _ "e # new"]) auto
  qed
qed

lemma PrintAll_serviceV [simp]: "serviceV (PrintAll a) = serviceV a"
proof -
  have "same_but_stdout b c \<Longrightarrow> serviceV c = serviceV b" for b c
    unfolding same_but_stdout_def by (cases b; cases c) simp
  then show ?thesis using same_but_stdout_PrintAll by blast
qed

text \<open>C25: when discovery publishes services, exactly those that are new and not this machine's own are added to the list, each once, and for exactly those, in the same order, a request to resolve them is sent.\<close>

theorem published_services_resolved:
  assumes "distinct (serviceV a)"
  shows "\<exists>new a'. HandlePublishedServices (Some (Any_BrowseList es)) a = Inr (BVSTATUS_OK, a') \<and>
    serviceV a' = serviceV a @ new \<and> distinct (serviceV a') \<and>
    set new = {e \<in> set es. bi_serviceName e \<noteq> sd_hostname (thisMachineServiceData a)} - set (serviceV a) \<and>
    outMail a' = outMail a @ map resolve_request new"
proof -
  obtain sv tr where p: "publish (sd_hostname (thisMachineServiceData a)) es (serviceV a) [] = (sv, tr)"
    by (cases "publish (sd_hostname (thisMachineServiceData a)) es (serviceV a) []")
  from publish_result [OF p assms] obtain new where new: "sv = serviceV a @ new" "tr = new" "distinct sv"
      "set new = {e \<in> set es. bi_serviceName e \<noteq> sd_hostname (thisMachineServiceData a)} - set (serviceV a)"
    by auto
  define a' where "a' = PrintAll (fold (\<lambda>e. app_SendMessage (resolve_request e)) new (a\<lparr>serviceV := sv\<rparr>))"
  have "HandlePublishedServices (Some (Any_BrowseList es)) a = Inr (BVSTATUS_OK, a')"
    by (simp only: HandlePublishedServices_def option.case any.case p prod.case new(2) a'_def)
  moreover have "serviceV a' = sv" "outMail a' = outMail a @ map resolve_request new"
    by (simp_all add: a'_def fold_app_SendMessage)
  ultimately show ?thesis using new by blast
qed

definition example_instance :: "bytes \<Rightarrow> BVServiceBrowseInstance" where
  "example_instance n = \<lparr>bi_serviceName = n, bi_regType = SERVICETYPE_STR, bi_replyDomain = str ''local.''\<rparr>"

definition example_found :: "BVServiceBrowseInstance list" where
  "example_found = [example_instance (str ''alice''), example_instance (str ''bob''), example_instance (str ''bob'')]"

theorem published_services_resolved_witness:
  "\<exists>a'. HandlePublishedServices (Some (Any_BrowseList example_found)) example_app = Inr (BVSTATUS_OK, a') \<and>
     set (serviceV a') = {example_instance (str ''bob'')} \<and> distinct (serviceV a')"
proof -
  have v: "serviceV example_app = []" "sd_hostname (thisMachineServiceData example_app) = str ''alice''"
    by (simp_all add: example_app_def example_service_def)
  have "{e \<in> set example_found. bi_serviceName e \<noteq> str ''alice''} = {example_instance (str ''bob'')}"
    by (auto simp: example_found_def example_instance_def str_def)
  with published_services_resolved [of example_app example_found] v show ?thesis by force
qed

section \<open>Deregistered services\<close>

definition gone :: "bytes \<Rightarrow> host \<Rightarrow> bool" where
  "gone n h \<longleftrightarrow> \<not> IsSessionAlreadyPresent n h \<and> map_of (nodesM h) n = None"

lemma host_inv_erase_node: "host_inv h \<Longrightarrow> host_inv (h\<lparr>nodesM := omap_erase n (nodesM h)\<rparr>)"
  by (simp add: host_inv_def serviceName_of_def)

lemma RemoveSession_nodes: "nodesM (snd (RemoveSession n h)) = nodesM h"
  by (simp add: RemoveSession_def release_def set_sess_def split: option.splits)

lemma RemoveSession_gone:
  assumes inv: "host_inv h"
  shows "host_inv (snd (RemoveSession n h)) \<and> \<not> IsSessionAlreadyPresent n (snd (RemoveSession n h)) \<and>
    (\<not> IsSessionAlreadyPresent m h \<longrightarrow> \<not> IsSessionAlreadyPresent m (snd (RemoveSession n h)))"
proof (cases "GetSessionIDFromServiceName n h")
  case None
  then have "snd (RemoveSession n h) = h" "\<not> IsSessionAlreadyPresent n h"
    using present_iff [OF inv] by (simp_all add: RemoveSession_def GetSessionIDFromServiceName_def)
  with inv show ?thesis by simp
next
  case (Some sid)
  note r = RemoveSession_ok [OF inv Some]
  then have inv': "host_inv (snd (RemoveSession n h))" by blast
  show ?thesis
    using r present_iff [OF inv] present_iff [OF inv'] unfolding GetSessionIDFromServiceName_def by metis
qed

lemma deregister_gone:
  assumes inv: "host_inv (mgr a)"
  shows "host_inv (mgr (deregister e a))" and "gone m (mgr a) \<Longrightarrow> gone m (mgr (deregister e a))"
    and "bi_serviceName e \<in> bi_serviceName ` set (serviceV a) \<Longrightarrow> gone (bi_serviceName e) (mgr (deregister e a))"
    and "serviceV (deregister e a) = filter (\<lambda>s. bi_serviceName s \<noteq> bi_serviceName e) (serviceV a)"
proof -
  let ?h = "(mgr a)\<lparr>nodesM := omap_erase (bi_serviceName e) (nodesM (mgr a))\<rparr>"
  have p: "IsSessionAlreadyPresent n ?h = IsSessionAlreadyPresent n (mgr a)" for n
    by (simp add: IsSessionAlreadyPresent_def serviceName_of_def)
  note g = RemoveSession_gone [OF host_inv_erase_node [OF inv, of "bi_serviceName e"], of "bi_serviceName e"]
  have shorter: "length (filter (\<lambda>s. bi_serviceName s \<noteq> bi_serviceName e) (serviceV a)) < length (serviceV a)"
    if "bi_serviceName e \<in> bi_serviceName ` set (serviceV a)"
    using that by (auto intro: length_filter_less)
  show "host_inv (mgr (deregister e a))" using g inv by (simp add: deregister_def Let_def)
  show "gone m (mgr (deregister e a))" if "gone m (mgr a)"
    using that g [of m] by (simp add: deregister_def Let_def gone_def RemoveSession_nodes p)
  show "gone (bi_serviceName e) (mgr (deregister e a))" if "bi_serviceName e \<in> bi_serviceName ` set (serviceV a)"
    using shorter [OF that] g by (simp add: deregister_def Let_def gone_def RemoveSession_nodes)
  show "serviceV (deregister e a) = filter (\<lambda>s. bi_serviceName s \<noteq> bi_serviceName e) (serviceV a)"
    by (simp add: deregister_def Let_def)
qed

lemma deregister_all:
  "host_inv (mgr a) \<Longrightarrow>
     host_inv (mgr (fold deregister l a)) \<and>
     serviceV (fold deregister l a) = filter (\<lambda>s. bi_serviceName s \<notin> bi_serviceName ` set l) (serviceV a) \<and>
     (\<forall>n. gone n (mgr a) \<or> n \<in> bi_serviceName ` set l \<inter> bi_serviceName ` set (serviceV a) \<longrightarrow> gone n (mgr (fold deregister l a)))"
proof (induction l arbitrary: a)
  case Nil
  then show ?case by simp
next
  case (Cons e l)
  note d = deregister_gone [OF Cons.prems]
  note IH = Cons.IH [OF d(1) [of e]]
  have n: "gone n (mgr (fold deregister l (deregister e a)))"
    if "gone n (mgr a) \<or> n \<in> bi_serviceName ` set (e # l) \<inter> bi_serviceName ` set (serviceV a)" for n
  proof (cases "n = bi_serviceName e")
    case True
    then show ?thesis using that IH d(2) [of n e] d(3) [of e] by auto
  next
    case False
    then have "gone n (mgr (deregister e a)) \<or> n \<in> bi_serviceName ` set l \<inter> bi_serviceName ` set (serviceV (deregister e a))"
      using that d(2) d(4) [of e] by auto
    then show ?thesis using IH by blast
  qed
  show ?case using IH d(4) [of e] n by (auto intro: filter_cong)
qed

text \<open>C24: when discovery reports services as gone, they leave the list of services, their sessions are removed and their nodes forgotten, so that they can be dialed again when they come back; the session table stays consistent.\<close>

theorem deregistration_forgets:
  assumes "host_inv (mgr a)"
  shows "\<exists>a'. HandleServiceDeregistration (Some (Any_BrowseList l)) a = Inr (BVSTATUS_OK, a') \<and> host_inv (mgr a') \<and>
    serviceV a' = filter (\<lambda>s. bi_serviceName s \<notin> bi_serviceName ` set l) (serviceV a) \<and>
    (\<forall>n. n \<in> bi_serviceName ` set l \<inter> bi_serviceName ` set (serviceV a) \<longrightarrow>
       \<not> IsSessionAlreadyPresent n (mgr a') \<and> map_of (nodesM (mgr a')) n = None)"
  using deregister_all [OF assms, of l] by (simp add: HandleServiceDeregistration_def gone_def)

theorem deregistration_forgets_witness:
  "\<exists>a'. HandleServiceDeregistration (Some (Any_BrowseList [example_instance (str ''bob'')]))
      (example_app\<lparr>serviceV := [example_instance (str ''bob'')]\<rparr>) = Inr (BVSTATUS_OK, a') \<and>
    serviceV a' = [] \<and> \<not> IsSessionAlreadyPresent (str ''bob'') (mgr a')"
  using deregistration_forgets [of "example_app\<lparr>serviceV := [example_instance (str ''bob'')]\<rparr>" "[example_instance (str ''bob'')]"] example_host_inv
  by (auto simp: example_app_def example_instance_def)

end
