(* ===== verification/Gui_Client.thy ===== *)
theory Gui_Client
  imports Console_Properties
begin

text \<open>
  The macOS client of \<open>src/mac-gui/BVApp_GuiClient.hpp\<close>: a subclass of the console client
  that keeps its state and its handlers, adds notifications for an observer, offers the user
  answers, a status line and a directory for received files, and posts the work of the user
  interface's thread to the event loop. The first theorems show that it does to the state it
  inherits what the console client does; the others are about what it adds.
\<close>

section \<open>Data\<close>

datatype BVGuiEvent = ServicesChanged | SessionsChanged | MessagesChanged | FileProgress | FileOffered

record BVFileOffer =
  fo_correlationKey :: u32
  fo_fileName :: bytes
  fo_sender :: bytes
  fo_size :: u64

text \<open>Work posted to the event loop by the GUI's thread.\<close>

datatype gui_post =
    Post_Text bytes bytes  \<comment> \<open>service name, text\<close>
  | Post_File bytes bytes  \<comment> \<open>service name, path\<close>
  | Post_Answer bytes u32 bool  \<comment> \<open>sender, key, accept\<close>

text \<open>
  The client: the console client it inherits from, its own fields, the events the observer was
  given, and the posted work. \<open>observed\<close>: whether an observer is set.
\<close>

record gui =
  base :: app
  observed :: bool
  notified :: "BVGuiEvent list"
  pendingOffers :: "BVFileOffer list"
  offerSenders :: "(u32, bytes) omap"
  saveDir :: bytes
  xferStatus :: bytes
  xferName :: bytes
  xferTotal :: u64
  xferReceived :: u64
  gui_posted :: "gui_post list"

text \<open>The environment, with what \<open>std::filesystem::rename\<close> and \<open>copy_file\<close> answer.\<close>

record gui_env =
  ge_app :: app_env
  ge_rename_ok :: "bytes \<Rightarrow> bytes \<Rightarrow> bool"
  ge_copy_ok :: "bytes \<Rightarrow> bytes \<Rightarrow> bool"

section \<open>Constructors\<close>

text \<open>
  The console client as it is constructed, over an event loop that may have been stopped before; the other
  arguments are those of the connection manager, and the file system.
\<close>

definition BVApp_ConsoleClient_ctor ::
  "bool \<Rightarrow> bool \<Rightarrow> bool \<Rightarrow> endpoint list \<Rightarrow> fsys \<Rightarrow> BVServiceData \<Rightarrow> app result" where
  "BVApp_ConsoleClient_ctor stopped hard_fail ec results fs sd =
     rbind (BVTCPConnectionManager_ctor hard_fail ec results sd) (\<lambda>h. Inr
       \<lparr>uiState = MainMenu, priorUiState = MainMenu, activeChatService = [], inputLine = [], lastNotification = [],
        pendingOffer = None, recvBytes = 0, serviceV = [], chatLogsM = [], fileTransferData = [], isRunning = True,
        ioStopped = stopped, stdinArmed = False, thisMachineServiceData = sd, mgr = h, outMail = [], posted = [],
        a_fs = fs, stdout = []\<rparr>)"

definition BVApp_GuiClient_ctor ::
  "bool \<Rightarrow> bool \<Rightarrow> bool \<Rightarrow> endpoint list \<Rightarrow> fsys \<Rightarrow> BVServiceData \<Rightarrow> gui result" where
  "BVApp_GuiClient_ctor stopped hard_fail ec results fs sd =
     rbind (BVApp_ConsoleClient_ctor stopped hard_fail ec results fs sd) (\<lambda>a. Inr
       \<lparr>base = a, observed = False, notified = [], pendingOffers = [], offerSenders = [], saveDir = [], xferStatus = [],
        xferName = [], xferTotal = 0, xferReceived = 0, gui_posted = []\<rparr>)"

section \<open>Accessors and actions\<close>

definition Notify :: "BVGuiEvent \<Rightarrow> gui \<Rightarrow> gui" where
  "Notify e g = (if observed g then g\<lparr>notified := notified g @ [e]\<rparr> else g)"

definition Shutdown :: "gui \<Rightarrow> gui" where
  "Shutdown g =
     g\<lparr>base := StopIOContext ((app_SendMessage \<lparr>event_t = BVEVENTTYPE_TERMINATE_ALL, data_p = None\<rparr> (base g))\<lparr>isRunning := False\<rparr>)\<rparr>"

definition Services :: "gui \<Rightarrow> BVServiceBrowseInstance list" where
  "Services g = serviceV (base g)"

definition Sessions :: "gui \<Rightarrow> bytes list" where
  "Sessions g = GetSessionServiceNamesInDisplayOrder (mgr (base g))"

definition MessagesFor :: "bytes \<Rightarrow> gui \<Rightarrow> BVChatMessage list" where
  "MessagesFor serviceName g =
     (case map_of (chatLogsM (base g)) serviceName of None \<Rightarrow> [] | Some log \<Rightarrow> cl_logV log)"

definition TransferStatus :: "gui \<Rightarrow> bytes" where
  "TransferStatus g =
     (let outgoing = CurrentOutgoingTransferStatus (mgr (base g)) in if outgoing \<noteq> [] then outgoing else xferStatus g)"

definition AppendChatEntry :: "bytes \<Rightarrow> bytes \<Rightarrow> bytes \<Rightarrow> gui \<Rightarrow> gui" where
  "AppendChatEntry serviceName entry sender g =
     g\<lparr>base := log_message serviceName \<lparr>cm_textData = entry, cm_sender = sender, cm_timestamp = 0\<rparr> (base g)\<rparr>"

definition SendText :: "bytes \<Rightarrow> bytes \<Rightarrow> gui \<Rightarrow> bool \<times> gui" where
  "SendText serviceName msg g = (True, g\<lparr>gui_posted := gui_posted g @ [Post_Text serviceName msg]\<rparr>)"

definition SendFile :: "bytes \<Rightarrow> bytes \<Rightarrow> gui \<Rightarrow> bool \<times> gui" where
  "SendFile serviceName path g =
     (if fs_files (a_fs (base g)) path = None then (False, g)
      else (True, g\<lparr>gui_posted := gui_posted g @ [Post_File serviceName path]\<rparr>))"

text \<open>The bytes of the paper clip sign.\<close>

definition clip :: bytes where "clip = [0xF0, 0x9F, 0x93, 0x8E, 32]"

definition post_text :: "app_env \<Rightarrow> bytes \<Rightarrow> bytes \<Rightarrow> gui \<Rightarrow> gui result" where
  "post_text env serviceName msg g =
     (case GetSessionIDFromServiceName serviceName (mgr (base g)) of
        None \<Rightarrow> Inr g
      | Some sid \<Rightarrow>
          (let chatMsg = ConstructChatMessageFromInput (ae_now env) msg;
               timestamp = mh_timestamp (m_header chatMsg)
           in rbind (SendDataToNode chatMsg sid (mgr (base g))) (\<lambda>(st, h).
                (let g = g\<lparr>base := (base g)\<lparr>mgr := h\<rparr>\<rparr> in
                 if st = BVSTATUS_FATAL_ERROR then Inr g
                 else Inr (Notify MessagesChanged
                   (g\<lparr>base := log_message serviceName
                        \<lparr>cm_textData = msg, cm_sender = sd_hostname (thisMachineServiceData (base g)), cm_timestamp = timestamp\<rparr>
                        (base g)\<rparr>))))))"

definition post_file :: "app_env \<Rightarrow> bytes \<Rightarrow> bytes \<Rightarrow> gui \<Rightarrow> gui result" where
  "post_file env serviceName p g =
     (case GetSessionIDFromServiceName serviceName (mgr (base g)) of
        None \<Rightarrow> Inr g
      | Some sid \<Rightarrow>
          rbind (InitiateFileTransferWithSession (ae_now env) (a_fs (base g)) sid p (mgr (base g))) (\<lambda>(st, h).
            (let g = g\<lparr>base := (base g)\<lparr>mgr := h\<rparr>\<rparr>;
                 g = AppendChatEntry serviceName (clip @ str ''Sent file: '' @ path_filename p)
                       (sd_hostname (thisMachineServiceData (base g))) g;
                 g = g\<lparr>xferStatus := str ''Sent '' @ path_filename p\<rparr>
             in Inr (Notify FileProgress (Notify MessagesChanged g)))))"

definition post_answer :: "app_env \<Rightarrow> bytes \<Rightarrow> u32 \<Rightarrow> bool \<Rightarrow> gui \<Rightarrow> gui" where
  "post_answer env sender key accept g =
     g\<lparr>base := (base g)\<lparr>mgr := RespondToFileOffer (ae_now env) sender key accept (mgr (base g))\<rparr>\<rparr>"

definition gui_post_step :: "app_env \<Rightarrow> gui \<Rightarrow> gui result" where
  "gui_post_step env g =
     (case gui_posted g of
        [] \<Rightarrow> Inr g
      | p # ps \<Rightarrow>
          (let g = g\<lparr>gui_posted := ps\<rparr> in
           case p of
             Post_Text serviceName msg \<Rightarrow> post_text env serviceName msg g
           | Post_File serviceName path \<Rightarrow> post_file env serviceName path g
           | Post_Answer sender key accept \<Rightarrow> Inr (post_answer env sender key accept g)))"

definition RespondToOffer :: "u32 \<Rightarrow> bool \<Rightarrow> gui \<Rightarrow> gui" where
  "RespondToOffer key accept g =
     (let sender = (case map_of (offerSenders g) key of None \<Rightarrow> [] | Some s \<Rightarrow> s);
          g = g\<lparr>offerSenders := omap_erase key (offerSenders g)\<rparr>
      in if sender = [] then g else g\<lparr>gui_posted := gui_posted g @ [Post_Answer sender key accept]\<rparr>)"

definition AcceptFile :: "u32 \<Rightarrow> gui \<Rightarrow> gui" where
  "AcceptFile key = RespondToOffer key True"

definition RejectFile :: "u32 \<Rightarrow> gui \<Rightarrow> gui" where
  "RejectFile key = RespondToOffer key False"

definition TakeFileOffers :: "gui \<Rightarrow> BVFileOffer list \<times> gui" where
  "TakeFileOffers g = (pendingOffers g, g\<lparr>pendingOffers := []\<rparr>)"

definition SetSaveDirectory :: "bytes \<Rightarrow> gui \<Rightarrow> gui" where
  "SetSaveDirectory dir g = g\<lparr>saveDir := dir\<rparr>"

section \<open>Handlers\<close>

text \<open>The handler of the console client, then a notification.\<close>

definition inherited ::
  "(any option \<Rightarrow> app \<Rightarrow> (BVStatus \<times> app) result) \<Rightarrow> BVGuiEvent \<Rightarrow> any option \<Rightarrow> gui \<Rightarrow> (BVStatus \<times> gui) result" where
  "inherited f e dp g = rbind (f dp (base g)) (\<lambda>(s, a). Inr (s, Notify e (g\<lparr>base := a\<rparr>)))"

definition gui_HandlePublishedServices :: "any option \<Rightarrow> gui \<Rightarrow> (BVStatus \<times> gui) result" where
  "gui_HandlePublishedServices = inherited HandlePublishedServices ServicesChanged"

definition gui_HandleResolvedServices :: "gui_env \<Rightarrow> any option \<Rightarrow> gui \<Rightarrow> (BVStatus \<times> gui) result" where
  "gui_HandleResolvedServices env = inherited (HandleResolvedServices (ge_app env)) SessionsChanged"

definition gui_HandleServiceDeregistration :: "any option \<Rightarrow> gui \<Rightarrow> (BVStatus \<times> gui) result" where
  "gui_HandleServiceDeregistration = inherited HandleServiceDeregistration ServicesChanged"

definition gui_HandleMessageIncoming :: "any option \<Rightarrow> gui \<Rightarrow> (BVStatus \<times> gui) result" where
  "gui_HandleMessageIncoming = inherited HandleMessageIncoming MessagesChanged"

text \<open>Sender and file name of an offer; without a bar the whole text is the file name.\<close>

definition gui_meta :: "bytes \<Rightarrow> bytes \<times> bytes" where
  "gui_meta d =
     (let meta = takeWhile (\<lambda>c. c \<noteq> 0) d in
      case find_first bar meta of None \<Rightarrow> ([], meta) | Some i \<Rightarrow> (take i meta, drop (i + 1) meta))"

definition gui_HandleFileOffer :: "any option \<Rightarrow> gui \<Rightarrow> (BVStatus \<times> gui) result" where
  "gui_HandleFileOffer dp g =
     (case dp of
        Some (Any_FileData fd) \<Rightarrow>
          (let (sender, name) = gui_meta (fd_fdata fd) in
           Inr (BVSTATUS_OK, Notify FileOffered
             (g\<lparr>pendingOffers := pendingOffers g @
                  [\<lparr>fo_correlationKey = fd_correlationKey fd, fo_fileName = name, fo_sender = sender, fo_size = ucast (fd_fsize fd)\<rparr>],
                offerSenders := omap_put (fd_correlationKey fd) sender (offerSenders g)\<rparr>)))
      | _ \<Rightarrow> Inr (BVSTATUS_OK, g))"

definition ellipsis :: bytes where "ellipsis = [0xE2, 0x80, 0xA6]"

definition gui_HandleFileTransferBegin :: "gui_env \<Rightarrow> any option \<Rightarrow> gui \<Rightarrow> (BVStatus \<times> gui) result" where
  "gui_HandleFileTransferBegin env dp g =
     (let g = (case dp of
          Some (Any_FileData fd) \<Rightarrow>
            (let name = snd (gui_meta (fd_fdata fd)) in
             g\<lparr>xferName := name, xferTotal := ucast (fd_fsize fd), xferReceived := 0,
               xferStatus := str ''Receiving '' @ name @ ellipsis @ str '' 0%''\<rparr>)
        | _ \<Rightarrow> g)
      in inherited (HandleFileTransferBegin (ge_app env)) FileProgress dp g)"

definition gui_HandleFileChunkSent :: "gui_env \<Rightarrow> any option \<Rightarrow> gui \<Rightarrow> (BVStatus \<times> gui) result" where
  "gui_HandleFileChunkSent env dp g =
     (let g = (case dp of
          Some (Any_FileData fd) \<Rightarrow>
            (let received = xferReceived g + ucast (fd_csize fd);
                 g = g\<lparr>xferReceived := received\<rparr>
             in if xferTotal g > 0 then
                  (let pct = received * 100 div xferTotal g;
                       pct = (if pct > 100 then 100 else pct)
                   in g\<lparr>xferStatus := str ''Receiving '' @ xferName g @ ellipsis @ str '' '' @ to_string (unat pct) @ str ''%''\<rparr>)
                else g)
        | _ \<Rightarrow> g)
      in inherited (HandleFileChunkSent (ge_app env)) FileProgress dp g)"

text \<open>Moving the received file into the directory the user chose: renaming, or copying and removing.\<close>

definition fs_rename :: "gui_env \<Rightarrow> bytes \<Rightarrow> bytes \<Rightarrow> fsys \<Rightarrow> bool \<times> fsys" where
  "fs_rename env src dst fs =
     (case fs_files fs src of
        None \<Rightarrow> (False, fs)
      | Some c \<Rightarrow>
          (if ge_rename_ok env src dst \<and> fs_dirs fs (parent_path dst)
           then (True, fs\<lparr>fs_files := (fs_files fs)(src := None, dst \<mapsto> c)\<rparr>) else (False, fs)))"

definition fs_copy :: "gui_env \<Rightarrow> bytes \<Rightarrow> bytes \<Rightarrow> fsys \<Rightarrow> bool \<times> fsys" where
  "fs_copy env src dst fs =
     (case fs_files fs src of
        None \<Rightarrow> (False, fs)
      | Some c \<Rightarrow>
          (if ge_copy_ok env src dst \<and> fs_dirs fs (parent_path dst) \<and> src \<noteq> dst
           then (True, fs\<lparr>fs_files := (fs_files fs)(dst \<mapsto> c)\<rparr>) else (False, fs)))"

definition move_received :: "gui_env \<Rightarrow> bytes \<Rightarrow> bytes \<Rightarrow> bytes \<Rightarrow> fsys \<Rightarrow> bytes \<times> fsys" where
  "move_received env dir serviceName fileName fs =
     (let src = PathFor (ae_cwd (ge_app env)) serviceName fileName in
      if dir = [] then (src, fs)
      else
        (let dstDir = path_append dir serviceName;
             dst = path_append dstDir fileName;
             fs = snd (create_directories dstDir fs)
         in case fs_rename env src dst fs of
              (True, fs) \<Rightarrow> (dst, fs)
            | (False, fs) \<Rightarrow>
                (case fs_copy env src dst fs of
                   (True, fs) \<Rightarrow> (dst, fs\<lparr>fs_files := (fs_files fs)(src := None)\<rparr>)
                 | (False, fs) \<Rightarrow> (src, fs))))"

definition gui_HandleFileTransferEnd :: "gui_env \<Rightarrow> any option \<Rightarrow> gui \<Rightarrow> (BVStatus \<times> gui) result" where
  "gui_HandleFileTransferEnd env dp g =
     (let info = (case dp of
          Some (Any_FileData fd) \<Rightarrow> map_of (fileTransferData (base g)) (fd_correlationKey fd)
        | _ \<Rightarrow> None)
      in rbind (HandleFileTransferEnd (ge_app env) dp (base g)) (\<lambda>(s, a).
           (let g = g\<lparr>base := a\<rparr>;
                g = (case info of
                  None \<Rightarrow> g
                | Some (serviceName, fileName) \<Rightarrow>
                    (case move_received env (saveDir g) serviceName fileName (a_fs (base g)) of
                       (finalPath, fs) \<Rightarrow>
                         (let g = AppendChatEntry serviceName (clip @ str ''Received file: '' @ fileName) serviceName
                                    (g\<lparr>base := (base g)\<lparr>a_fs := fs\<rparr>\<rparr>)
                          in g\<lparr>xferStatus := str ''Saved '' @ fileName @ str '' to '' @ parent_path finalPath,
                               xferReceived := 0, xferTotal := 0\<rparr>)))
            in Inr (s, Notify MessagesChanged g))))"

text \<open>The handlers the constructor of the console client registers, overridden.\<close>

definition gui_handlers :: "gui_env \<Rightarrow> gui handlers" where
  "gui_handlers env e =
     map_of
       [(BVEVENTTYPE_APP_PUBLISHED_SERVICE, gui_HandlePublishedServices),
        (BVEVENTTYPE_TERMINATE_ALL, (\<lambda>dp g. rbind (OnShutdown dp (base g)) (\<lambda>(s, a). Inr (s, g\<lparr>base := a\<rparr>)))),
        (BVEVENTTYPE_APP_DISCOVERY_SERVICE_RESOLVED, gui_HandleResolvedServices env),
        (BVEVENTTYPE_APP_DEREGISTERED_SERVICE, gui_HandleServiceDeregistration),
        (BVEVENTTYPE_APP_MESSAGE_INCOMING, gui_HandleMessageIncoming),
        (BVEVENTTYPE_APP_FILE_OFFER, gui_HandleFileOffer),
        (BVEVENTTYPE_APP_FILE_TRANSFER_BEGIN, gui_HandleFileTransferBegin env),
        (BVEVENTTYPE_APP_FILE_TRANSFER_CHUNK_SENT, gui_HandleFileChunkSent env),
        (BVEVENTTYPE_APP_FILE_TRANSFER_END, gui_HandleFileTransferEnd env)] e"

section \<open>The console client inside\<close>

lemma Notify_fields [simp]: "base (Notify e g) = base g" "saveDir (Notify e g) = saveDir g" "xferStatus (Notify e g) = xferStatus g"
    "pendingOffers (Notify e g) = pendingOffers g" "offerSenders (Notify e g) = offerSenders g" "gui_posted (Notify e g) = gui_posted g"
  by (simp_all add: Notify_def)

text \<open>Events whose handlers leave the base to the console client.\<close>

definition plain_events :: "BVEventType set" where
  "plain_events = {BVEVENTTYPE_APP_PUBLISHED_SERVICE, BVEVENTTYPE_TERMINATE_ALL, BVEVENTTYPE_APP_DISCOVERY_SERVICE_RESOLVED,
     BVEVENTTYPE_APP_DEREGISTERED_SERVICE, BVEVENTTYPE_APP_MESSAGE_INCOMING, BVEVENTTYPE_APP_FILE_TRANSFER_BEGIN,
     BVEVENTTYPE_APP_FILE_TRANSFER_CHUNK_SENT}"

lemma inherited_base: "map_sum id (map_prod id base) (inherited f e dp g) = f dp (base g)"
  by (cases "f dp (base g)") (auto simp: inherited_def)

lemma handler_base:
  assumes "e \<in> plain_events"
  shows "\<exists>f h. console_handlers (ge_app env) e = Some f \<and> gui_handlers env e = Some h \<and>
    (\<forall>dp g. map_sum id (map_prod id base) (h dp g) = f dp (base g))"
proof -
  have b: "base (case dp of Some (Any_FileData fd) \<Rightarrow> u fd | _ \<Rightarrow> g) = base g" if "\<And>fd. base (u fd) = base g" for dp u g
    using that by (simp split: option.splits any.splits)
  have shut: "map_sum id (map_prod id base) (rbind (OnShutdown dp (base g)) (\<lambda>(s, a). Inr (s, g\<lparr>base := a\<rparr>))) = OnShutdown dp (base g)" for dp g
    by (simp add: OnShutdown_def)
  show ?thesis
    using assms
    by (auto simp: plain_events_def console_handlers_def console_callbacks_def gui_handlers_def shut gui_HandlePublishedServices_def
        gui_HandleResolvedServices_def gui_HandleServiceDeregistration_def gui_HandleMessageIncoming_def gui_HandleFileTransferBegin_def
        gui_HandleFileChunkSent_def inherited_base Let_def b)
qed

interpretation gui_sim: handler_simulation base "gui_handlers env" "console_handlers (ge_app env)" plain_events for env
  by unfold_locales (rule handler_base)

section \<open>Where a received file ends up\<close>

lemma move_received_content:
  assumes "fs_files fs (PathFor (ae_cwd (ge_app env)) sn fn) = Some c"
  shows "\<exists>p fs'. move_received env dir sn fn fs = (p, fs') \<and> fs_files fs' p = Some c \<and>
    p \<in> {PathFor (ae_cwd (ge_app env)) sn fn, path_append (path_append dir sn) fn}"
proof -
  have "fs_files (snd (create_directories x fs)) = fs_files fs" for x by (simp add: create_directories_def)
  with assms show ?thesis
    by (auto simp: move_received_def fs_rename_def fs_copy_def Let_def split: prod.splits bool.splits if_splits)
qed

section \<open>A concrete client\<close>

definition example_gui :: gui where
  "example_gui = \<lparr>base = example_app, observed = True, notified = [], pendingOffers = [], offerSenders = [], saveDir = str ''/home'',
     xferStatus = [], xferName = [], xferTotal = 0, xferReceived = 0, gui_posted = []\<rparr>"

definition example_gui_env :: gui_env where
  "example_gui_env = \<lparr>ge_app = example_app_env, ge_rename_ok = (\<lambda>_ _. False), ge_copy_ok = (\<lambda>_ _. True)\<rparr>"

definition example_offer :: "u32 \<Rightarrow> bytes \<Rightarrow> any option" where
  "example_offer key meta = Some (Any_FileData \<lparr>fd_correlationKey = key, fd_csize = 0, fd_fsize = 9, fd_fdata = meta\<rparr>)"

section \<open>Properties\<close>



text \<open>A text sent from the client has the effect of the same line typed in the console client, unless the console client takes it for a file command; the client only notifies its observer in addition.\<close>

theorem gui_text_as_console:
  assumes "take 3 msg \<noteq> str ''|f ''"
  shows "map_sum id base (post_text env serviceName msg g) = SendChatLine env serviceName msg (base g)"
proof (cases "GetSessionIDFromServiceName serviceName (mgr (base g))")
  case None
  then show ?thesis by (simp add: post_text_def SendChatLine_def)
next
  case (Some sid)
  then show ?thesis
    using assms by (cases "SendDataToNode (ConstructChatMessageFromInput (ae_now env) msg) sid (mgr (base g))")
      (auto simp: post_text_def SendChatLine_def Let_def)
qed

theorem gui_text_as_console_witness:
  "map_sum id base (post_text example_app_env (str ''dave'') (str ''hello'') example_gui) = Inr example_app"
proof -
  have "take 3 (str ''hello'') \<noteq> str ''|f ''" by (simp add: str_def)
  from gui_text_as_console [OF this, of example_app_env "str ''dave''" example_gui] show ?thesis
    by (simp add: SendChatLine_def example_gui_def example_app_def example_host_def GetSessionIDFromServiceName_def) (simp add: str_def)
qed

text \<open>When a transfer ends, the file is whole at the place the status line names, whether it could be renamed into the chosen directory, had to be copied, or stayed in the download directory; the arrival is logged.\<close>

theorem gui_file_where_status_says:
  assumes "storing (ge_app env) key sn fn c (base g)"
  shows "\<exists>g' p. gui_HandleFileTransferEnd env (Some (Any_FileData \<lparr>fd_correlationKey = key, fd_csize = cs, fd_fsize = fs, fd_fdata = d\<rparr>)) g =
      Inr (BVSTATUS_OK, g') \<and>
    fs_files (a_fs (base g')) p = Some (resize (unat fs) (c @ d)) \<and>
    xferStatus g' = str ''Saved '' @ fn @ str '' to '' @ parent_path p \<and>
    p \<in> {PathFor (ae_cwd (ge_app env)) sn fn, path_append (path_append (saveDir g) sn) fn} \<and>
    map_of (fileTransferData (base g')) key = None \<and>
    map cm_textData (log_of sn (base g')) = map cm_textData (log_of sn (base g)) @ [clip @ str ''Received file: '' @ fn]"
proof -
  let ?fd = "\<lparr>fd_correlationKey = key, fd_csize = cs, fd_fsize = fs, fd_fdata = d\<rparr>"
  obtain fs1 where f: "Finish (ae_cwd (ge_app env)) sn fn d (unat fs) (a_fs (base g)) = (BVSTATUS_OK, fs1)"
      "stored (ae_cwd (ge_app env)) sn fn fs1 = Some (resize (unat fs) (c @ d))"
    using Finish_ok assms unfolding storing_def by blast
  define a where "a = (emit (endl @ str ''File saved: '' @ fn @ str '' ('' @ to_string (unat fs) @ str '' bytes)'' @ endl)
      ((base g)\<lparr>a_fs := fs1\<rparr>))\<lparr>fileTransferData := omap_erase key (fileTransferData (base g))\<rparr>"
  have key: "map_of (fileTransferData (base g)) key = Some (sn, fn)" using assms by (simp add: storing_def)
  have e: "HandleFileTransferEnd (ge_app env) (Some (Any_FileData ?fd)) (base g) = Inr (BVSTATUS_OK, a)"
    using key f(1) by (simp add: HandleFileTransferEnd_def a_def emit_def Let_def)
  have a: "a_fs a = fs1" "fileTransferData a = omap_erase key (fileTransferData (base g))" "log_of n a = log_of n (base g)" for n
    by (simp_all add: a_def emit_def log_of_def)
  obtain p fs2 where m: "move_received env (saveDir g) sn fn fs1 = (p, fs2)" "fs_files fs2 p = Some (resize (unat fs) (c @ d))"
      "p \<in> {PathFor (ae_cwd (ge_app env)) sn fn, path_append (path_append (saveDir g) sn) fn}"
    using move_received_content [of fs1 env sn fn _ "saveDir g"] f(2) unfolding stored_def by blast
  have lm: "a_fs (log_message n x b) = a_fs b" "fileTransferData (log_message n x b) = fileTransferData b" for n x b
    by (simp_all add: log_message_def split: option.splits)
  have lg: "log_of n (b\<lparr>a_fs := x\<rparr>) = log_of n b" for n b x by (simp add: log_of_def)
  show ?thesis
    using m(2,3) key
    by (simp add: gui_HandleFileTransferEnd_def e Let_def a m(1) AppendChatEntry_def lm log_of_log_message lg) blast
qed

theorem gui_file_where_status_says_witness:
  "\<exists>g' p. gui_HandleFileTransferEnd example_gui_env (Some (Any_FileData \<lparr>fd_correlationKey = 7, fd_csize = 64, fd_fsize = 3, fd_fdata = [1, 2, 3, 0]\<rparr>))
      (example_gui\<lparr>base := example_app\<lparr>fileTransferData := [(7, str ''alice'', str ''notes.txt'')],
        a_fs := example_fs\<lparr>fs_dirs := (\<lambda>_. True), fs_files := (\<lambda>_. Some [])\<rparr>\<rparr>\<rparr>) = Inr (BVSTATUS_OK, g') \<and>
    fs_files (a_fs (base g')) p = Some [1, 2, 3]"
proof -
  let ?g = "example_gui\<lparr>base := example_app\<lparr>fileTransferData := [(7, str ''alice'', str ''notes.txt'')],
        a_fs := example_fs\<lparr>fs_dirs := (\<lambda>_. True), fs_files := (\<lambda>_. Some [])\<rparr>\<rparr>\<rparr>"
  have "storing (ge_app example_gui_env) 7 (str ''alice'') (str ''notes.txt'') [] (base ?g)"
    by (simp add: storing_def prepared_def writable_def stored_def example_fs_def example_gui_env_def example_app_env_def str_def slash_def)
  from gui_file_where_status_says [OF this, of 64 3 "[1, 2, 3, 0]"] show ?thesis
    by (auto simp: resize_def zeros_def)
qed

text \<open>A file that could not be written is announced as received: when the destination cannot be opened at the end of a transfer, the handler fails, which ends the mailbox thread, but the chat log and the status line say that the file was saved.\<close>

theorem gui_announces_lost_file:
  assumes "map_of (fileTransferData (base g)) key = Some (sn, fn)"
    and "\<not> can_open (a_fs (base g)) (PathFor (ae_cwd (ge_app env)) sn fn)"
  shows "\<exists>g' p. gui_HandleFileTransferEnd env (Some (Any_FileData \<lparr>fd_correlationKey = key, fd_csize = cs, fd_fsize = fs, fd_fdata = d\<rparr>)) g =
      Inr (BVSTATUS_FATAL_ERROR, g') \<and> xferStatus g' = str ''Saved '' @ fn @ str '' to '' @ parent_path p \<and>
    map cm_textData (log_of sn (base g')) = map cm_textData (log_of sn (base g)) @ [clip @ str ''Received file: '' @ fn]"
proof -
  let ?fd = "\<lparr>fd_correlationKey = key, fd_csize = cs, fd_fsize = fs, fd_fdata = d\<rparr>"
  have e: "HandleFileTransferEnd (ge_app env) (Some (Any_FileData ?fd)) (base g) = Inr (BVSTATUS_FATAL_ERROR, base g)"
    using assms by (simp add: HandleFileTransferEnd_def Finish_def open_app_def Let_def)
  obtain p fs2 where m: "move_received env (saveDir g) sn fn (a_fs (base g)) = (p, fs2)" by fastforce
  have lg: "log_of n (b\<lparr>a_fs := x\<rparr>) = log_of n b" for n b x by (simp add: log_of_def)
  show ?thesis
    using assms(1) by (simp add: gui_HandleFileTransferEnd_def e m Let_def AppendChatEntry_def log_of_log_message lg) (rule exI, rule refl)
qed

theorem gui_announces_lost_file_witness:
  "\<exists>g' p. gui_HandleFileTransferEnd example_gui_env (Some (Any_FileData \<lparr>fd_correlationKey = 7, fd_csize = 64, fd_fsize = 3, fd_fdata = [1, 2, 3, 0]\<rparr>))
      (example_gui\<lparr>base := example_app\<lparr>fileTransferData := [(7, str ''alice'', str ''notes.txt'')],
        a_fs := example_fs\<lparr>fs_open_ok := (\<lambda>_. False)\<rparr>\<rparr>\<rparr>) = Inr (BVSTATUS_FATAL_ERROR, g') \<and>
    xferStatus g' = str ''Saved '' @ str ''notes.txt'' @ str '' to '' @ parent_path p"
proof -
  let ?g = "example_gui\<lparr>base := example_app\<lparr>fileTransferData := [(7, str ''alice'', str ''notes.txt'')],
        a_fs := example_fs\<lparr>fs_open_ok := (\<lambda>_. False)\<rparr>\<rparr>\<rparr>"
  have a: "map_of (fileTransferData (base ?g)) 7 = Some (str ''alice'', str ''notes.txt'')" by simp
  have b: "\<not> can_open (a_fs (base ?g)) (PathFor (ae_cwd (ge_app example_gui_env)) (str ''alice'') (str ''notes.txt''))"
    by (simp add: can_open_def)
  show ?thesis using gui_announces_lost_file [OF a b, of 64 3 "[1, 2, 3, 0]"] by blast
qed

text \<open>Offers are remembered by their key alone: when two peers offer files under the same key, accepting both sends one answer, to the peer that offered last.\<close>

theorem gui_same_key_offers:
  assumes "gui_meta d1 = (s1, f1)" "gui_meta d2 = (s2, f2)" "s2 \<noteq> []"
  shows "\<exists>g1 g2. gui_HandleFileOffer (Some (Any_FileData \<lparr>fd_correlationKey = key, fd_csize = 0, fd_fsize = n1, fd_fdata = d1\<rparr>)) g = Inr (BVSTATUS_OK, g1) \<and>
    gui_HandleFileOffer (Some (Any_FileData \<lparr>fd_correlationKey = key, fd_csize = 0, fd_fsize = n2, fd_fdata = d2\<rparr>)) g1 = Inr (BVSTATUS_OK, g2) \<and>
    length (pendingOffers g2) = length (pendingOffers g) + 2 \<and>
    gui_posted (AcceptFile key (AcceptFile key g2)) = gui_posted g @ [Post_Answer s2 key True]"
  using assms by (simp add: gui_HandleFileOffer_def AcceptFile_def RespondToOffer_def Let_def)

theorem gui_same_key_offers_witness:
  "\<exists>g1 g2. gui_HandleFileOffer (example_offer 0 (str ''bob|a.txt'')) example_gui = Inr (BVSTATUS_OK, g1) \<and>
     gui_HandleFileOffer (example_offer 0 (str ''carol|b.txt'')) g1 = Inr (BVSTATUS_OK, g2) \<and>
     gui_posted (AcceptFile 0 (AcceptFile 0 g2)) = [Post_Answer (str ''carol'') 0 True]"
proof -
  have m: "gui_meta (str ''bob|a.txt'') = (str ''bob'', str ''a.txt'')" "gui_meta (str ''carol|b.txt'') = (str ''carol'', str ''b.txt'')"
      "str ''carol'' \<noteq> []" "gui_posted example_gui = []"
    by (simp_all add: gui_meta_def str_def bar_def example_gui_def)
  show ?thesis
    using gui_same_key_offers [OF m(1-3), of 0 9 example_gui 9] m(4) by (auto simp: example_offer_def)
qed

end
