(* ===== verification/Linked_List.thy ===== *)
theory Linked_List
  imports LC_Prelude
begin

text \<open>
  \<open>src/linked_list.c\<close>: the C list that collects the answers of the mDNS daemon. Elements
  live in a store of allocated cells; \<open>free\<close> removes a cell, so that a later access is
  a \<open>Dangling\<close> error. Loops over the list are \<open>partial_function (option)\<close>: \<open>None\<close> is a
  loop that never ends, which a cyclic list gives. \<open>ll_path\<close> relates a store to the
  sequence of addresses it links; every operation is shown to return on a linked store
  and to refine the operation on that sequence.
\<close>

section \<open>Data\<close>

definition MAX_DATA_SIZE :: nat where
  "MAX_DATA_SIZE = 256"

record LinkedListElement_str =
  next_p :: "nat option"
  ll_data :: bytes

type_synonym ll_cells = "nat \<Rightarrow> LinkedListElement_str option"

record LinkedList_str =
  head_p :: "nat option"
  didRegister :: u8

record ll_mem =
  cells :: ll_cells
  brk :: nat  \<comment> \<open>the next address \<open>malloc\<close> returns\<close>

section \<open>Operations\<close>

definition LinkedList_str_Constructor :: "nat option \<Rightarrow> LinkedList_str" where
  "LinkedList_str_Constructor h = \<lparr>head_p = h, didRegister = 0\<rparr>"

text \<open>\<open>strncpy (dst, src, n)\<close>: stops at the first zero byte, pads with zeros.\<close>

definition strncpy :: "nat \<Rightarrow> bytes \<Rightarrow> bytes result" where
  "strncpy n src =
     (if 0 \<in> set (take n src) then
        Inr (takeWhile (\<lambda>c. c \<noteq> 0) src @ zeros (n - length (takeWhile (\<lambda>c. c \<noteq> 0) src)))
      else if n \<le> length src then Inr (take n src)
      else Inl Out_Of_Bounds)"

definition LinkedListElement_str_Constructor ::
  "bytes option \<Rightarrow> nat option \<Rightarrow> ll_mem \<Rightarrow> (nat \<times> ll_mem) result" where
  "LinkedListElement_str_Constructor data nxt m =
     rbind (case data of Some d \<Rightarrow> strncpy MAX_DATA_SIZE d | None \<Rightarrow> Inr (zeros MAX_DATA_SIZE))
       (\<lambda>d. Inr (brk m, m\<lparr>cells := (cells m)(brk m \<mapsto> \<lparr>next_p = nxt, ll_data = d\<rparr>),
                          brk := Suc (brk m)\<rparr>))"

definition LinkedListElement_str_Destructor :: "nat option \<Rightarrow> ll_mem \<Rightarrow> ll_mem result" where
  "LinkedListElement_str_Destructor e m =
     (case e of
        None \<Rightarrow> Inr m  \<comment> \<open>\<open>free (NULL)\<close>\<close>
      | Some a \<Rightarrow>
          (if cells m a = None then Inl Dangling else Inr (m\<lparr>cells := (cells m)(a := None)\<rparr>)))"

partial_function (option) find_tail_loop ::
  "ll_cells \<Rightarrow> nat option \<Rightarrow> nat option \<Rightarrow> nat option result option" where
  "find_tail_loop h p prev =
     (case p of
        None \<Rightarrow> Some (Inr prev)
      | Some a \<Rightarrow>
          (case h a of
             None \<Rightarrow> Some (Inl Dangling)
           | Some e \<Rightarrow> find_tail_loop h (next_p e) (Some a)))"

definition LinkedList_str_FindTail :: "LinkedList_str \<Rightarrow> ll_mem \<Rightarrow> nat option result option" where
  "LinkedList_str_FindTail ll m =
     (case head_p ll of
        None \<Rightarrow> Some (Inr None)
      | Some a \<Rightarrow> find_tail_loop (cells m) (Some a) (Some a))"

definition LinkedList_str_AddElement ::
  "LinkedList_str \<Rightarrow> nat \<Rightarrow> ll_mem \<Rightarrow> (LinkedList_str \<times> ll_mem) result option" where
  "LinkedList_str_AddElement ll e m =
     (if head_p ll = None then Some (Inr (ll\<lparr>head_p := Some e\<rparr>, m))
      else map_option
        (\<lambda>r. rbind r (\<lambda>tail.
           (case tail of
              None \<Rightarrow> Inr (ll, m)
            | Some t \<Rightarrow>
                (case cells m t of
                   None \<Rightarrow> Inl Dangling
                 | Some c \<Rightarrow> Inr (ll, m\<lparr>cells := (cells m)(t \<mapsto> c\<lparr>next_p := Some e\<rparr>)\<rparr>)))))
        (LinkedList_str_FindTail ll m))"

text \<open>
  The loop of \<open>LinkedList_str_RemoveElement\<close>, with its guard
  \<open>(head_p != NULL) || (head_p == ll_element_p)\<close> as written: a null argument makes
  the second disjunct true at the end of the list, and the body then dereferences null.
\<close>

partial_function (option) remove_loop ::
  "ll_mem \<Rightarrow> nat option \<Rightarrow> nat \<Rightarrow> nat option \<Rightarrow> ll_mem result option" where
  "remove_loop m cur prev e =
     (if cur \<noteq> None \<or> cur = e then
        (case cur of
           None \<Rightarrow> Some (Inl Null_Deref)
         | Some a \<Rightarrow>
             (case cells m a of
                None \<Rightarrow> Some (Inl Dangling)
              | Some c \<Rightarrow>
                  (if cur = e then
                     Some (case cells m prev of
                         None \<Rightarrow> Inl Dangling
                       | Some pc \<Rightarrow>
                           LinkedListElement_str_Destructor (Some a)
                             (m\<lparr>cells := (cells m)(prev \<mapsto> pc\<lparr>next_p := next_p c\<rparr>)\<rparr>))
                   else remove_loop m (next_p c) a e)))
      else Some (Inr m))"

definition LinkedList_str_RemoveElement ::
  "LinkedList_str \<Rightarrow> nat option \<Rightarrow> ll_mem \<Rightarrow> (LinkedList_str \<times> ll_mem) result option" where
  "LinkedList_str_RemoveElement ll e m =
     (case head_p ll of
        None \<Rightarrow> Some (Inr (ll, m))
      | Some h \<Rightarrow>
          (case cells m h of
             None \<Rightarrow> Some (Inl Dangling)
           | Some c \<Rightarrow>
               (if e = Some h \<and> next_p c = None then
                  Some (rbind (LinkedListElement_str_Destructor (Some h) m)
                    (\<lambda>m'. Inr (ll\<lparr>head_p := None\<rparr>, m')))
                else if e = Some h then
                  Some (rbind (LinkedListElement_str_Destructor (Some h) m)
                    (\<lambda>m'. Inr (ll\<lparr>head_p := next_p c\<rparr>, m')))
                else map_option (\<lambda>r. rbind r (\<lambda>m'. Inr (ll, m'))) (remove_loop m (Some h) h e))))"

partial_function (option) clear_loop ::
  "LinkedList_str \<Rightarrow> nat \<Rightarrow> ll_mem \<Rightarrow> (LinkedList_str \<times> ll_mem) result option" where
  "clear_loop ll prev m =
     (case cells m prev of
        None \<Rightarrow> Some (Inl Dangling)
      | Some c \<Rightarrow>
          Option.bind (LinkedList_str_RemoveElement ll (Some prev) m)
            (\<lambda>r. case r of
                Inl err \<Rightarrow> Some (Inl err)
              | Inr (ll', m') \<Rightarrow>
                  (case next_p c of
                     None \<Rightarrow> Some (Inr (ll', m'))
                   | Some nxt \<Rightarrow> clear_loop ll' nxt m')))"

definition LinkedList_str_ClearList ::
  "LinkedList_str \<Rightarrow> ll_mem \<Rightarrow> (LinkedList_str \<times> ll_mem) result option" where
  "LinkedList_str_ClearList ll m =
     (let ll0 = ll\<lparr>didRegister := 0\<rparr> in
      case head_p ll of
        None \<Rightarrow> Some (Inr (ll0, m))
      | Some h \<Rightarrow> clear_loop ll0 h m)"

text \<open>The sequence of elements a store links from a pointer.\<close>

fun ll_path :: "ll_cells \<Rightarrow> nat option \<Rightarrow> nat list \<Rightarrow> bool" where
  "ll_path h p [] \<longleftrightarrow> p = None"
| "ll_path h p (a # as) \<longleftrightarrow> p = Some a \<and> (\<exists>e. h a = Some e \<and> ll_path h (next_p e) as)"

definition ll_rep :: "LinkedList_str \<Rightarrow> ll_mem \<Rightarrow> nat list \<Rightarrow> bool" where
  "ll_rep ll m as \<longleftrightarrow> ll_path (cells m) (head_p ll) as \<and> distinct as"

definition mem_inv :: "ll_mem \<Rightarrow> bool" where
  "mem_inv m \<longleftrightarrow> (\<forall>a. cells m a \<noteq> None \<longrightarrow> a < brk m)"

section \<open>Paths\<close>

lemma ll_path_None [simp]: "ll_path h None as \<longleftrightarrow> as = []"
  by (cases as) auto

lemma ll_path_upd [simp]: "a \<notin> set as \<Longrightarrow> ll_path (h(a := v)) p as \<longleftrightarrow> ll_path h p as"
  by (induction as arbitrary: p) auto

lemma ll_path_allocated: "ll_path h p as \<Longrightarrow> a \<in> set as \<Longrightarrow> \<exists>e. h a = Some e"
  by (induction as arbitrary: p) auto

lemma ll_path_append:
  "ll_path h p (as @ b # bs) \<Longrightarrow> \<exists>e. h b = Some e \<and> ll_path h (next_p e) bs"
  by (induction as arbitrary: p) auto

lemma ll_path_snoc_upd:
  "ll_path h p (as @ [t]) \<Longrightarrow> h t = Some c \<Longrightarrow> distinct (as @ [t]) \<Longrightarrow> e \<notin> set (as @ [t]) \<Longrightarrow>
     h e = Some d \<Longrightarrow> next_p d = None \<Longrightarrow>
     ll_path (h(t \<mapsto> c\<lparr>next_p := Some e\<rparr>)) p (as @ [t, e])"
  by (induction as arbitrary: p) auto

lemma ll_path_unlink:
  "ll_path h p (as @ a # b # bs) \<Longrightarrow> distinct (as @ a # b # bs) \<Longrightarrow> h a = Some c \<Longrightarrow>
     h b = Some d \<Longrightarrow>
     ll_path (h(a \<mapsto> c\<lparr>next_p := next_p d\<rparr>, b := None)) p (as @ a # bs)"
  by (induction as arbitrary: p) auto

section \<open>Traversal\<close>

lemma find_tail_loop_path:
  "ll_path h p as \<Longrightarrow> find_tail_loop h p prev = Some (Inr (if as = [] then prev else Some (last as)))"
  by (induction as arbitrary: p prev) (auto simp: find_tail_loop.simps)

lemma FindTail_last:
  "ll_rep ll m as \<Longrightarrow>
     LinkedList_str_FindTail ll m = Some (Inr (if as = [] then None else Some (last as)))"
  by (auto simp: LinkedList_str_FindTail_def ll_rep_def find_tail_loop_path split: option.split)

lemma AddElement_path:
  assumes rep: "ll_rep ll m as" and e: "cells m e = Some d" "next_p d = None" "e \<notin> set as"
  shows "\<exists>ll' m'. LinkedList_str_AddElement ll e m = Some (Inr (ll', m')) \<and>
           ll_rep ll' m' (as @ [e]) \<and> didRegister ll' = didRegister ll \<and> brk m' = brk m \<and>
           (\<forall>a. map_option ll_data (cells m' a) = map_option ll_data (cells m a))"
proof (cases as rule: rev_cases)
  case Nil
  with rep e show ?thesis
    by (auto simp: LinkedList_str_AddElement_def ll_rep_def)
next
  case (snoc bs t)
  then have p: "ll_path (cells m) (head_p ll) (bs @ [t])" "distinct (bs @ [t])"
    using rep by (auto simp: ll_rep_def)
  obtain c where c: "cells m t = Some c"
    using ll_path_append [OF p(1)] by auto
  have "head_p ll \<noteq> None" using p(1) by (cases bs) auto
  moreover have "LinkedList_str_FindTail ll m = Some (Inr (Some t))"
    using FindTail_last [OF rep] snoc by simp
  ultimately show ?thesis
    using ll_path_snoc_upd [OF p(1) c p(2)] e c snoc p(2)
    by (auto simp: LinkedList_str_AddElement_def ll_rep_def)
qed

lemma same_data_dom: "(\<forall>a. map_option ll_data (h' a) = map_option ll_data (h a)) \<Longrightarrow> dom h' = dom h"
proof (intro set_eqI)
  fix a
  assume "\<forall>a. map_option ll_data (h' a) = map_option ll_data (h a)"
  from spec [OF this, of a] show "a \<in> dom h' \<longleftrightarrow> a \<in> dom h" by (cases "h a"; cases "h' a") auto
qed

lemma remove_loop_path:
  "ll_path (cells m) (Some h) (as @ a # bs) \<Longrightarrow> distinct (as @ a # bs) \<Longrightarrow> as \<noteq> [] \<Longrightarrow>
     \<exists>m'. remove_loop m (Some h) prev (Some a) = Some (Inr m') \<and>
       cells m' = (cells m)(last as \<mapsto> (the (cells m (last as)))\<lparr>next_p := next_p (the (cells m a))\<rparr>, a := None)
       \<and> brk m' = brk m"
proof (induction as arbitrary: h prev)
  case Nil
  then show ?case by simp
next
  case (Cons x as)
  from Cons.prems obtain e where x: "h = x" "cells m x = Some e" "ll_path (cells m) (next_p e) (as @ a # bs)"
    by auto
  have ne: "x \<noteq> a" using Cons.prems by auto
  show ?case
  proof (cases as)
    case Nil
    with x obtain d where d: "next_p e = Some a" "cells m a = Some d" by auto
    with x ne Nil show ?thesis
      by (auto simp: remove_loop.simps LinkedListElement_str_Destructor_def)
  next
    case (Cons y ys)
    with x have nx: "next_p e = Some y" by auto
    have "ll_path (cells m) (Some y) (as @ a # bs)" "distinct (as @ a # bs)" "as \<noteq> []"
      using x nx Cons.prems Cons by simp_all
    from Cons.IH [OF this, of x] obtain m' where
      "remove_loop m (Some y) x (Some a) = Some (Inr m')"
      "cells m' = (cells m)(last as \<mapsto> (the (cells m (last as)))\<lparr>next_p := next_p (the (cells m a))\<rparr>, a := None)"
      "brk m' = brk m" by blast
    with x ne nx Cons show ?thesis
      by (auto simp: remove_loop.simps [of m "Some x"])
  qed
qed

text \<open>Removing an element of the list frees exactly that element.\<close>

lemma RemoveElement_refines:
  assumes rep: "ll_rep ll m (as @ a # bs)"
  shows "\<exists>ll' m'. LinkedList_str_RemoveElement ll (Some a) m = Some (Inr (ll', m')) \<and>
           ll_rep ll' m' (as @ bs) \<and> dom (cells m') = dom (cells m) - {a} \<and>
           didRegister ll' = didRegister ll"
proof (cases as rule: rev_cases)
  case Nil
  with rep obtain c where "head_p ll = Some a" "cells m a = Some c" "ll_path (cells m) (next_p c) bs"
      "a \<notin> set bs" "distinct bs"
    by (auto simp: ll_rep_def)
  with Nil show ?thesis
    by (auto simp: LinkedList_str_RemoveElement_def LinkedListElement_str_Destructor_def ll_rep_def)
next
  case (snoc cs x)
  have p: "ll_path (cells m) (head_p ll) (cs @ x # a # bs)" "distinct (cs @ x # a # bs)"
    using rep snoc by (auto simp: ll_rep_def)
  obtain h c where h: "head_p ll = Some h" "cells m h = Some c" "h \<noteq> a"
    using p by (cases cs) auto
  obtain d where d: "cells m a = Some d" using ll_path_allocated [OF p(1), of a] by auto
  obtain f where f: "cells m x = Some f" using ll_path_allocated [OF p(1), of x] by auto
  obtain m' where m': "remove_loop m (Some h) h (Some a) = Some (Inr m')"
      "cells m' = (cells m)(x \<mapsto> f\<lparr>next_p := next_p d\<rparr>, a := None)"
    using remove_loop_path [of m h "cs @ [x]" a bs h] p h d f by auto
  moreover have "ll_path (cells m') (head_p ll) (cs @ x # bs)"
    using ll_path_unlink [OF p f d] m'(2) by simp
  ultimately show ?thesis
    using h p(2) snoc f by (auto simp: LinkedList_str_RemoveElement_def ll_rep_def)
qed

lemma clear_loop_path:
  assumes "ll_rep ll m (a # as)"
  shows "\<exists>ll' m'. clear_loop ll a m = Some (Inr (ll', m')) \<and> head_p ll' = None \<and>
           didRegister ll' = didRegister ll \<and> dom (cells m') = dom (cells m) - set (a # as)"
  using assms
proof (induction as arbitrary: a ll m)
  case Nil
  from RemoveElement_refines [of ll m "[]" a "[]"] Nil obtain ll' m' where
    r: "LinkedList_str_RemoveElement ll (Some a) m = Some (Inr (ll', m'))" "ll_rep ll' m' []"
    "dom (cells m') = dom (cells m) - {a}" "didRegister ll' = didRegister ll" by auto
  then show ?case
    using Nil by (auto simp: clear_loop.simps [of ll a m] ll_rep_def)
next
  case (Cons b as)
  from RemoveElement_refines [of ll m "[]" a "b # as"] Cons.prems obtain ll1 m1 where
    r: "LinkedList_str_RemoveElement ll (Some a) m = Some (Inr (ll1, m1))" "ll_rep ll1 m1 (b # as)"
    "dom (cells m1) = dom (cells m) - {a}" "didRegister ll1 = didRegister ll" by auto
  from Cons.IH [OF r(2)] obtain ll' m' where
    "clear_loop ll1 b m1 = Some (Inr (ll', m'))" "head_p ll' = None"
    "didRegister ll' = didRegister ll1" "dom (cells m') = dom (cells m1) - set (b # as)" by blast
  then show ?case
    using Cons.prems r by (auto simp: clear_loop.simps [of ll a m] ll_rep_def)
qed

lemma ClearList_path:
  assumes "ll_rep ll m as"
  shows "\<exists>ll' m'. LinkedList_str_ClearList ll m = Some (Inr (ll', m')) \<and> head_p ll' = None \<and>
           didRegister ll' = 0 \<and> dom (cells m') = dom (cells m) - set as"
proof (cases as)
  case Nil
  with assms show ?thesis by (auto simp: LinkedList_str_ClearList_def ll_rep_def)
next
  case (Cons a bs)
  then have "ll_rep (ll\<lparr>didRegister := 0\<rparr>) m (a # bs)" and "head_p ll = Some a"
    using assms by (auto simp: ll_rep_def)
  with clear_loop_path [OF this(1)] Cons show ?thesis
    by (simp add: LinkedList_str_ClearList_def)
qed

section \<open>Properties\<close>

lemma remove_loop_null:
  "ll_path (cells m) p as \<Longrightarrow> remove_loop m p prev None = Some (Inl Null_Deref)"
proof (induction as arbitrary: p prev)
  case Nil
  then show ?case by (cases p) (simp_all add: remove_loop.simps [of m None prev None])
next
  case (Cons a as)
  then obtain e where e: "p = Some a" "cells m a = Some e" "ll_path (cells m) (next_p e) as" by auto
  show ?case using e Cons.IH [OF e(3), of a] by (simp add: remove_loop.simps [of m "Some a" prev None])
qed

text \<open>C32: adding an element to a well-formed list returns, appends exactly that element to the sequence the list links, and changes the data of no element; no cell is allocated or freed.\<close>

theorem AddElement_refines:
  assumes "ll_rep ll m as" and "cells m e = Some d" "next_p d = None" "e \<notin> set as"
  shows "\<exists>ll' m'. LinkedList_str_AddElement ll e m = Some (Inr (ll', m')) \<and>
           ll_rep ll' m' (as @ [e]) \<and> didRegister ll' = didRegister ll \<and> brk m' = brk m \<and>
           dom (cells m') = dom (cells m) \<and> (\<forall>a. map_option ll_data (cells m' a) = map_option ll_data (cells m a))"
proof -
  obtain ll' m' where "LinkedList_str_AddElement ll e m = Some (Inr (ll', m'))" "ll_rep ll' m' (as @ [e])"
      "didRegister ll' = didRegister ll" "brk m' = brk m"
      and data: "\<forall>a. map_option ll_data (cells m' a) = map_option ll_data (cells m a)"
    using AddElement_path [OF assms] by blast
  with same_data_dom [OF data] show ?thesis by blast
qed

text \<open>\<open>LinkedList_str_RemoveElement\<close> called with a null element on a non-empty list walks off its end and dereferences a null pointer, because of the disjunction in its loop condition.\<close>

theorem RemoveElement_null:
  assumes "ll_rep ll m as" and "as \<noteq> []"
  shows "LinkedList_str_RemoveElement ll None m = Some (Inl Null_Deref)"
proof -
  have p: "ll_path (cells m) (head_p ll) as" using assms(1) by (simp add: ll_rep_def)
  obtain a as' where as: "as = a # as'" using assms(2) by (cases as) auto
  with p obtain e where h: "head_p ll = Some a" "cells m a = Some e" by auto
  have "remove_loop m (Some a) a None = Some (Inl Null_Deref)"
    by (rule remove_loop_null) (use p h in simp)
  with h show ?thesis by (simp add: LinkedList_str_RemoveElement_def)
qed
definition example_mem :: ll_mem where
  "example_mem = \<lparr>cells = [0 \<mapsto> \<lparr>next_p = Some 1, ll_data = []\<rparr>, 1 \<mapsto> \<lparr>next_p = None, ll_data = []\<rparr>,
     2 \<mapsto> \<lparr>next_p = None, ll_data = []\<rparr>], brk = 3\<rparr>"

definition example_list :: LinkedList_str where
  "example_list = \<lparr>head_p = Some 0, didRegister = 1\<rparr>"

lemma example_rep: "ll_rep example_list example_mem [0, 1]"
  by (simp add: ll_rep_def example_list_def example_mem_def)

theorem RemoveElement_null_witness:
  "LinkedList_str_RemoveElement example_list None example_mem = Some (Inl Null_Deref)"
  by (rule RemoveElement_null [OF example_rep]) simp

text \<open>C33: clearing a well-formed list returns, leaves an empty list that is not marked registered, and frees every element of the list and nothing else.\<close>

theorem ClearList_frees_all:
  assumes "ll_rep ll m as"
  shows "\<exists>ll' m'. LinkedList_str_ClearList ll m = Some (Inr (ll', m')) \<and> head_p ll' = None \<and>
           didRegister ll' = 0 \<and> dom (cells m') = dom (cells m) - set as"
  by (rule ClearList_path [OF assms])
theorem ClearList_frees_all_witness:
  "\<exists>ll' m'. LinkedList_str_ClearList example_list example_mem = Some (Inr (ll', m')) \<and> head_p ll' = None \<and>
     didRegister ll' = 0 \<and> dom (cells m') = {2}"
  using ClearList_frees_all [OF example_rep] by (simp add: example_mem_def insert_Diff_if)
theorem AddElement_refines_witness:
  "\<exists>ll' m'. LinkedList_str_AddElement example_list 2 example_mem = Some (Inr (ll', m')) \<and> ll_rep ll' m' [0, 1, 2]"
  using AddElement_refines [OF example_rep, of 2] by (auto simp: example_mem_def)
text \<open>Removing an element of a well-formed list, wherever it is, returns, unlinks and frees exactly that element, and keeps the order of the others.\<close>

theorem RemoveElement_unlinks:
  assumes "ll_rep ll m (as @ a # bs)"
  shows "\<exists>ll' m'. LinkedList_str_RemoveElement ll (Some a) m = Some (Inr (ll', m')) \<and>
           ll_rep ll' m' (as @ bs) \<and> dom (cells m') = dom (cells m) - {a} \<and> didRegister ll' = didRegister ll"
  by (rule RemoveElement_refines [OF assms])

theorem RemoveElement_unlinks_witness:
  "\<exists>ll' m'. LinkedList_str_RemoveElement example_list (Some 1) example_mem = Some (Inr (ll', m')) \<and> ll_rep ll' m' [0]"
  using RemoveElement_unlinks [of example_list example_mem "[0]" 1 "[]"] example_rep by auto

end
