(* ===== verification/Discovery.thy ===== *)
theory Discovery
  imports Linked_List Connection_Manager
begin

unbundle bit_operations_syntax

text \<open>
  Service discovery with Bonjour: the callbacks of \<open>src/bonjour_api.c\<close>, the list of results of
  \<open>include/BVDiscovery.hpp\<close>, the component \<open>src/BVDiscovery_Bonjour.cpp\<close> and the registration of
  \<open>include/BVService.hpp\<close> and \<open>src/BVService_Bonjour.cpp\<close>. The client library of the daemon is outside: what
  its calls return and which callbacks they make are arguments. The callbacks fill the C list of
  \<open>Linked_List\<close>, so the handlers are shown to return and to keep the list well formed; then what the
  application is told of the services.
\<close>

section \<open>Data\<close>

text \<open>Runs of a loop that may fail: \<open>None\<close> when it does not end.\<close>

definition lbind :: "'a result option \<Rightarrow> ('a \<Rightarrow> 'b result option) \<Rightarrow> 'b result option" where
  "lbind r f = (case r of None \<Rightarrow> None | Some (Inl e) \<Rightarrow> Some (Inl e) | Some (Inr x) \<Rightarrow> f x)"

text \<open>One call of the browse callback by the daemon's client library, and one of the resolve callback.\<close>

record browse_reply =
  br_flags :: u32
  br_error :: int
  br_serviceName :: bytes
  br_regtype :: bytes
  br_replyDomain :: bytes

record resolve_reply =
  rr_errorCode :: int
  rr_fullname :: "bytes option"
  rr_hosttarget :: "bytes option"
  rr_port :: u16
  rr_txtRecord :: "bytes option"

text \<open>
  The component. \<open>d_dnsRef\<close>: whether the reference of the browse operation is set; \<open>d_fd_open\<close>: whether \<open>browseFD\<close> has been
  given its descriptor; \<open>d_waits\<close>: the reads of the browse
  descriptor that are waited for; \<open>d_timer\<close>: whether the pause timer runs; \<open>d_resolving\<close>: the
  resolve operations that are waited for.
\<close>

record discovery =
  d_status :: BVStatus
  isBrowsingActive :: bool
  c_ll_p :: LinkedList_str
  d_mem :: ll_mem
  hostData :: BVServiceData
  d_dnsRef :: bool
  d_fd_open :: bool
  d_waits :: nat
  d_timer :: bool
  d_stopped :: bool
  d_resolving :: "ResolveCallbackContext list"
  d_out :: "BVMessage list"

section \<open>Browse results\<close>

definition put_field :: "nat \<Rightarrow> nat \<Rightarrow> bytes \<Rightarrow> bytes \<Rightarrow> bytes" where
  "put_field off mx s buff = (if length s < mx then memcpy_at buff off s else buff)"

definition service_buff :: "bytes \<Rightarrow> bytes \<Rightarrow> bytes \<Rightarrow> bytes" where
  "service_buff serviceName regtype replyDomain =
     (let buff = replicate N_BYTES_SERVICE_STR_TOTAL 32;
          buff = put_field 0 N_BYTES_SERVNAME_MAX serviceName buff;
          buff = put_field N_BYTES_SERVNAME_MAX N_BYTES_REGTYPE_MAX regtype buff;
          buff = put_field (N_BYTES_SERVNAME_MAX + N_BYTES_REGTYPE_MAX) N_BYTES_REPLDOMN_MAX replyDomain buff
      in buff[N_BYTES_SERVICE_STR_TOTAL - 1 := 0])"

definition kDNSServiceFlagsAdd :: u32 where "kDNSServiceFlagsAdd = 2"

definition C_ServiceBrowseReply ::
  "browse_reply \<Rightarrow> LinkedList_str \<times> ll_mem \<Rightarrow> (LinkedList_str \<times> ll_mem) result option" where
  "C_ServiceBrowseReply r = (\<lambda>(ll, m).
     if br_error r = 0 then
       (let ll = ll\<lparr>didRegister := (if br_flags r AND kDNSServiceFlagsAdd = 0 then 0 else 1)\<rparr> in
        case LinkedListElement_str_Constructor
            (Some (service_buff (br_serviceName r) (br_regtype r) (br_replyDomain r))) None m of
          Inl e \<Rightarrow> Some (Inl e)
        | Inr (lle, m) \<Rightarrow> LinkedList_str_AddElement ll lle m)
     else Some (Inr (ll, m)))"

text \<open>The callbacks one \<open>DNSServiceProcessResult\<close> makes.\<close>

fun browse_replies :: "browse_reply list \<Rightarrow> LinkedList_str \<times> ll_mem \<Rightarrow> (LinkedList_str \<times> ll_mem) result option" where
  "browse_replies [] s = Some (Inr s)"
| "browse_replies (r # rs) s = lbind (C_ServiceBrowseReply r s) (browse_replies rs)"

definition erase_byte :: "byte \<Rightarrow> bytes \<Rightarrow> bytes" where
  "erase_byte c s = filter (\<lambda>x. x \<noteq> c) s"

definition instance_of_data :: "bytes \<Rightarrow> BVServiceBrowseInstance" where
  "instance_of_data d =
     (let clean = (\<lambda>s. erase_byte 0 (erase_byte 32 s)) in
      \<lparr>bi_serviceName = clean (take N_BYTES_SERVNAME_MAX d),
       bi_regType = clean (take N_BYTES_REGTYPE_MAX (drop N_BYTES_SERVNAME_MAX d)),
       bi_replyDomain = clean (take N_BYTES_REPLDOMN_MAX (drop (N_BYTES_SERVNAME_MAX + N_BYTES_REGTYPE_MAX) d))\<rparr>)"

partial_function (option) browse_list_loop ::
  "ll_cells \<Rightarrow> nat option \<Rightarrow> BVServiceBrowseInstance list \<Rightarrow> BVServiceBrowseInstance list result option" where
  "browse_list_loop h p l =
     (case p of
        None \<Rightarrow> Some (Inr l)
      | Some a \<Rightarrow>
          (case h a of
             None \<Rightarrow> Some (Inl Dangling)
           | Some e \<Rightarrow> browse_list_loop h (next_p e) (l @ [instance_of_data (ll_data e)])))"

definition ReturnListFromBrowseResults :: "LinkedList_str \<Rightarrow> ll_mem \<Rightarrow> BVServiceBrowseInstance list result option" where
  "ReturnListFromBrowseResults ll m = browse_list_loop (cells m) (head_p ll) []"

section \<open>Operations\<close>

definition disc_SendMessage :: "BVMessage \<Rightarrow> discovery \<Rightarrow> discovery" where
  "disc_SendMessage msg d = d\<lparr>d_out := d_out d @ [msg]\<rparr>"

definition AwaitFDForProcessingBrowseResult :: "discovery \<Rightarrow> discovery" where
  "AwaitFDForProcessingBrowseResult d =
     (if \<not> isBrowsingActive d \<or> \<not> d_dnsRef d then d else d\<lparr>d_waits := Suc (d_waits d)\<rparr>)"

text \<open>\<open>error\<close> is what \<open>DNSServiceProcessResult\<close> returns, after the callbacks it made.\<close>

definition browse_event :: "u8 \<Rightarrow> BVServiceBrowseInstance list \<Rightarrow> BVMessage list" where
  "browse_event registered l =
     (if registered = 1 then [\<lparr>event_t = BVEVENTTYPE_APP_PUBLISHED_SERVICE, data_p = Some (Any_BrowseList l)\<rparr>]
      else if registered = 0 then [\<lparr>event_t = BVEVENTTYPE_APP_DEREGISTERED_SERVICE, data_p = Some (Any_BrowseList l)\<rparr>]
      else [])"

definition ProcessDNSServiceBrowseResult ::
  "int \<Rightarrow> browse_reply list \<Rightarrow> discovery \<Rightarrow> (BVStatus \<times> discovery) result option" where
  "ProcessDNSServiceBrowseResult error rs d =
     (if \<not> isBrowsingActive d \<or> \<not> d_dnsRef d then Some (Inr (BVSTATUS_OK, d))
      else
        lbind (browse_replies rs (c_ll_p d, d_mem d)) (\<lambda>(ll, m).
          if error \<noteq> 0 then Some (Inr (BVSTATUS_NOK, d\<lparr>c_ll_p := ll, d_mem := m, isBrowsingActive := False\<rparr>))
          else
            lbind (ReturnListFromBrowseResults ll m) (\<lambda>l.
            lbind (LinkedList_str_ClearList ll m) (\<lambda>(ll', m').
              Some (Inr (BVSTATUS_OK,
                AwaitFDForProcessingBrowseResult
                  (d\<lparr>c_ll_p := ll', d_mem := m', d_out := d_out d @ browse_event (didRegister ll) l\<rparr>)))))))"

text \<open>How a wait ends.\<close>

datatype wait_code = Wait_Ready | Wait_Aborted | Wait_Error

text \<open>The completion handler of a wait on the browse descriptor.\<close>

definition browse_wait_handler ::
  "wait_code \<Rightarrow> int \<Rightarrow> browse_reply list \<Rightarrow> discovery \<Rightarrow> discovery result option" where
  "browse_wait_handler e error rs d =
     (if d_waits d = 0 then Some (Inr d)
      else
        (let d = d\<lparr>d_waits := d_waits d - 1\<rparr> in
         case e of
           Wait_Aborted \<Rightarrow> Some (Inr d)
         | Wait_Error \<Rightarrow> Some (Inr (d\<lparr>isBrowsingActive := False\<rparr>))
         | Wait_Ready \<Rightarrow> lbind (ProcessDNSServiceBrowseResult error rs d) (\<lambda>(st, d). Some (Inr d))))"

definition CreateConnectionContext :: "int \<Rightarrow> discovery \<Rightarrow> discovery" where
  "CreateConnectionContext error d =
     (if error \<noteq> 0 then d\<lparr>d_status := BVSTATUS_FATAL_ERROR\<rparr> else d\<lparr>d_dnsRef := True\<rparr>)"

definition Setup :: "int \<Rightarrow> discovery \<Rightarrow> discovery" where
  "Setup error d = (CreateConnectionContext error d)\<lparr>d_status := BVSTATUS_OK\<rparr>"

definition BVDiscovery_Bonjour_ctor :: "int \<Rightarrow> BVServiceData \<Rightarrow> discovery" where
  "BVDiscovery_Bonjour_ctor error sd =
     Setup error \<lparr>d_status = BVSTATUS_IN_PROGRESS, isBrowsingActive = False, c_ll_p = LinkedList_str_Constructor None,
       d_mem = \<lparr>cells = (\<lambda>_. None), brk = 0\<rparr>, hostData = sd, d_dnsRef = False, d_fd_open = False, d_waits = 0, d_timer = False,
       d_stopped = False, d_resolving = [], d_out = []\<rparr>"

text \<open>\<open>fd\<close>: the descriptor of the reference; \<open>ec\<close>: whether it could not be assigned.\<close>

definition Browse :: "int \<Rightarrow> bool \<Rightarrow> discovery \<Rightarrow> discovery" where
  "Browse fd ec d =
     (if fd < 0 then d\<lparr>d_dnsRef := False\<rparr>
      else if ec then d\<lparr>d_dnsRef := False\<rparr>
      else AwaitFDForProcessingBrowseResult (d\<lparr>d_fd_open := True, isBrowsingActive := True\<rparr>))"

text \<open>Waits and timers that are cancelled complete with \<open>operation_aborted\<close>, on which their handlers only return: they are dropped.\<close>

definition OnPause :: "discovery \<Rightarrow> BVStatus \<times> discovery" where
  "OnPause d =
     (if \<not> isBrowsingActive d then (BVSTATUS_OK, d)
      else (BVSTATUS_OK, d\<lparr>isBrowsingActive := False, d_waits := 0, d_timer := True\<rparr>))"

definition OnResume :: "discovery \<Rightarrow> BVStatus \<times> discovery" where
  "OnResume d = (BVSTATUS_OK, AwaitFDForProcessingBrowseResult (d\<lparr>d_timer := False, isBrowsingActive := True\<rparr>))"

definition pause_timer_handler :: "discovery \<Rightarrow> discovery" where
  "pause_timer_handler d = (if d_timer d then snd (OnResume (d\<lparr>d_timer := False\<rparr>)) else d)"

text \<open>\<open>browseFD.cancel ()\<close>, the overload without an error code, throws when the descriptor is not open: the timer and the event loop are then not stopped.\<close>

definition disc_OnShutdown :: "discovery \<Rightarrow> (BVStatus \<times> discovery) result" where
  "disc_OnShutdown d =
     (let d = d\<lparr>isBrowsingActive := False\<rparr> in
      if \<not> d_fd_open d then Inl Runtime_Error
      else Inr (BVSTATUS_OK, d\<lparr>d_waits := 0, d_timer := False, d_stopped := True\<rparr>))"

section \<open>Resolution\<close>

text \<open>
  \<open>memcpy (dst, s.c_str (), n)\<close>: the string, its terminator, and behind it, when the string is shorter than
  \<open>n\<close>, whatever memory holds there.
\<close>

definition c_str_read :: "(nat \<Rightarrow> byte) \<Rightarrow> nat \<Rightarrow> bytes \<Rightarrow> bytes" where
  "c_str_read g n s = take n (s @ 0 # map g [0..<n])"

definition CreateResolveContext ::
  "(nat \<Rightarrow> byte) \<Rightarrow> int \<Rightarrow> BVServiceBrowseInstance \<Rightarrow> discovery \<Rightarrow> ResolveCallbackContext option \<times> discovery" where
  "CreateResolveContext g error bI d =
     (let ctx = \<lparr>rcc_serviceName = c_str_read g N_BYTES_SERVNAME_MAX (bi_serviceName bI),
                 rcc_regType = c_str_read g N_BYTES_REGTYPE_MAX (bi_regType bI),
                 rcc_replyDomain = c_str_read g N_BYTES_REPLDOMN_MAX (bi_replyDomain bI)\<rparr>
      in if error \<noteq> 0 then (None, d\<lparr>d_status := BVSTATUS_FATAL_ERROR\<rparr>) else (Some ctx, d))"

definition ResolveService ::
  "(nat \<Rightarrow> byte) \<Rightarrow> int \<Rightarrow> int \<Rightarrow> bool \<Rightarrow> BVServiceBrowseInstance \<Rightarrow> discovery \<Rightarrow> BVStatus \<times> discovery" where
  "ResolveService g error fd ec bI d =
     (case CreateResolveContext g error bI d of
        (None, d) \<Rightarrow> (BVSTATUS_FATAL_ERROR, d)
      | (Some ctx, d) \<Rightarrow>
          (if fd < 0 then (BVSTATUS_FATAL_ERROR, d)
           else if ec then (BVSTATUS_FATAL_ERROR, d\<lparr>d_dnsRef := False\<rparr>)
           else (BVSTATUS_OK, d\<lparr>d_resolving := d_resolving d @ [ctx]\<rparr>)))"

definition OnResolveRequest ::
  "(nat \<Rightarrow> byte) \<Rightarrow> int \<Rightarrow> int \<Rightarrow> bool \<Rightarrow> any option \<Rightarrow> discovery \<Rightarrow> BVStatus \<times> discovery" where
  "OnResolveRequest g error fd ec dp d =
     (case dp of
        Some (Any_Browse bI) \<Rightarrow> ResolveService g error fd ec bI d
      | _ \<Rightarrow> (BVSTATUS_FATAL_ERROR, d))"

text \<open>Copying a string into a field of a zeroed result.\<close>

definition copy_field :: "nat \<Rightarrow> bytes \<Rightarrow> bytes" where
  "copy_field mx s =
     (let len = (if length s \<ge> mx then mx - 1 else length s) in take len s @ zeros (mx - len))"

definition MAX_DNS_RESOLUTION_FIELD_SIZE :: nat where "MAX_DNS_RESOLUTION_FIELD_SIZE = 256"

definition C_ResolveReply :: "resolve_reply \<Rightarrow> ResolveCallbackContext \<Rightarrow> DNSResolutionResult option result" where
  "C_ResolveReply r ctx =
     (if rr_errorCode r \<noteq> 0 then Inr None
      else
        rbind (cstr (rcc_serviceName ctx)) (\<lambda>serviceName.
        rbind (cstr (rcc_regType ctx)) (\<lambda>regType.
        rbind (cstr (rcc_replyDomain ctx)) (\<lambda>replyDomain.
          (let sz = MAX_DNS_RESOLUTION_FIELD_SIZE;
               txt = (case rr_txtRecord r of None \<Rightarrow> [] | Some t \<Rightarrow> t)
           in Inr (Some
            \<lparr>dr_fullname = (case rr_fullname r of None \<Rightarrow> zeros sz | Some s \<Rightarrow> copy_field sz s),
             dr_hosttarget = (case rr_hosttarget r of None \<Rightarrow> zeros sz | Some s \<Rightarrow> copy_field sz s),
             dr_port = ntohs (uint (rr_port r)), dr_txtLen = word_of_nat (length txt),
             dr_txtRecord = take sz txt @ zeros (sz - length txt),
             dr_serviceName = copy_field N_BYTES_SERVNAME_MAX serviceName,
             dr_regType = copy_field N_BYTES_REGTYPE_MAX regType,
             dr_replyDomain = copy_field N_BYTES_REPLDOMN_MAX replyDomain\<rparr>))))))"

fun resolve_replies :: "resolve_reply list \<Rightarrow> ResolveCallbackContext \<Rightarrow> discovery \<Rightarrow> discovery result" where
  "resolve_replies [] ctx d = Inr d"
| "resolve_replies (r # rs) ctx d =
     rbind (C_ResolveReply r ctx) (\<lambda>res.
       resolve_replies rs ctx
         (case res of
            None \<Rightarrow> d
          | Some res \<Rightarrow> disc_SendMessage
              \<lparr>event_t = BVEVENTTYPE_APP_DISCOVERY_SERVICE_RESOLVED, data_p = Some (Any_Resolution res)\<rparr> d))"

text \<open>The completion handler of the wait of a resolve operation, the \<open>i\<close>-th of those that are waited for: they complete in any order.\<close>

definition resolve_wait_handler :: "nat \<Rightarrow> wait_code \<Rightarrow> int \<Rightarrow> resolve_reply list \<Rightarrow> discovery \<Rightarrow> discovery result" where
  "resolve_wait_handler i e error rs d =
     (if length (d_resolving d) \<le> i then Inr d
      else
        (let ctx = d_resolving d ! i;
             d = d\<lparr>d_resolving := take i (d_resolving d) @ drop (Suc i) (d_resolving d)\<rparr>
         in if e = Wait_Aborted then Inr d
            else
              rbind (resolve_replies rs ctx d) (\<lambda>d.
                Inr (if error \<noteq> 0 then d\<lparr>isBrowsingActive := False\<rparr> else d))))"

section \<open>Destruction\<close>

text \<open>Only the list object is freed, not the elements it leads to.\<close>

definition LinkedList_str_Destructor :: "LinkedList_str option \<Rightarrow> ll_mem \<Rightarrow> LinkedList_str option \<times> ll_mem" where
  "LinkedList_str_Destructor list_p m = (None, m)"

text \<open>The destructors of \<open>BVDiscovery_Bonjour\<close> and of its base class; what is left of the memory.\<close>

definition BVDiscovery_Bonjour_dtor :: "discovery \<Rightarrow> ll_mem" where
  "BVDiscovery_Bonjour_dtor d =
     (let d = d\<lparr>d_status := BVSTATUS_DEAD, d_dnsRef := False\<rparr> in snd (LinkedList_str_Destructor (Some (c_ll_p d)) (d_mem d)))"

section \<open>Registration\<close>

record BVService =
  sv_hostname :: bytes
  sv_domain :: bytes
  sv_port :: int
  sv_isRegistered :: bool

definition BVService_ctor :: "bytes \<Rightarrow> bytes \<Rightarrow> int \<Rightarrow> BVService" where
  "BVService_ctor hostname domain port =
     \<lparr>sv_hostname = hostname, sv_domain = domain, sv_port = uint (ntohs port), sv_isRegistered = False\<rparr>"

definition GetHostData :: "BVService \<Rightarrow> BVServiceData" where
  "GetHostData s =
     \<lparr>sd_port = sv_port s, sd_hostname = sv_hostname s, sd_domain = sv_domain s, sd_regtype = SERVICETYPE_STR\<rparr>"

text \<open>\<open>error\<close>, \<open>processed\<close>: what \<open>DNSServiceRegister\<close> and \<open>DNSServiceProcessResult\<close> return; \<open>replyError\<close>: set by \<open>C_RegisterReply\<close>.\<close>

definition ProcessDNSServiceRegisterResult :: "int \<Rightarrow> bool \<Rightarrow> BVStatus" where
  "ProcessDNSServiceRegisterResult error replyError =
     (if error \<noteq> 0 then BVSTATUS_NOK else if replyError then BVSTATUS_NOK else BVSTATUS_OK)"

definition C_RegisterReply :: "int \<Rightarrow> bool \<Rightarrow> bool" where
  "C_RegisterReply errorCode replyError = (if errorCode = 0 then replyError else True)"

definition Register :: "int \<Rightarrow> int \<Rightarrow> int list \<Rightarrow> bool \<Rightarrow> BVService \<Rightarrow> BVStatus \<times> bool \<times> BVService" where
  "Register error processed replies replyError s =
     (if error \<noteq> 0 then (BVSTATUS_NOK, replyError, s)
      else
        (let replyError = fold C_RegisterReply replies replyError;
             status = ProcessDNSServiceRegisterResult processed replyError
         in (status, replyError, if status = BVSTATUS_OK then s\<lparr>sv_isRegistered := True\<rparr> else s)))"

section \<open>Names in the list of browse results\<close>

lemma lbind_simps [simp]: "lbind (Some (Inr x)) f = f x" "lbind (Some (Inl e)) f = Some (Inl e)"
  by (simp_all add: lbind_def)

text \<open>What is left of a name, type or domain after it went through its field of the buffer.\<close>

definition field_of :: "nat \<Rightarrow> bytes \<Rightarrow> bytes" where
  "field_of mx s = (if length s < mx then erase_byte 32 s else [])"

definition browse_instance :: "browse_reply \<Rightarrow> BVServiceBrowseInstance" where
  "browse_instance r =
     \<lparr>bi_serviceName = field_of N_BYTES_SERVNAME_MAX (br_serviceName r),
      bi_regType = field_of N_BYTES_REGTYPE_MAX (br_regtype r),
      bi_replyDomain = field_of N_BYTES_REPLDOMN_MAX (br_replyDomain r)\<rparr>"

text \<open>The arguments of the callback are C strings.\<close>

definition c_strings :: "browse_reply \<Rightarrow> bool" where
  "c_strings r \<longleftrightarrow> 0 \<notin> set (br_serviceName r) \<and> 0 \<notin> set (br_regtype r) \<and> 0 \<notin> set (br_replyDomain r)"

definition spaces :: "nat \<Rightarrow> bytes" where "spaces n = replicate n 32"

definition padded :: "nat \<Rightarrow> bytes \<Rightarrow> bytes" where
  "padded mx s = (if length s < mx then s @ spaces (mx - length s) else spaces mx)"

lemma length_padded [simp]: "length (padded mx s) = mx"
  by (simp add: padded_def spaces_def)

lemma put_field_spaces:
  assumes "length a = off"
  shows "put_field off mx s (a @ spaces mx @ b) = a @ padded mx s @ b"
  using assms by (simp add: put_field_def padded_def memcpy_at_def spaces_def)

lemma service_buff_fields:
  "service_buff n t d = (padded 24 n @ padded 24 t @ padded 16 d)[63 := 0]"
proof -
  have b: "replicate N_BYTES_SERVICE_STR_TOTAL 32 = [] @ spaces 24 @ spaces 24 @ spaces 16"
    by (simp add: const_h_defs spaces_def flip: replicate_add)
  have 1: "put_field 0 24 n ([] @ spaces 24 @ spaces 24 @ spaces 16) = padded 24 n @ spaces 24 @ spaces 16 @ []"
    using put_field_spaces [of "[]" 0 24 n "spaces 24 @ spaces 16"] by simp
  have 2: "put_field 24 24 t (padded 24 n @ spaces 24 @ spaces 16 @ []) = (padded 24 n @ padded 24 t) @ spaces 16 @ []"
    using put_field_spaces [of "padded 24 n" 24 24 t "spaces 16"] by simp
  have 3: "put_field 48 16 d ((padded 24 n @ padded 24 t) @ spaces 16 @ []) = padded 24 n @ padded 24 t @ padded 16 d"
    using put_field_spaces [of "padded 24 n @ padded 24 t" 48 16 d "[]"] by simp
  show ?thesis
    unfolding service_buff_def b Let_def N_BYTES_SERVNAME_MAX_def N_BYTES_REGTYPE_MAX_def N_BYTES_REPLDOMN_MAX_def 1 2
    using 3 by (simp add: const_h_defs)
qed

lemma erase_padded: "erase_byte 0 (erase_byte 32 (padded mx s)) = erase_byte 0 (field_of mx s)"
  by (simp add: padded_def field_of_def erase_byte_def spaces_def)

lemma spaces_Suc: "spaces (Suc k) = spaces k @ [32]"
  by (simp add: spaces_def replicate_append_same)

lemma padded_last: "0 < mx \<Longrightarrow> \<exists>b. padded mx s = b @ [32] \<and> length b = mx - 1"
proof (cases "length s < mx")
  case True
  then obtain k where "mx - length s = Suc k" by (metis Suc_diff_Suc)
  with True show ?thesis by (intro exI [of _ "s @ spaces k"]) (auto simp: padded_def spaces_Suc, simp add: spaces_def)
next
  case False
  assume "0 < mx"
  then obtain k where "mx = Suc k" by (cases mx) auto
  with False show ?thesis by (intro exI [of _ "spaces k"]) (auto simp: padded_def spaces_Suc, simp add: spaces_def)
qed

text \<open>The bytes of the buffer up to its terminator, and the data of the element made from it.\<close>

lemma strncpy_buff:
  assumes "0 \<notin> set b" and "length b < n"
  shows "strncpy n (b @ [0]) = Inr (b @ zeros (n - length b))"
proof -
  have "takeWhile (\<lambda>c. c \<noteq> 0) (b @ [0]) = b" by (rule takeWhile_stop [OF assms(1), of "[]"])
  moreover have "0 \<in> set (take n (b @ [0]))" using assms(2) by simp
  ultimately show ?thesis by (simp add: strncpy_def)
qed

lemma instance_of_fields:
  assumes "length a = 24" "length b = 24" "length c = 16"
  shows "instance_of_data (a @ b @ c @ rest) =
    \<lparr>bi_serviceName = erase_byte 0 (erase_byte 32 a), bi_regType = erase_byte 0 (erase_byte 32 b),
     bi_replyDomain = erase_byte 0 (erase_byte 32 c)\<rparr>"
  using assms by (simp add: instance_of_data_def const_h_defs Let_def)

lemma set_field_of: "set (field_of mx s) \<subseteq> set s"
  by (auto simp: field_of_def erase_byte_def)

lemma set_padded: "set (padded mx s) \<subseteq> insert 32 (set s)"
  by (auto simp: padded_def spaces_def)

lemma erase_absent: "0 \<notin> set s \<Longrightarrow> erase_byte 0 (field_of mx s) = field_of mx s"
  using set_field_of [of mx s] by (auto simp: erase_byte_def filter_id_conv)

lemma element_of_reply:
  assumes "c_strings r"
  shows "\<exists>d. LinkedListElement_str_Constructor (Some (service_buff (br_serviceName r) (br_regtype r) (br_replyDomain r))) None m =
      Inr (brk m, m\<lparr>cells := (cells m)(brk m \<mapsto> \<lparr>next_p = None, ll_data = d\<rparr>), brk := Suc (brk m)\<rparr>) \<and>
    instance_of_data d = browse_instance r"
proof -
  let ?n = "br_serviceName r" and ?t = "br_regtype r" and ?d = "br_replyDomain r"
  obtain b where b: "padded 16 ?d = b @ [32]" "length b = 15" using padded_last [of 16] by auto
  let ?s = "padded 24 ?n @ padded 24 ?t @ b"
  have buff: "service_buff ?n ?t ?d = ?s @ [0]"
    unfolding service_buff_fields b(1) using b(2) by (simp add: list_update_append)
  have "0 \<notin> set ?s"
    using assms set_padded [of 24 ?n] set_padded [of 24 ?t] set_padded [of 16 ?d] b(1) by (auto simp: c_strings_def)
  then have c: "strncpy 256 (service_buff ?n ?t ?d) = Inr (padded 24 ?n @ padded 24 ?t @ (b @ [0]) @ zeros 192)"
    unfolding buff using strncpy_buff [of ?s 256] b(2) by (simp add: zeros_def flip: replicate_Suc)
  have last: "erase_byte 0 (erase_byte 32 (b @ [0])) = erase_byte 0 (field_of 16 ?d)"
    using erase_padded [of 16 ?d] unfolding b(1) by (simp add: erase_byte_def)
  have "instance_of_data (padded 24 ?n @ padded 24 ?t @ (b @ [0]) @ zeros 192) = browse_instance r"
    using assms b(2) last erase_absent
    by (simp add: instance_of_fields erase_padded browse_instance_def c_strings_def N_BYTES_SERVNAME_MAX_def
        N_BYTES_REGTYPE_MAX_def N_BYTES_REPLDOMN_MAX_def del: append_assoc append.simps)
  with c show ?thesis by (auto simp: LinkedListElement_str_Constructor_def MAX_DATA_SIZE_def)
qed

section \<open>The list between the callbacks\<close>

text \<open>The list holds these services, and no other cell is allocated.\<close>

definition ll_holds :: "LinkedList_str \<Rightarrow> ll_mem \<Rightarrow> BVServiceBrowseInstance list \<Rightarrow> bool" where
  "ll_holds ll m l \<longleftrightarrow> (\<exists>as. ll_rep ll m as \<and> dom (cells m) = set as \<and> mem_inv m \<and>
     map (\<lambda>a. map_option (instance_of_data \<circ> ll_data) (cells m a)) as = map Some l)"

lemma ll_holds_didRegister [simp]: "ll_holds (ll\<lparr>didRegister := x\<rparr>) m l = ll_holds ll m l"
  by (simp add: ll_holds_def ll_rep_def)

lemma element_added:
  assumes h: "ll_holds ll m l" and r: "c_strings r"
  shows "\<exists>e m1 ll' m'. LinkedListElement_str_Constructor
      (Some (service_buff (br_serviceName r) (br_regtype r) (br_replyDomain r))) None m = Inr (e, m1) \<and>
    LinkedList_str_AddElement ll e m1 = Some (Inr (ll', m')) \<and> ll_holds ll' m' (l @ [browse_instance r]) \<and>
    didRegister ll' = didRegister ll"
proof -
  obtain as where as: "ll_rep ll m as" "dom (cells m) = set as" "mem_inv m"
      "map (\<lambda>a. map_option (instance_of_data \<circ> ll_data) (cells m a)) as = map Some l"
    using h by (auto simp: ll_holds_def ll_rep_def)
  obtain d where d: "LinkedListElement_str_Constructor (Some (service_buff (br_serviceName r) (br_regtype r) (br_replyDomain r))) None m =
      Inr (brk m, m\<lparr>cells := (cells m)(brk m \<mapsto> \<lparr>next_p = None, ll_data = d\<rparr>), brk := Suc (brk m)\<rparr>)"
      "instance_of_data d = browse_instance r"
    using element_of_reply [OF r] by blast
  define m1 where "m1 = m\<lparr>cells := (cells m)(brk m \<mapsto> \<lparr>next_p = None, ll_data = d\<rparr>), brk := Suc (brk m)\<rparr>"
  have new: "brk m \<notin> set as" using as(2,3) by (auto simp: mem_inv_def)
  have rep: "ll_rep ll m1 as" using as(1) new by (simp add: ll_rep_def m1_def)
  have cell: "cells m1 (brk m) = Some \<lparr>next_p = None, ll_data = d\<rparr>" by (simp add: m1_def)
  obtain ll' m' where a: "LinkedList_str_AddElement ll (brk m) m1 = Some (Inr (ll', m'))" "ll_rep ll' m' (as @ [brk m])"
      "didRegister ll' = didRegister ll" "brk m' = brk m1"
      and data: "\<forall>a. map_option ll_data (cells m' a) = map_option ll_data (cells m1 a)"
    using AddElement_path [OF rep cell _ new] by auto
  have dom: "dom (cells m') = set (as @ [brk m])" unfolding same_data_dom [OF data] m1_def using as(2) by simp
  have "map_option (instance_of_data \<circ> ll_data) (cells m' a) = map_option (instance_of_data \<circ> ll_data) (cells m1 a)" for a
    using arg_cong [OF spec [OF data, of a], of "map_option instance_of_data"] by (simp add: option.map_comp)
  moreover have "map (\<lambda>a. map_option (instance_of_data \<circ> ll_data) (cells m1 a)) as = map Some l"
    unfolding as(4) [symmetric] by (rule map_cong) (use new in \<open>auto simp: m1_def\<close>)
  ultimately have "map (\<lambda>a. map_option (instance_of_data \<circ> ll_data) (cells m' a)) (as @ [brk m]) = map Some (l @ [browse_instance r])"
    using d(2) by (simp add: cell)
  moreover have "mem_inv m'"
    using as(3) a(4) unfolding mem_inv_def domIff [symmetric] dom as(2) by (auto simp: m1_def)
  ultimately have "ll_holds ll' m' (l @ [browse_instance r])" using a(2) dom unfolding ll_holds_def by blast
  then show ?thesis using d(1) a(1,3) unfolding m1_def by blast
qed

lemma reply_added:
  assumes h: "ll_holds ll m l" and r: "c_strings r" "br_error r = 0"
  shows "\<exists>ll' m'. C_ServiceBrowseReply r (ll, m) = Some (Inr (ll', m')) \<and> ll_holds ll' m' (l @ [browse_instance r]) \<and>
    didRegister ll' = (if br_flags r AND kDNSServiceFlagsAdd = 0 then 0 else 1)"
proof -
  let ?ll = "ll\<lparr>didRegister := (if br_flags r AND kDNSServiceFlagsAdd = 0 then 0 else 1)\<rparr>"
  have "ll_holds ?ll m l" using h by simp
  from element_added [OF this r(1)] r(2) show ?thesis by (auto simp: C_ServiceBrowseReply_def)
qed

text \<open>The flag after the callbacks is that of the last reply without an error.\<close>

definition last_flag :: "browse_reply list \<Rightarrow> u8 \<Rightarrow> u8" where
  "last_flag rs f = fold (\<lambda>r f. if br_error r = 0 then if br_flags r AND kDNSServiceFlagsAdd = 0 then 0 else 1 else f) rs f"

abbreviation good :: "browse_reply list \<Rightarrow> BVServiceBrowseInstance list" where
  "good rs \<equiv> map browse_instance (filter (\<lambda>r. br_error r = 0) rs)"

lemma replies_added:
  assumes "ll_holds ll m l" and "\<forall>r \<in> set rs. c_strings r"
  shows "\<exists>ll' m'. browse_replies rs (ll, m) = Some (Inr (ll', m')) \<and> ll_holds ll' m' (l @ good rs) \<and>
    didRegister ll' = last_flag rs (didRegister ll)"
  using assms
proof (induction rs arbitrary: ll m l)
  case Nil
  then show ?case by (simp add: last_flag_def)
next
  case (Cons r rs)
  show ?case
  proof (cases "br_error r = 0")
    case True
    obtain ll1 m1 where r: "C_ServiceBrowseReply r (ll, m) = Some (Inr (ll1, m1))" "ll_holds ll1 m1 (l @ [browse_instance r])"
        "didRegister ll1 = (if br_flags r AND kDNSServiceFlagsAdd = 0 then 0 else 1)"
      using reply_added [OF Cons.prems(1) _ True] Cons.prems(2) by auto
    with Cons.IH [OF r(2)] Cons.prems(2) True show ?thesis by (auto simp: last_flag_def)
  next
    case False
    then have "C_ServiceBrowseReply r (ll, m) = Some (Inr (ll, m))" by (simp add: C_ServiceBrowseReply_def)
    with Cons.IH [OF Cons.prems(1)] Cons.prems(2) False show ?thesis by (auto simp: last_flag_def)
  qed
qed

lemma browse_list_path:
  assumes "ll_path h p as" and "map (\<lambda>a. map_option (instance_of_data \<circ> ll_data) (h a)) as = map Some l"
  shows "browse_list_loop h p acc = Some (Inr (acc @ l))"
  using assms
proof (induction as arbitrary: p acc l)
  case Nil
  then show ?case by (simp add: browse_list_loop.simps)
next
  case (Cons a as)
  then obtain e where e: "p = Some a" "h a = Some e" "ll_path h (next_p e) as" by auto
  with Cons.prems(2) obtain l' where l: "l = instance_of_data (ll_data e) # l'"
      "map (\<lambda>a. map_option (instance_of_data \<circ> ll_data) (h a)) as = map Some l'"
    by (cases l) (auto simp: comp_def)
  show ?case using Cons.IH [OF e(3) l(2)] e l(1) by (simp add: browse_list_loop.simps [of h "Some a"])
qed

lemma ReturnList_holds: "ll_holds ll m l \<Longrightarrow> ReturnListFromBrowseResults ll m = Some (Inr l)"
  by (auto simp: ll_holds_def ReturnListFromBrowseResults_def ll_rep_def dest!: browse_list_path [where acc = "[]"])

lemma ClearList_holds:
  assumes "ll_holds ll m l"
  shows "\<exists>ll' m'. LinkedList_str_ClearList ll m = Some (Inr (ll', m')) \<and> ll_holds ll' m' [] \<and> didRegister ll' = 0"
proof -
  obtain as where as: "ll_rep ll m as" "dom (cells m) = set as" using assms by (auto simp: ll_holds_def)
  obtain ll' m' where c: "LinkedList_str_ClearList ll m = Some (Inr (ll', m'))" "head_p ll' = None" "didRegister ll' = 0"
      "dom (cells m') = {}"
    using ClearList_path [OF as(1)] as(2) by auto
  then have "ll_holds ll' m' []" by (auto simp: ll_holds_def ll_rep_def mem_inv_def intro!: exI [of _ "[]"])
  with c show ?thesis by blast
qed

section \<open>The list of results as an interface\<close>

text \<open>
  What the components rely on: a list that holds results is read as they are, and cleared after it was read it
  holds none.
\<close>

locale result_list =
  fixes holds :: "'l \<Rightarrow> 'm \<Rightarrow> 'r list \<Rightarrow> bool" and read :: "'l \<Rightarrow> 'm \<Rightarrow> 'r list result option"
    and clear :: "'l \<Rightarrow> 'm \<Rightarrow> ('l \<times> 'm) result option" and fresh :: "'l \<Rightarrow> bool"
  assumes read_holds: "holds ll m l \<Longrightarrow> read ll m = Some (Inr l)"
    and clear_holds: "holds ll m l \<Longrightarrow> \<exists>ll' m'. clear ll m = Some (Inr (ll', m')) \<and> holds ll' m' [] \<and> fresh ll'"
begin

lemma read_and_clear:
  assumes "holds ll m l"
  obtains ll' m' where "read ll m = Some (Inr l)" "clear ll m = Some (Inr (ll', m'))" "holds ll' m' []" "fresh ll'"
  using read_holds [OF assms] clear_holds [OF assms] that by blast

end

interpretation results: result_list ll_holds ReturnListFromBrowseResults LinkedList_str_ClearList "\<lambda>ll. didRegister ll = 0"
  by unfold_locales (rule ReturnList_holds, assumption, rule ClearList_holds)

section \<open>What the application is told\<close>

lemma browse_told:
  assumes act: "isBrowsingActive d" "d_dnsRef d" and ll: "ll_holds (c_ll_p d) (d_mem d) l" and rs: "\<forall>r \<in> set rs. c_strings r"
  shows "\<exists>d'. ProcessDNSServiceBrowseResult 0 rs d = Some (Inr (BVSTATUS_OK, d')) \<and>
    d_out d' = d_out d @ browse_event (last_flag rs (didRegister (c_ll_p d))) (l @ good rs) \<and>
    ll_holds (c_ll_p d') (d_mem d') [] \<and> isBrowsingActive d' \<and> d_dnsRef d' \<and> d_waits d' = Suc (d_waits d) \<and>
    didRegister (c_ll_p d') = 0 \<and> d_resolving d' = d_resolving d"
proof -
  obtain ll m where b: "browse_replies rs (c_ll_p d, d_mem d) = Some (Inr (ll, m))" "ll_holds ll m (l @ good rs)"
      "didRegister ll = last_flag rs (didRegister (c_ll_p d))"
    using replies_added [OF ll rs] by blast
  show ?thesis
    by (rule results.read_and_clear [OF b(2)])
      (use act b in \<open>simp add: ProcessDNSServiceBrowseResult_def AwaitFDForProcessingBrowseResult_def\<close>)
qed

section \<open>The component as a state machine\<close>

text \<open>
  Messages from the broker, completions of waits and of the timer. The requests to resolve come from the application,
  which asks for services it was told of: their fields are shorter than those of the context.
\<close>

definition fits :: "BVServiceBrowseInstance \<Rightarrow> bool" where
  "fits bI \<longleftrightarrow> length (bi_serviceName bI) < N_BYTES_SERVNAME_MAX \<and> length (bi_regType bI) < N_BYTES_REGTYPE_MAX \<and>
     length (bi_replyDomain bI) < N_BYTES_REPLDOMN_MAX"

inductive disc_step :: "discovery \<Rightarrow> discovery \<Rightarrow> bool" where
  browse: "disc_step d (Browse fd ec d)"
| pause: "disc_step d (snd (OnPause d))"
| resume: "disc_step d (snd (OnResume d))"
| timer: "disc_step d (pause_timer_handler d)"
| shutdown: "disc_OnShutdown d = Inr (st, d') \<Longrightarrow> disc_step d d'"
| resolve: "fits bI \<Longrightarrow> disc_step d (snd (OnResolveRequest g error fd ec (Some (Any_Browse bI)) d))"
| browsed: "\<forall>r \<in> set rs. c_strings r \<Longrightarrow> browse_wait_handler e error rs d = Some (Inr d') \<Longrightarrow> disc_step d d'"
| resolved: "resolve_wait_handler i e error rrs d = Inr d' \<Longrightarrow> disc_step d d'"

inductive disc_reach :: "discovery \<Rightarrow> bool" where
  created: "disc_reach (BVDiscovery_Bonjour_ctor error sd)"
| stepped: "disc_reach d \<Longrightarrow> disc_step d d' \<Longrightarrow> disc_reach d'"

definition terminated :: "ResolveCallbackContext \<Rightarrow> bool" where
  "terminated ctx \<longleftrightarrow> 0 \<in> set (rcc_serviceName ctx) \<and> 0 \<in> set (rcc_regType ctx) \<and> 0 \<in> set (rcc_replyDomain ctx)"

definition disc_inv :: "discovery \<Rightarrow> bool" where
  "disc_inv d \<longleftrightarrow> (\<exists>l. ll_holds (c_ll_p d) (d_mem d) l \<and> (\<forall>bI \<in> set l. fits bI)) \<and> (\<forall>ctx \<in> set (d_resolving d). terminated ctx)"

lemma field_of_short: "0 < mx \<Longrightarrow> length (field_of mx s) < mx"
  using length_filter_le [of "\<lambda>x. x \<noteq> 32" s] by (auto simp: field_of_def erase_byte_def simp del: length_filter_le)

lemma browse_instance_fits: "fits (browse_instance r)"
  by (simp add: fits_def browse_instance_def field_of_short const_h_defs)

lemma c_str_read_split: "length s < n \<Longrightarrow> \<exists>t. c_str_read g n s = s @ 0 # t"
  by (auto simp: c_str_read_def take_Cons')

lemma c_str_read_terminated: "length s < n \<Longrightarrow> 0 \<in> set (c_str_read g n s)"
  using c_str_read_split [of s n g] by auto

lemma cstr_c_str_read: "length s < n \<Longrightarrow> 0 \<notin> set s \<Longrightarrow> cstr (c_str_read g n s) = Inr s"
  using c_str_read_split [of s n g] takeWhile_stop [of 0 s] by (auto simp: cstr_def)

lemma cstr_copy_field: "length s < n \<Longrightarrow> 0 \<notin> set s \<Longrightarrow> cstr (copy_field n s) = Inr s"
proof -
  assume a: "length s < n" "0 \<notin> set s"
  then obtain k where k: "n - length s = Suc k" by (metis Suc_diff_Suc)
  have "copy_field n s = s @ 0 # zeros k" using a k by (simp add: copy_field_def zeros_def)
  then show ?thesis using takeWhile_stop [OF a(2), of "zeros k"] by (simp add: cstr_def)
qed

lemma Await_fields [simp]: "c_ll_p (AwaitFDForProcessingBrowseResult d) = c_ll_p d" "d_mem (AwaitFDForProcessingBrowseResult d) = d_mem d"
    "d_resolving (AwaitFDForProcessingBrowseResult d) = d_resolving d" "d_out (AwaitFDForProcessingBrowseResult d) = d_out d"
  by (simp_all add: AwaitFDForProcessingBrowseResult_def)

lemma resolve_request_inv:
  assumes "fits bI" "disc_inv d"
  shows "disc_inv (snd (OnResolveRequest g error fd ec (Some (Any_Browse bI)) d))"
proof -
  have "terminated \<lparr>rcc_serviceName = c_str_read g 24 (bi_serviceName bI), rcc_regType = c_str_read g 24 (bi_regType bI),
      rcc_replyDomain = c_str_read g 16 (bi_replyDomain bI)\<rparr>"
    using assms(1) c_str_read_terminated by (simp add: terminated_def fits_def const_h_defs)
  then show ?thesis
    using assms(2) by (auto simp: disc_inv_def OnResolveRequest_def ResolveService_def CreateResolveContext_def Let_def
        N_BYTES_SERVNAME_MAX_def N_BYTES_REGTYPE_MAX_def N_BYTES_REPLDOMN_MAX_def)
qed

lemma browse_handler_returns:
  assumes inv: "disc_inv d" and rs: "\<forall>r \<in> set rs. c_strings r"
  shows "\<exists>d'. browse_wait_handler e error rs d = Some (Inr d') \<and> disc_inv d'"
proof -
  obtain l where l: "ll_holds (c_ll_p d) (d_mem d) l" and f: "\<forall>bI \<in> set l. fits bI" using inv by (auto simp: disc_inv_def)
  then have g: "\<forall>bI \<in> set (l @ good rs). fits bI" using browse_instance_fits by auto
  let ?d = "d\<lparr>d_waits := d_waits d - 1\<rparr>"
  have "\<exists>st d'. ProcessDNSServiceBrowseResult error rs ?d = Some (Inr (st, d')) \<and> disc_inv d'"
  proof (cases "isBrowsingActive d \<and> d_dnsRef d")
    case False
    then show ?thesis using inv by (auto simp: ProcessDNSServiceBrowseResult_def disc_inv_def)
  next
    case True
    obtain ll m where b: "browse_replies rs (c_ll_p d, d_mem d) = Some (Inr (ll, m))" "ll_holds ll m (l @ good rs)"
      using replies_added [OF l rs] by blast
    show ?thesis
    proof (cases "error = 0")
      case True
      with browse_told [of ?d l rs] l rs \<open>isBrowsingActive d \<and> d_dnsRef d\<close> inv show ?thesis by (fastforce simp: disc_inv_def)
    next
      case False
      with True b(1) inv have "\<exists>st d'. ProcessDNSServiceBrowseResult error rs ?d = Some (Inr (st, d')) \<and> c_ll_p d' = ll \<and> d_mem d' = m \<and>
          (\<forall>ctx \<in> set (d_resolving d'). terminated ctx)"
        by (simp add: ProcessDNSServiceBrowseResult_def disc_inv_def)
      with b(2) g show ?thesis unfolding disc_inv_def by blast
    qed
  qed
  with inv show ?thesis
    by (cases e) (auto simp: browse_wait_handler_def disc_inv_def Let_def)
qed

lemma resolve_replies_returns:
  "terminated ctx \<Longrightarrow> \<exists>d'. resolve_replies rs ctx d = Inr d' \<and> c_ll_p d' = c_ll_p d \<and> d_mem d' = d_mem d \<and> d_resolving d' = d_resolving d"
proof (induction rs arbitrary: d)
  case Nil
  then show ?case by simp
next
  case (Cons r rs)
  have "\<exists>res. C_ResolveReply r ctx = Inr res" using Cons.prems by (auto simp: C_ResolveReply_def terminated_def cstr_def Let_def)
  then obtain res where res: "C_ResolveReply r ctx = Inr res" by blast
  let ?d = "case res of None \<Rightarrow> d | Some x \<Rightarrow> disc_SendMessage \<lparr>event_t = BVEVENTTYPE_APP_DISCOVERY_SERVICE_RESOLVED, data_p = Some (Any_Resolution x)\<rparr> d"
  have "c_ll_p ?d = c_ll_p d" "d_mem ?d = d_mem d" "d_resolving ?d = d_resolving d"
    by (simp_all add: disc_SendMessage_def split: option.splits)
  with Cons.IH [OF Cons.prems, of ?d] res show ?case by simp
qed

lemma resolve_handler_returns:
  assumes "disc_inv d"
  shows "\<exists>d'. resolve_wait_handler i e error rrs d = Inr d' \<and> disc_inv d'"
proof (cases "length (d_resolving d) \<le> i")
  case True
  then show ?thesis using assms by (simp add: resolve_wait_handler_def)
next
  case False
  let ?cs = "take i (d_resolving d) @ drop (Suc i) (d_resolving d)"
  have "terminated (d_resolving d ! i)" using assms False by (simp add: disc_inv_def)
  then obtain d1 where d1: "resolve_replies rrs (d_resolving d ! i) (d\<lparr>d_resolving := ?cs\<rparr>) = Inr d1" "c_ll_p d1 = c_ll_p d"
      "d_mem d1 = d_mem d" "d_resolving d1 = ?cs"
    using resolve_replies_returns [of "d_resolving d ! i" rrs "d\<lparr>d_resolving := ?cs\<rparr>"] by auto
  have "\<forall>ctx \<in> set ?cs. terminated ctx" using assms by (auto simp: disc_inv_def dest: in_set_takeD in_set_dropD)
  then have "disc_inv (d\<lparr>d_resolving := ?cs\<rparr>)" "disc_inv d1" "disc_inv (d1\<lparr>isBrowsingActive := False\<rparr>)"
    using assms d1 unfolding disc_inv_def by simp_all
  then show ?thesis using d1(1) False by (simp add: resolve_wait_handler_def Let_def)
qed

lemma disc_inv_ctor: "disc_inv (BVDiscovery_Bonjour_ctor error sd)"
proof -
  have "ll_holds (LinkedList_str_Constructor None) \<lparr>cells = (\<lambda>_. None), brk = 0\<rparr> []"
    by (auto simp: ll_holds_def ll_rep_def LinkedList_str_Constructor_def mem_inv_def)
  then show ?thesis by (auto simp: disc_inv_def BVDiscovery_Bonjour_ctor_def Setup_def CreateConnectionContext_def)
qed

lemma disc_step_inv: "disc_step d d' \<Longrightarrow> disc_inv d \<Longrightarrow> disc_inv d'"
proof (induction rule: disc_step.induct)
  case (browsed rs e error d d')
  from browse_handler_returns [OF browsed.prems browsed.hyps(1), of e error] browsed.hyps(2) show ?case by auto
next
  case (resolved i e error rrs d d')
  from resolve_handler_returns [OF resolved.prems, of i e error rrs] resolved.hyps show ?case by auto
next
  case (resolve bI d g error fd ec)
  then show ?case using resolve_request_inv by blast
qed (auto simp: disc_inv_def Browse_def OnPause_def OnResume_def pause_timer_handler_def disc_OnShutdown_def Let_def
    split: if_splits)

lemma disc_reach_inv: "disc_reach d \<Longrightarrow> disc_inv d"
  by (induction rule: disc_reach.induct) (auto intro: disc_inv_ctor disc_step_inv)

section \<open>Ports\<close>

lemma ntohs_twice: "ntohs (uint (ntohs p)) = word_of_int p"
proof -
  have "push_bit 8 (push_bit 8 w OR drop_bit 8 w) OR drop_bit 8 (push_bit 8 w OR drop_bit 8 w) = w" for w :: u16
    by (rule bit_word_eqI) (auto simp: bit_simps dest: bit_imp_le_length)
  then show ?thesis by (simp add: ntohs_def Let_def)
qed

section \<open>Concrete replies\<close>

definition example_reply :: "bool \<Rightarrow> bytes \<Rightarrow> browse_reply" where
  "example_reply add n = \<lparr>br_flags = (if add then 2 else 0), br_error = 0, br_serviceName = n, br_regtype = SERVICETYPE_STR,
     br_replyDomain = str ''local.''\<rparr>"

definition example_discovery :: discovery where
  "example_discovery = Browse 3 False (BVDiscovery_Bonjour_ctor 0
     \<lparr>sd_port = 50001, sd_hostname = str ''alice'', sd_domain = str ''local.'', sd_regtype = SERVICETYPE_STR\<rparr>)"

lemma example_discovery_fields [simp]: "isBrowsingActive example_discovery" "d_dnsRef example_discovery" "d_waits example_discovery = 1"
    "d_out example_discovery = []" "d_resolving example_discovery = []"
  by (simp_all add: example_discovery_def Browse_def BVDiscovery_Bonjour_ctor_def Setup_def CreateConnectionContext_def
      AwaitFDForProcessingBrowseResult_def)

lemma example_discovery_reach: "disc_reach example_discovery"
  unfolding example_discovery_def by (rule stepped [OF created browse])

lemma example_discovery_empty: "ll_holds (c_ll_p example_discovery) (d_mem example_discovery) []"
  by (auto simp: example_discovery_def Browse_def BVDiscovery_Bonjour_ctor_def Setup_def CreateConnectionContext_def
      ll_holds_def ll_rep_def LinkedList_str_Constructor_def mem_inv_def)

lemma example_reply_strings: "0 \<notin> set n \<Longrightarrow> c_strings (example_reply add n)"
  by (simp add: c_strings_def example_reply_def SERVICETYPE_STR_def str_def)

text \<open>One resolution, from the request to the message.\<close>

lemma resolution_reaches_app:
  assumes "fits bI" "0 \<notin> set (bi_serviceName bI)" and "0 \<notin> set (bi_regType bI)" "0 \<notin> set (bi_replyDomain bI)"
    and "0 \<le> fd" and "d_resolving d = []"
    and "rr_errorCode r = 0" "rr_hosttarget r = Some hosttarget" "0 \<notin> set hosttarget" "length hosttarget < 256"
  shows "\<exists>d1 d2 res. OnResolveRequest g 0 fd False (Some (Any_Browse bI)) d = (BVSTATUS_OK, d1) \<and>
    resolve_wait_handler 0 Wait_Ready 0 [r] d1 = Inr d2 \<and>
    d_out d2 = d_out d @ [\<lparr>event_t = BVEVENTTYPE_APP_DISCOVERY_SERVICE_RESOLVED, data_p = Some (Any_Resolution res)\<rparr>] \<and>
    cstr (dr_serviceName res) = Inr (bi_serviceName bI) \<and> cstr (dr_hosttarget res) = Inr hosttarget \<and>
    dr_port res = ntohs (uint (rr_port r)) \<and> isBrowsingActive d2 = isBrowsingActive d"
proof -
  let ?ctx = "\<lparr>rcc_serviceName = c_str_read g 24 (bi_serviceName bI), rcc_regType = c_str_read g 24 (bi_regType bI),
      rcc_replyDomain = c_str_read g 16 (bi_replyDomain bI)\<rparr>"
  have f: "length (bi_serviceName bI) < 24" "length (bi_regType bI) < 24" "length (bi_replyDomain bI) < 16"
    using assms(1) by (simp_all add: fits_def const_h_defs)
  have "\<exists>res. C_ResolveReply r ?ctx = Inr (Some res) \<and> cstr (dr_serviceName res) = Inr (bi_serviceName bI) \<and>
      cstr (dr_hosttarget res) = Inr hosttarget \<and> dr_port res = ntohs (uint (rr_port r))"
    using assms(2-4,7-10) f
    by (simp add: C_ResolveReply_def cstr_c_str_read cstr_copy_field Let_def N_BYTES_SERVNAME_MAX_def MAX_DNS_RESOLUTION_FIELD_SIZE_def)
  then obtain res where "C_ResolveReply r ?ctx = Inr (Some res)" "cstr (dr_serviceName res) = Inr (bi_serviceName bI)"
      "cstr (dr_hosttarget res) = Inr hosttarget" "dr_port res = ntohs (uint (rr_port r))" by blast
  with assms(5,6) show ?thesis
    by (simp add: OnResolveRequest_def ResolveService_def CreateResolveContext_def resolve_wait_handler_def disc_SendMessage_def Let_def
        N_BYTES_SERVNAME_MAX_def N_BYTES_REGTYPE_MAX_def N_BYTES_REPLDOMN_MAX_def)
qed

section \<open>Properties\<close>



text \<open>C21: in every reachable state every completion handler returns, also when the resolve operations complete in another order than they were started: no loop over the list of results runs for ever, no freed element is read, no name is read past its field, and every allocated element is on the list.\<close>

theorem discovery_never_faults:
  assumes "disc_reach d"
  shows "(\<exists>as. ll_rep (c_ll_p d) (d_mem d) as \<and> dom (cells (d_mem d)) = set as) \<and>
    (\<forall>e error rs. (\<forall>r \<in> set rs. c_strings r) \<longrightarrow> (\<exists>d'. browse_wait_handler e error rs d = Some (Inr d'))) \<and>
    (\<forall>i e error rrs. \<exists>d'. resolve_wait_handler i e error rrs d = Inr d')"
proof -
  have inv: "disc_inv d" using assms by (rule disc_reach_inv)
  then have "\<exists>as. ll_rep (c_ll_p d) (d_mem d) as \<and> dom (cells (d_mem d)) = set as" by (auto simp: disc_inv_def ll_holds_def)
  with browse_handler_returns [OF inv] resolve_handler_returns [OF inv] show ?thesis by blast
qed

theorem discovery_never_faults_witness:
  "\<exists>d'. browse_wait_handler Wait_Ready 0 [example_reply True (str ''bob'')] example_discovery = Some (Inr d')"
  using discovery_never_faults [OF example_discovery_reach] example_reply_strings [of "str ''bob''" True] by (auto simp: str_def)

text \<open>The result of a resolution that reaches the application names the service that it asked for, the host and the port in the byte order of the machine, whatever memory lies behind the names that were copied into the context.\<close>

theorem resolution_names_request:
  assumes "fits bI" "0 \<notin> set (bi_serviceName bI)" and "0 \<notin> set (bi_regType bI)" "0 \<notin> set (bi_replyDomain bI)"
    and "0 \<le> fd" and "d_resolving d = []"
    and "rr_errorCode r = 0" "rr_hosttarget r = Some hosttarget" "0 \<notin> set hosttarget" "length hosttarget < 256"
  shows "\<exists>d1 d2 res. OnResolveRequest g 0 fd False (Some (Any_Browse bI)) d = (BVSTATUS_OK, d1) \<and>
    resolve_wait_handler 0 Wait_Ready 0 [r] d1 = Inr d2 \<and>
    d_out d2 = d_out d @ [\<lparr>event_t = BVEVENTTYPE_APP_DISCOVERY_SERVICE_RESOLVED, data_p = Some (Any_Resolution res)\<rparr>] \<and>
    cstr (dr_serviceName res) = Inr (bi_serviceName bI) \<and> cstr (dr_hosttarget res) = Inr hosttarget \<and>
    dr_port res = ntohs (uint (rr_port r)) \<and> isBrowsingActive d2 = isBrowsingActive d"
  by (rule resolution_reaches_app [OF assms])

definition example_resolve_reply :: resolve_reply where
  "example_resolve_reply = \<lparr>rr_errorCode = 0, rr_fullname = None, rr_hosttarget = Some (str ''bob.local''),
     rr_port = ntohs 50001, rr_txtRecord = None\<rparr>"

theorem resolution_names_request_witness:
  "\<exists>d1 d2 res. OnResolveRequest (\<lambda>_. 99) 0 4 False (Some (Any_Browse (browse_instance (example_reply True (str ''bob''))))) example_discovery =
      (BVSTATUS_OK, d1) \<and> resolve_wait_handler 0 Wait_Ready 0 [example_resolve_reply] d1 = Inr d2 \<and>
    d_out d2 = [\<lparr>event_t = BVEVENTTYPE_APP_DISCOVERY_SERVICE_RESOLVED, data_p = Some (Any_Resolution res)\<rparr>] \<and>
    cstr (dr_serviceName res) = Inr (str ''bob'') \<and> cstr (dr_hosttarget res) = Inr (str ''bob.local'') \<and> dr_port res = 50001"
proof -
  let ?b = "browse_instance (example_reply True (str ''bob''))"
  have b: "bi_serviceName ?b = str ''bob''" "0 \<notin> set (bi_serviceName ?b)" "0 \<notin> set (bi_regType ?b)" "0 \<notin> set (bi_replyDomain ?b)"
    by (simp_all add: browse_instance_def example_reply_def field_of_def erase_byte_def const_h_defs str_def SERVICETYPE_STR_def)
  have r: "rr_errorCode example_resolve_reply = 0" "rr_hosttarget example_resolve_reply = Some (str ''bob.local'')"
      "0 \<notin> set (str ''bob.local'')" "length (str ''bob.local'') < 256" "ntohs (uint (rr_port example_resolve_reply)) = 50001"
    by (simp_all add: example_resolve_reply_def ntohs_twice) (simp_all add: str_def)
  show ?thesis
    using resolution_names_request [OF browse_instance_fits b(2-4) _ example_discovery_fields(5) r(1-4), of 4 "\<lambda>_. 99"] b(1) r(5)
    by auto
qed

text \<open>The port a host registers with the daemon is the port its connection manager listens on, and the port the resolution of its service gives to another host.\<close>

theorem port_roundtrip:
  "\<exists>h. BVTCPConnectionManager_ctor False False results (GetHostData (BVService_ctor hostname domain port)) = Inr h \<and>
     n_port (thisMachineHostData h) = uint (word_of_int port :: u16) \<and>
     ntohs (uint (word_of_int (sv_port (BVService_ctor hostname domain port)) :: u16)) = word_of_int port"
  by (simp add: BVTCPConnectionManager_ctor_def GetHostData_def BVService_ctor_def BVNode_results_def ntohs_twice)

text \<open>One flag stands for a whole report: when the daemon reports a new service and then one that is gone, the application is told that both are gone.\<close>

theorem mixed_report_all_gone:
  assumes "isBrowsingActive d" "d_dnsRef d" and "ll_holds (c_ll_p d) (d_mem d) []"
    and "c_strings r" "br_error r = 0" and "c_strings q" "br_error q = 0" "br_flags q AND kDNSServiceFlagsAdd = 0"
  shows "\<exists>d'. ProcessDNSServiceBrowseResult 0 [r, q] d = Some (Inr (BVSTATUS_OK, d')) \<and>
    d_out d' = d_out d @ [\<lparr>event_t = BVEVENTTYPE_APP_DEREGISTERED_SERVICE,
      data_p = Some (Any_BrowseList [browse_instance r, browse_instance q])\<rparr>]"
  using browse_told [OF assms(1-3), of "[r, q]"] assms(4-) by (auto simp: last_flag_def browse_event_def)

theorem mixed_report_all_gone_witness:
  "\<exists>d'. ProcessDNSServiceBrowseResult 0 [example_reply True (str ''bob''), example_reply False (str ''carol'')] example_discovery =
      Some (Inr (BVSTATUS_OK, d')) \<and> map event_t (d_out d') = [BVEVENTTYPE_APP_DEREGISTERED_SERVICE]"
proof -
  have r: "c_strings (example_reply True (str ''bob''))" "c_strings (example_reply False (str ''carol''))"
    by (rule example_reply_strings, simp add: str_def)+
  have z: "br_error (example_reply b n) = 0" "br_flags (example_reply False n) AND kDNSServiceFlagsAdd = 0" for b n
    by (simp_all add: example_reply_def)
  show ?thesis
    using mixed_report_all_gone [OF _ _ example_discovery_empty r(1) z(1) r(2) z(1) z(2)] by auto
qed

text \<open>A service whose name has 24 bytes or more is reported with an empty name.\<close>

theorem long_name_reported_empty:
  assumes "isBrowsingActive d" "d_dnsRef d" and "ll_holds (c_ll_p d) (d_mem d) []"
    and "c_strings r" "br_error r = 0" "br_flags r AND kDNSServiceFlagsAdd \<noteq> 0" "24 \<le> length (br_serviceName r)"
  shows "\<exists>d' bI. ProcessDNSServiceBrowseResult 0 [r] d = Some (Inr (BVSTATUS_OK, d')) \<and>
    d_out d' = d_out d @ [\<lparr>event_t = BVEVENTTYPE_APP_PUBLISHED_SERVICE, data_p = Some (Any_BrowseList [bI])\<rparr>] \<and>
    bi_serviceName bI = []"
proof -
  have "bi_serviceName (browse_instance r) = []" using assms(7) by (simp add: browse_instance_def field_of_def const_h_defs)
  with browse_told [OF assms(1-3), of "[r]"] assms(4-6) show ?thesis by (auto simp: last_flag_def browse_event_def)
qed

theorem long_name_reported_empty_witness:
  "\<exists>d' bI. ProcessDNSServiceBrowseResult 0 [example_reply True (str ''Gregorys-MacBook-Pro.local'')] example_discovery =
      Some (Inr (BVSTATUS_OK, d')) \<and>
    d_out d' = [\<lparr>event_t = BVEVENTTYPE_APP_PUBLISHED_SERVICE, data_p = Some (Any_BrowseList [bI])\<rparr>] \<and> bi_serviceName bI = []"
proof -
  have r: "c_strings (example_reply True (str ''Gregorys-MacBook-Pro.local''))" by (rule example_reply_strings) (simp add: str_def)
  have z: "br_error (example_reply True n) = 0" "br_flags (example_reply True n) AND kDNSServiceFlagsAdd \<noteq> 0" for n
    by (simp_all add: example_reply_def kDNSServiceFlagsAdd_def)
  have l: "24 \<le> length (br_serviceName (example_reply True (str ''Gregorys-MacBook-Pro.local'')))"
    by (simp add: example_reply_def str_def)
  show ?thesis
    using long_name_reported_empty [OF _ _ example_discovery_empty r z(1) z(2) l] by simp
qed

text \<open>When the daemon fails to process one resolution, browsing ends for good: the next report is consumed without telling the application, and no further report is waited for.\<close>

theorem failed_resolution_ends_browsing:
  assumes "d_resolving d = ctx # cs" "d_waits d = 1" and "error \<noteq> 0"
  shows "\<exists>d1 d2. resolve_wait_handler 0 Wait_Ready error [] d = Inr d1 \<and> d_waits d1 = 1 \<and>
    browse_wait_handler Wait_Ready error1 rs d1 = Some (Inr d2) \<and> d_out d2 = d_out d \<and> d_waits d2 = 0 \<and>
    (\<forall>e error2 rs2. browse_wait_handler e error2 rs2 d2 = Some (Inr d2))"
  using assms by (simp add: resolve_wait_handler_def browse_wait_handler_def ProcessDNSServiceBrowseResult_def Let_def)

theorem failed_resolution_ends_browsing_witness:
  "\<exists>d1 d2 ctx. resolve_wait_handler 0 Wait_Ready (-65537) [] (example_discovery\<lparr>d_resolving := [ctx]\<rparr>) = Inr d1 \<and>
    browse_wait_handler Wait_Ready 0 [example_reply True (str ''bob'')] d1 = Some (Inr d2) \<and> d_out d2 = [] \<and> d_waits d2 = 0"
proof -
  let ?ctx = "\<lparr>rcc_serviceName = [0], rcc_regType = [0], rcc_replyDomain = [0]\<rparr>"
  show ?thesis
    using failed_resolution_ends_browsing [of "example_discovery\<lparr>d_resolving := [?ctx]\<rparr>" ?ctx "[]" "-65537" 0
        "[example_reply True (str ''bob'')]"] by auto
qed

text \<open>A browse operation that could not be started is hidden: the component reports to be well, and its worker thread then waits for nothing.\<close>

theorem setup_hides_failure:
  assumes "error \<noteq> 0"
  shows "d_status (BVDiscovery_Bonjour_ctor error sd) = BVSTATUS_OK \<and>
    d_waits (Browse fd ec (BVDiscovery_Bonjour_ctor error sd)) = 0"
  using assms
  by (simp add: BVDiscovery_Bonjour_ctor_def Setup_def CreateConnectionContext_def Browse_def AwaitFDForProcessingBrowseResult_def)

theorem setup_hides_failure_witness:
  "d_status (BVDiscovery_Bonjour_ctor (-65537) (hostData example_discovery)) = BVSTATUS_OK"
  using setup_hides_failure [of "-65537" "hostData example_discovery"] by simp

text \<open>Quitting before the worker thread has given the descriptor to the component, or after it could not, ends in an exception: the handler of the request to terminate throws before it stops the event loop.\<close>

theorem early_shutdown_throws:
  "disc_OnShutdown (BVDiscovery_Bonjour_ctor error sd) = Inl Runtime_Error \<and>
   (fd < 0 \<or> ec \<longrightarrow> disc_OnShutdown (Browse fd ec (BVDiscovery_Bonjour_ctor error sd)) = Inl Runtime_Error)"
  by (simp add: disc_OnShutdown_def BVDiscovery_Bonjour_ctor_def Setup_def CreateConnectionContext_def Browse_def)

text \<open>When the daemon reports an error after it has reported services, the services stay in the list, and the destructors free none of their elements.\<close>

theorem failed_browse_leaks:
  assumes "disc_inv d" "isBrowsingActive d" "d_dnsRef d" "0 < d_waits d" "\<forall>r \<in> set rs. c_strings r" "good rs \<noteq> []" "error \<noteq> 0"
  shows "\<exists>d'. browse_wait_handler Wait_Ready error rs d = Some (Inr d') \<and> \<not> isBrowsingActive d' \<and>
    dom (cells (BVDiscovery_Bonjour_dtor d')) \<noteq> {}"
proof -
  obtain l where "ll_holds (c_ll_p d) (d_mem d) l" using assms(1) by (auto simp: disc_inv_def)
  from replies_added [OF this assms(5)] obtain ll m where
    b: "browse_replies rs (c_ll_p d, d_mem d) = Some (Inr (ll, m))" "ll_holds ll m (l @ good rs)" by blast
  then obtain as where as: "dom (cells m) = set as" "map (\<lambda>a. map_option (instance_of_data \<circ> ll_data) (cells m a)) as = map Some (l @ good rs)"
    by (auto simp: ll_holds_def)
  have "length as = length (l @ good rs)" using arg_cong [OF as(2), of length] by simp
  then have "dom (cells m) \<noteq> {}" using assms(6) as(1) by (cases as) auto
  with assms(2-4,7) b(1) show ?thesis
    by (simp add: browse_wait_handler_def ProcessDNSServiceBrowseResult_def BVDiscovery_Bonjour_dtor_def LinkedList_str_Destructor_def Let_def)
qed

end
