(* ===== verification/Typed_Mail.thy ===== *)
theory Typed_Mail
  imports Console_App Discovery
begin

text \<open>
  Which messages the parts of the program send, and that their receivers can handle them. Every event goes with a payload
  of one type (\<open>typed\<close>), which the handler casts it to; sessions, the application and discovery send typed messages only,
  and the handlers of discovery (\<open>src/BVDiscovery_Bonjour.cpp\<close>) and of the application succeed on them, except where they
  ask the daemon, the resolver or the file system.
\<close>

section \<open>Typed mail\<close>

definition typed :: "BVMessage \<Rightarrow> bool" where
  "typed m =
     (case event_t m of
        BVEVENTTYPE_APP_PUBLISHED_SERVICE \<Rightarrow> (\<exists>l. data_p m = Some (Any_BrowseList l) \<and> (\<forall>bI \<in> set l. fits bI))
      | BVEVENTTYPE_APP_DEREGISTERED_SERVICE \<Rightarrow> (\<exists>l. data_p m = Some (Any_BrowseList l))
      | BVEVENTTYPE_APP_DISCOVERY_SERVICE_RESOLVED \<Rightarrow>
          (\<exists>r. data_p m = Some (Any_Resolution r) \<and> 0 \<in> set (dr_hosttarget r) \<and> 0 \<in> set (dr_serviceName r))
      | BVEVENTTYPE_DISCOVERY_REQUEST_RESOLVE \<Rightarrow> (\<exists>bI. data_p m = Some (Any_Browse bI) \<and> fits bI)
      | BVEVENTTYPE_APP_MESSAGE_INCOMING \<Rightarrow> (\<exists>c. data_p m = Some (Any_Chat c))
      | BVEVENTTYPE_APP_FILE_OFFER \<Rightarrow> (\<exists>f. data_p m = Some (Any_FileData f))
      | BVEVENTTYPE_APP_FILE_TRANSFER_BEGIN \<Rightarrow> (\<exists>f. data_p m = Some (Any_FileData f))
      | BVEVENTTYPE_APP_FILE_TRANSFER_CHUNK_SENT \<Rightarrow> (\<exists>f. data_p m = Some (Any_FileData f))
      | BVEVENTTYPE_APP_FILE_TRANSFER_END \<Rightarrow> (\<exists>f. data_p m = Some (Any_FileData f))
      | BVEVENTTYPE_TERMINATE_ALL \<Rightarrow> data_p m = None
      | BVEVENTTYPE_DISCOVERY_REQUEST_PAUSE \<Rightarrow> data_p m = None
      | BVEVENTTYPE_DISCOVERY_REQUEST_RESUME \<Rightarrow> data_p m = None
      | _ \<Rightarrow> False)"

text \<open>The types alone: the texts in the result of a resolution need not be ended by a zero byte.\<close>

definition typed_any :: "BVMessage \<Rightarrow> bool" where
  "typed_any m \<longleftrightarrow>
     (if event_t m = BVEVENTTYPE_APP_DISCOVERY_SERVICE_RESOLVED then \<exists>r. data_p m = Some (Any_Resolution r) else typed m)"

lemma typed_typed_any: "typed m \<Longrightarrow> typed_any m"
  by (auto simp: typed_any_def typed_def)

text \<open>The messages sessions put into the mailbox of the application.\<close>

definition from_peer :: "BVMessage \<Rightarrow> bool" where
  "from_peer m \<longleftrightarrow> typed m \<and> event_t m \<in> {BVEVENTTYPE_APP_MESSAGE_INCOMING, BVEVENTTYPE_APP_FILE_OFFER,
     BVEVENTTYPE_APP_FILE_TRANSFER_BEGIN, BVEVENTTYPE_APP_FILE_TRANSFER_CHUNK_SENT, BVEVENTTYPE_APP_FILE_TRANSFER_END}"

text \<open>\<open>ys\<close> is \<open>xs\<close> with messages of that kind behind it.\<close>

definition grows :: "(BVMessage \<Rightarrow> bool) \<Rightarrow> BVMessage list \<Rightarrow> BVMessage list \<Rightarrow> bool" where
  "grows P xs ys \<longleftrightarrow> (\<exists>ms. ys = xs @ ms \<and> (\<forall>m \<in> set ms. P m))"

lemma grows_refl [simp]: "grows P xs xs"
  by (simp add: grows_def)

lemma grows_trans: "grows P xs ys \<Longrightarrow> grows P ys zs \<Longrightarrow> grows P xs zs"
  by (auto simp: grows_def)

lemma grows_snoc [simp]: "P m \<Longrightarrow> grows P xs (xs @ [m])"
  by (simp add: grows_def)

section \<open>What sessions send\<close>

lemma with_sess_mail: "with_sess r f h = Inr h' \<Longrightarrow> appMail h' = appMail h"
  by (auto simp: with_sess_def rbind_eq_Inr)

lemma PutMessage_mail [simp]: "appMail (PutMessageIntoAppMailbox m h) = appMail h @ [m]"
  by (simp add: PutMessageIntoAppMailbox_def)

lemma StartCommunication_mail: "StartCommunicationSessionWithNode h = Inr (st, nid, h') \<Longrightarrow> appMail h' = appMail h"
  by (auto simp: StartCommunicationSessionWithNode_def rbind_eq_Inr)

lemma AddNode_mail [simp]: "appMail (snd (AddNodeToNodesM name node h)) = appMail h"
  by (simp add: AddNodeToNodesM_def split: option.splits)

lemma new_session_mail: "new_session node h = (r, h') \<Longrightarrow> appMail h' = appMail h"
  by (auto simp: new_session_def)

lemma Initiate_mail: "InitiateSessionWithNode node h = Inr (st, h') \<Longrightarrow> appMail h' = appMail h"
  by (auto simp: InitiateSessionWithNode_def rbind_eq_Inr Let_def split: if_splits prod.splits
      dest!: StartCommunication_mail new_session_mail)

lemma Connect_mail: "ConnectHandler error ep k r h = Inr h' \<Longrightarrow> appMail h' = appMail h"
  by (auto simp: ConnectHandler_def rbind_eq_Inr Let_def split: if_splits dest!: StartCommunication_mail with_sess_mail)

lemma Accept_mail: "accept_handler now error k h = Inr h' \<Longrightarrow> appMail h' = appMail h"
  by (auto simp: accept_handler_def Accept_def new_session_def rbind_eq_Inr Let_def split: if_splits option.splits)

lemma RemoveSession_mail [simp]: "appMail (snd (RemoveSession name h)) = appMail h"
  by (simp add: RemoveSession_def release_def split: option.splits)

lemma Identification_mail: "HandleSessionIdentification now name r h = Inr h' \<Longrightarrow> appMail h' = appMail h"
  by (auto simp: HandleSessionIdentification_def rbind_eq_Inr Let_def split: if_splits dest!: StartCommunication_mail with_sess_mail)

lemma Signal_mail: "SignalFileTransfer fs key acc h = Inr h' \<Longrightarrow> appMail h' = appMail h"
  by (auto simp: SignalFileTransfer_def RemoveFileTransferContext_def Let_def split: option.splits if_splits prod.splits)

lemmas keeps_mail = with_sess_mail StartCommunication_mail Initiate_mail Connect_mail Accept_mail Identification_mail Signal_mail

lemma Hello_mail: "OnReceiveHelloFrame env r h = Inr h' \<Longrightarrow> appMail h' = appMail h"
  by (auto simp: OnReceiveHelloFrame_def rbind_eq_Inr Let_def split: if_splits)

lemma HelloBack_mail: "OnReceiveHelloBackFrame env r h = Inr h' \<Longrightarrow> appMail h' = appMail h"
  by (auto simp: OnReceiveHelloBackFrame_def rbind_eq_Inr split: if_splits option.splits dest: Identification_mail)

lemma Confirm_mail: "OnReceiveConfirmEstablished r h = Inr h' \<Longrightarrow> appMail h' = appMail h"
  by (auto simp: OnReceiveConfirmEstablished_def dest: with_sess_mail)

lemma finish_mail: "finish_frame r h = Inr h' \<Longrightarrow> appMail h' = appMail h"
  by (auto simp: finish_frame_def split: if_splits dest: with_sess_mail)

lemma file_mail_typed [simp]: "from_peer (file_mail e key cs fs d) \<longleftrightarrow>
    e \<in> {BVEVENTTYPE_APP_FILE_OFFER, BVEVENTTYPE_APP_FILE_TRANSFER_BEGIN, BVEVENTTYPE_APP_FILE_TRANSFER_CHUNK_SENT, BVEVENTTYPE_APP_FILE_TRANSFER_END}"
  by (cases e) (simp_all add: from_peer_def typed_def file_mail_def)

abbreviation mails_grow :: "host \<Rightarrow> host \<Rightarrow> bool" where
  "mails_grow h h' \<equiv> grows from_peer (appMail h) (appMail h')"

lemma Chat_mail: "OnReceiveChatMessageFrame r h = Inr h' \<Longrightarrow> mails_grow h h'"
  by (auto simp: OnReceiveChatMessageFrame_def rbind_eq_Inr Let_def from_peer_def typed_def split: if_splits option.splits dest!: with_sess_mail)

lemma Offer_mail: "OnReceiveFileOffer r h = Inr h' \<Longrightarrow> mails_grow h h'"
  by (auto simp: OnReceiveFileOffer_def rbind_eq_Inr)

lemma Begin_mail: "OnReceiveFileTransferBegin r h = Inr h' \<Longrightarrow> mails_grow h h'"
  by (auto simp: OnReceiveFileTransferBegin_def rbind_eq_Inr Let_def split: if_splits dest!: with_sess_mail)

lemma Chunk_mail: "OnReceiveFileChunkSent r h = Inr h' \<Longrightarrow> mails_grow h h'"
  by (auto simp: OnReceiveFileChunkSent_def rbind_eq_Inr Let_def split: if_splits)

lemma End_mail: "OnReceiveFileTransferEnd r h = Inr h' \<Longrightarrow> mails_grow h h'"
  by (auto simp: OnReceiveFileTransferEnd_def rbind_eq_Inr Let_def split: if_splits)

lemma Standard_mail:
  assumes "OnReceiveStandardFrame env r h = Inr (early, h')"
  shows "mails_grow h h'"
proof -
  obtain header h1 fh where hd: "GetMsgHeader (readBuf (sess h r)) = Inr header" "GetFileHeader (readBuf (sess h1 r)) = Inr fh"
      and h1: "(if mh_msgType header = REG_CHATMESSAGE then OnReceiveChatMessageFrame r h else Inr h) = Inr h1"
      and rest: "(if fh_msgType fh = REG_FILE_TRANSFER_BEGIN then rbind (OnReceiveFileTransferBegin r h1) (\<lambda>h. Inr (True, h))
        else if fh_msgType fh = REG_FILE_OFFER then
          rbind (OnReceiveFileOffer r h1) (\<lambda>h. rbind (with_sess r StartReadingFrames h) (\<lambda>h. Inr (True, h)))
        else if fh_msgType fh = REG_FILE_ACCEPT then
          rbind (SignalFileTransfer (e_fs env) (fh_correlationKey fh) True h1) (\<lambda>h. rbind (with_sess r StartReadingFrames h) (\<lambda>h. Inr (True, h)))
        else if fh_msgType fh = REG_FILE_REJECT then
          rbind (SignalFileTransfer (e_fs env) (fh_correlationKey fh) False h1) (\<lambda>h. rbind (with_sess r StartReadingFrames h) (\<lambda>h. Inr (True, h)))
        else Inr (False, h1)) = Inr (early, h')"
    using assms unfolding OnReceiveStandardFrame_def rbind_eq_Inr by blast
  have "mails_grow h h1" using h1 by (auto split: if_splits dest: Chat_mail)
  moreover have "mails_grow h1 h'"
    using rest by (auto simp: rbind_eq_Inr split: if_splits dest!: with_sess_mail Signal_mail dest: Begin_mail Offer_mail)
  ultimately show ?thesis by (rule grows_trans)
qed

lemma frame_callback_mail:
  assumes "ReadMessageFrameCallback env ec n r h = Inr h'"
  shows "mails_grow h h'"
proof -
  let ?h = "set_sess r ((sess h r)\<lparr>totalBytesRead := 0\<rparr>) h"
  have hs: "appMail h' = appMail ?h"
    if hs: "rbind (if mh_msgType header = CTRL_HELLO then OnReceiveHelloFrame env r ?h else Inr ?h) (\<lambda>h.
          rbind (if mh_msgType header = CTRL_HELLOBACK then OnReceiveHelloBackFrame env r h else Inr h) (\<lambda>h.
          rbind (if mh_msgType header = CTRL_CONFIRM_ESTABLISHED then OnReceiveConfirmEstablished r h else Inr h)
            (finish_frame r))) = Inr h'" for header :: BVTCPMessageHeader
  proof -
    obtain h1 h2 h3 where h: "(if mh_msgType header = CTRL_HELLO then OnReceiveHelloFrame env r ?h else Inr ?h) = Inr h1"
        "(if mh_msgType header = CTRL_HELLOBACK then OnReceiveHelloBackFrame env r h1 else Inr h1) = Inr h2"
        "(if mh_msgType header = CTRL_CONFIRM_ESTABLISHED then OnReceiveConfirmEstablished r h2 else Inr h2) = Inr h3"
        "finish_frame r h3 = Inr h'"
      using hs unfolding rbind_eq_Inr by blast
    have "appMail h1 = appMail ?h" using h(1) by (auto split: if_splits dest: Hello_mail)
    moreover have "appMail h2 = appMail h1" using h(2) by (auto split: if_splits dest: HelloBack_mail)
    moreover have "appMail h3 = appMail h2" using h(3) by (auto split: if_splits dest: Confirm_mail)
    ultimately show ?thesis using finish_mail [OF h(4)] by simp
  qed
  have st: "mails_grow ?h h'" if "rbind (OnReceiveStandardFrame env r ?h) (\<lambda>(early, h). if early then Inr h else finish_frame r h) = Inr h'"
    using that by (auto simp: rbind_eq_Inr split: if_splits dest!: finish_mail dest: Standard_mail)
  show ?thesis
  proof (cases "ec \<or> totalBytesRead (sess h r) + n \<noteq> MESSAGE_FRAME_SIZE_BYTES")
    case True
    with assms show ?thesis by (auto simp: ReadMessageFrameCallback_def Let_def split: if_splits dest!: with_sess_mail)
  next
    case False
    then obtain header where header: "GetMsgHeader (readBuf (sess h r)) = Inr header"
      using assms by (auto simp: ReadMessageFrameCallback_def Let_def rbind_eq_Inr)
    show ?thesis
    proof (cases "sstate (sess h r) = BVSESSIONSTATE_UNPREPARED")
      case True
      have "appMail h' = appMail ?h" by (rule hs [of header]) (use False True header assms in \<open>simp add: ReadMessageFrameCallback_def Let_def\<close>)
      then show ?thesis by simp
    next
      case unprepared: False
      have "mails_grow ?h h'" by (rule st) (use False unprepared header assms in \<open>simp add: ReadMessageFrameCallback_def Let_def\<close>)
      then show ?thesis by simp
    qed
  qed
qed

lemma chunk_callback_mail: "ReadFileChunkCallback ec n r h = Inr h' \<Longrightarrow> mails_grow h h'"
  by (auto simp: ReadFileChunkCallback_def rbind_eq_Inr Let_def split: if_splits dest!: with_sess_mail dest: Chunk_mail End_mail)

lemma read_step_mail:
  assumes "io_read_step env r h = Inr h'"
  shows "mails_grow h h'"
proof -
  obtain s where s: "fill_read (sess h r) = Inr s" using assms by (auto simp: io_read_step_def rbind_eq_Inr)
  show ?thesis
  proof (cases "reads (sk s)")
    case Nil
    then show ?thesis using assms s by (auto simp: io_read_step_def)
  next
    case (Cons q qs)
    let ?h = "set_sess r (s\<lparr>sk := (sk s)\<lparr>reads := qs\<rparr>\<rparr>) h"
    have "mails_grow ?h h'" if "rr_filled q"
      using assms s Cons that by (cases "rr_target q") (auto simp: io_read_step_def dest!: frame_callback_mail chunk_callback_mail)
    then show ?thesis using assms s Cons by (cases "rr_filled q") (auto simp: io_read_step_def)
  qed
qed

lemma write_step_mail [simp]: "appMail (io_write_step r h) = appMail h"
  by (simp add: io_write_step_def split: list.splits)
section \<open>What the application sends\<close>

text \<open>
  A step of the application adds well-typed messages to those it has sent, puts nothing into its own mailbox, and stops
  running only with a termination message sent and the event loop stopped.
\<close>

definition talks :: "app \<Rightarrow> app \<Rightarrow> bool" where
  "talks a a' \<longleftrightarrow>
     (\<exists>ms. outMail a' = outMail a @ ms \<and> (\<forall>m \<in> set ms. typed m) \<and>
        (isRunning a' = isRunning a \<or> \<not> isRunning a' \<and> ioStopped a' \<and> mail BVEVENTTYPE_TERMINATE_ALL \<in> set ms)) \<and>
     appMail (mgr a') = appMail (mgr a) \<and> (ioStopped a \<longrightarrow> ioStopped a')"

lemma mail_typed [simp]: "typed (mail e) \<longleftrightarrow>
    e \<in> {BVEVENTTYPE_TERMINATE_ALL, BVEVENTTYPE_DISCOVERY_REQUEST_PAUSE, BVEVENTTYPE_DISCOVERY_REQUEST_RESUME}"
  by (cases e) (simp_all add: typed_def mail_def)

lemma talksI:
  "outMail a' = outMail a \<Longrightarrow> isRunning a' = isRunning a \<Longrightarrow> appMail (mgr a') = appMail (mgr a) \<Longrightarrow> ioStopped a' = ioStopped a \<Longrightarrow> talks a a'"
  by (simp add: talks_def)

lemma talks_silent: "same_but_stdout b c \<Longrightarrow> talks a b \<Longrightarrow> talks a c"
  by (auto simp: talks_def dest!: same_but_stdout_fields)

lemma stopped_silent [simp]: "ioStopped (PrintAll a) = ioStopped a" "mgr (RenderFileOffer a) = mgr a"
  using same_but_stdout_fields [OF same_but_stdout_PrintAll, of a] same_but_stdout_fields [OF RenderFileOffer_same, of a] by simp_all

lemma talks_emit [simp]: "talks a (emit d b) = talks a b"
  by (auto simp: talks_def)

lemma talks_refl [simp]: "talks a a"
  by (simp add: talksI)

lemma send_each_mail: "send_each m rs h = Inr h' \<Longrightarrow> appMail h' = appMail h"
  by (induction rs arbitrary: h) (auto simp: rbind_eq_Inr dest!: with_sess_mail)

lemma SendData_mail: "SendDataToNode m sid h = Inr (st, h') \<Longrightarrow> appMail h' = appMail h"
  by (auto simp: SendDataToNode_def rbind_eq_Inr split: option.splits dest!: with_sess_mail)

lemma InitiateFile_mail: "InitiateFileTransferWithSession now fs sid path h = Inr (st, h') \<Longrightarrow> appMail h' = appMail h"
  by (auto simp: InitiateFileTransferWithSession_def Let_def split: option.splits)

lemma Respond_mail [simp]: "appMail (RespondToFileOffer now name key yes h) = appMail h"
  by (simp add: RespondToFileOffer_def split: option.splits)

lemma log_message_talk [simp]:
  "outMail (log_message n m a) = outMail a" "ioStopped (log_message n m a) = ioStopped a"
  by (simp_all add: log_message_def split: option.splits)

lemma SendChatLine_talks: "SendChatLine env name line a = Inr a' \<Longrightarrow> talks a a'"
  by (auto simp: SendChatLine_def rbind_eq_Inr Let_def intro!: talksI split: option.splits if_splits
      dest!: SendData_mail InitiateFile_mail)

lemma Render_talks: "Render env b = Inr a' \<Longrightarrow> talks a b \<Longrightarrow> talks a a'"
  by (rule talks_silent [OF Render_same])

lemma RenderChat_talks: "RenderChat env b = Inr a' \<Longrightarrow> talks a b \<Longrightarrow> talks a a'"
  by (rule talks_silent [OF RenderChat_same])

lemma menu_talks: "HandleMainMenuKey env c a = Inr a' \<Longrightarrow> talks a a'"
  by (auto simp: HandleMainMenuKey_def EnterChat_def Let_def app_SendMessage_def StopIOContext_def talks_def
      split: option.splits prod.splits BVConsoleActionType.splits if_splits
      dest!: Render_same RenderChat_same same_but_stdout_fields)

lemma talks_chat_line:
  assumes "rbind (SendChatLine env name line b) (RenderChat env) = Inr a'" "isRunning b = isRunning a" "outMail b = outMail a"
    "mgr b = mgr a" "ioStopped b = ioStopped a"
  shows "talks a a'"
proof -
  obtain c where c: "SendChatLine env name line b = Inr c" "RenderChat env c = Inr a'" using assms(1) by (auto simp: rbind_eq_Inr)
  have "talks a c" using SendChatLine_talks [OF c(1)] assms(2-) by (auto simp: talks_def)
  then show ?thesis by (rule RenderChat_talks [OF c(2)])
qed

lemma chat_talks: "HandleChatKey env c a = Inr a' \<Longrightarrow> talks a a'"
  by (auto simp: HandleChatKey_def Let_def split: if_splits
      intro: talksI elim!: Render_talks RenderChat_talks talks_chat_line)

lemma offer_talks: "HandleFileOfferKey env c a = Inr a' \<Longrightarrow> talks a a'"
  by (auto simp: HandleFileOfferKey_def Let_def split: option.splits if_splits intro: talksI elim!: Render_talks)

lemma key_talks: "stdin_handler env ec n c a = Inr a' \<Longrightarrow> talks a a'"
proof -
  assume k: "stdin_handler env ec n c a = Inr a'"
  show ?thesis
  proof (cases "ec \<or> n \<noteq> 1")
    case True
    with k show ?thesis by (auto simp: stdin_handler_def Let_def intro: talksI split: if_splits)
  next
    case False
    with k obtain b where b: "OnKey env c (a\<lparr>stdinArmed := False\<rparr>) = Inr b" "a' = (if isRunning b then StartStdinRead b else b)"
      by (auto simp: stdin_handler_def Let_def rbind_eq_Inr)
    have "talks (a\<lparr>stdinArmed := False\<rparr>) b"
      using b(1) by (cases "uiState a") (auto simp: OnKey_def menu_talks chat_talks offer_talks)
    with b(2) show ?thesis by (auto simp: talks_def StartStdinRead_def)
  qed
qed

lemma post_talks: "io_post_step env a = Inr a' \<Longrightarrow> talks a a'"
proof -
  assume p: "io_post_step env a = Inr a'"
  show ?thesis
  proof (cases "posted a")
    case Nil
    with p show ?thesis by (simp add: io_post_step_def)
  next
    case (Cons q qs)
    with p show ?thesis
      by (cases q) (auto simp: io_post_step_def post_message_def post_offer_def split: if_splits
          intro: talksI talks_silent [OF RenderFileOffer_same] elim!: Render_talks RenderChat_talks)
  qed
qed

lemma publish_resolves: "publish own es sv tr = (sv', tr') \<Longrightarrow> set tr' \<subseteq> set tr \<union> set es"
  by (induction own es sv tr rule: publish.induct) (auto split: if_splits)

lemma published_talks:
  assumes "HandlePublishedServices dp a = Inr (st, a')" "\<And>l. dp = Some (Any_BrowseList l) \<Longrightarrow> \<forall>bI \<in> set l. fits bI"
  shows "talks a a'"
proof (cases "\<exists>l. dp = Some (Any_BrowseList l)")
  case True
  then obtain l where l: "dp = Some (Any_BrowseList l)" by blast
  obtain sv tr where p: "publish (sd_hostname (thisMachineServiceData a)) l (serviceV a) [] = (sv, tr)" by fastforce
  have "\<forall>bI \<in> set tr. fits bI" using publish_resolves [OF p] assms(2) [OF l] by auto
  with assms(1) p l show ?thesis
    by (auto simp: HandlePublishedServices_def fold_app_SendMessage talks_def typed_def resolve_request_def)
next
  case False
  with assms(1) show ?thesis by (auto simp: HandlePublishedServices_def split: option.splits any.splits)
qed

lemma deregister_talk: "outMail (deregister e a) = outMail a" "isRunning (deregister e a) = isRunning a"
    "ioStopped (deregister e a) = ioStopped a" "appMail (mgr (deregister e a)) = appMail (mgr a)"
  by (simp_all add: deregister_def Let_def)

lemma deregister_talks: "talks a (fold deregister l a)"
proof (induction l rule: rev_induct)
  case (snoc e l)
  then show ?case by (simp add: talks_def deregister_talk)
qed simp

lemma deregistered_talks: "HandleServiceDeregistration dp a = Inr (st, a') \<Longrightarrow> talks a a'"
  by (auto simp: HandleServiceDeregistration_def split: option.splits any.splits
      intro: talks_silent [OF same_but_stdout_PrintAll deregister_talks])

lemma shutdown_talks: "OnShutdown dp a = Inr (st, a') \<Longrightarrow> talks a a'"
  by (auto simp: OnShutdown_def StopIOContext_def talks_def)

lemma resolved_talks: "HandleResolvedServices env dp a = Inr (st, a') \<Longrightarrow> talks a a'"
  by (auto intro!: talksI dest!: resolved_cases Initiate_mail)

lemma incoming_talks: "HandleMessageIncoming dp a = Inr (st, a') \<Longrightarrow> talks a a'"
  by (auto simp: HandleMessageIncoming_def Let_def split: option.splits any.splits intro!: talksI)

lemma file_offer_talks: "HandleFileOffer dp a = Inr (st, a') \<Longrightarrow> talks a a'"
  by (auto simp: HandleFileOffer_def Let_def split: option.splits any.splits intro!: talksI)

lemma begin_talks: "HandleFileTransferBegin env dp a = Inr (st, a') \<Longrightarrow> talks a a'"
  by (auto simp: HandleFileTransferBegin_def Let_def split: option.splits any.splits prod.splits if_splits intro!: talksI)

lemma chunk_talks: "HandleFileChunkSent env dp a = Inr (st, a') \<Longrightarrow> talks a a'"
  by (auto intro!: talksI dest!: chunk_cases)

lemma end_talks: "HandleFileTransferEnd env dp a = Inr (st, a') \<Longrightarrow> talks a a'"
  by (auto simp: HandleFileTransferEnd_def Let_def split: option.splits any.splits prod.splits if_splits intro!: talksI)

lemmas handler_talks = deregistered_talks shutdown_talks resolved_talks incoming_talks file_offer_talks begin_talks chunk_talks end_talks

lemma message_talks:
  assumes "console_handlers env (event_t m) = Some f" "f (data_p m) a = Inr (st, a')" "typed_any m"
  shows "talks a a'"
proof (cases "event_t m = BVEVENTTYPE_APP_PUBLISHED_SERVICE")
  case True
  with assms have "HandlePublishedServices (data_p m) a = Inr (st, a')" by (simp add: console_handlers_def console_callbacks_def)
  then show ?thesis by (rule published_talks) (use True assms(3) in \<open>simp add: typed_any_def typed_def\<close>)
next
  case False
  with assms(1,2) show ?thesis
    by (auto simp: console_handlers_def console_callbacks_def split: if_splits dest: handler_talks)
qed

text \<open>A handler of the application sends nothing but requests to resolve.\<close>

lemma message_asks:
  assumes "console_handlers env e = Some f" "f dp a = Inr (st, a')"
  shows "grows (\<lambda>m. event_t m = BVEVENTTYPE_DISCOVERY_REQUEST_RESOLVE) (outMail a) (outMail a')"
proof -
  consider "HandlePublishedServices dp a = Inr (st, a')" | "HandleServiceDeregistration dp a = Inr (st, a')"
    | "outMail a' = outMail a"
    using assms
    by (auto simp: console_handlers_def console_callbacks_def OnShutdown_def StopIOContext_def HandleMessageIncoming_def HandleFileOffer_def
        HandleFileTransferBegin_def HandleFileTransferEnd_def Let_def split: if_splits option.splits any.splits prod.splits
        dest!: resolved_cases chunk_cases)
  then show ?thesis
  proof cases
    case 1
    then show ?thesis
      by (auto simp: HandlePublishedServices_def fold_app_SendMessage grows_def resolve_request_def split: option.splits any.splits prod.splits)
  next
    case 2
    have "outMail (fold deregister l b) = outMail b" for l b by (induction l arbitrary: b) (simp_all add: deregister_talk)
    with 2 show ?thesis by (auto simp: HandleServiceDeregistration_def split: option.splits any.splits)
  qed simp
qed

text \<open>Messages of the right type that the application does not refuse.\<close>

definition app_robust :: "BVEventType set" where
  "app_robust = {BVEVENTTYPE_APP_PUBLISHED_SERVICE, BVEVENTTYPE_TERMINATE_ALL, BVEVENTTYPE_APP_DEREGISTERED_SERVICE,
     BVEVENTTYPE_APP_MESSAGE_INCOMING, BVEVENTTYPE_APP_FILE_OFFER}"

lemma robust_message_handled:
  assumes "typed_any m" "event_t m \<in> app_robust" "console_handlers env (event_t m) = Some f"
  shows "\<exists>a'. f (data_p m) a = Inr (BVSTATUS_OK, a')"
  using assms
  by (auto simp: app_robust_def typed_any_def typed_def console_handlers_def console_callbacks_def HandlePublishedServices_def OnShutdown_def
      HandleServiceDeregistration_def HandleMessageIncoming_def HandleFileOffer_def Let_def split: prod.splits)
section \<open>What discovery sends\<close>

text \<open>
  The answers of the daemon to a request to resolve: what lies behind the copied strings, the error, the descriptor and
  whether it could not be assigned.
\<close>

record disc_env =
  de_garbage :: "nat \<Rightarrow> byte"
  de_error :: int
  de_fd :: int
  de_ec :: bool

text \<open>The handlers the constructor of \<open>BVDiscovery_Bonjour\<close> registers.\<close>

definition discovery_callbacks :: "disc_env \<Rightarrow> (BVEventType \<times> (any option \<Rightarrow> discovery \<Rightarrow> (BVStatus \<times> discovery) result)) list" where
  "discovery_callbacks env =
     [(BVEVENTTYPE_DISCOVERY_REQUEST_START, \<lambda>dp d. Inr (BVSTATUS_OK, d)),
      (BVEVENTTYPE_DISCOVERY_REQUEST_PAUSE, \<lambda>dp d. Inr (OnPause d)),
      (BVEVENTTYPE_DISCOVERY_REQUEST_RESUME, \<lambda>dp d. Inr (OnResume d)),
      (BVEVENTTYPE_TERMINATE_ALL, \<lambda>dp d. disc_OnShutdown d),
      (BVEVENTTYPE_DISCOVERY_REQUEST_SHUTDOWN, \<lambda>dp d. disc_OnShutdown d),
      (BVEVENTTYPE_DISCOVERY_REQUEST_RESTART, \<lambda>dp d. Inr (BVSTATUS_OK, d)),
      (BVEVENTTYPE_DISCOVERY_REQUEST_RESOLVE,
         \<lambda>dp d. Inr (OnResolveRequest (de_garbage env) (de_error env) (de_fd env) (de_ec env) dp d))]"

definition discovery_handlers :: "disc_env \<Rightarrow> discovery handlers" where
  "discovery_handlers env e = map_of (discovery_callbacks env) e"

text \<open>The daemon takes the request.\<close>

definition takes :: "disc_env \<Rightarrow> bool" where
  "takes env \<longleftrightarrow> de_error env = 0 \<and> 0 \<le> de_fd env \<and> \<not> de_ec env"

text \<open>What the event loop runs for discovery.\<close>

inductive disc_io :: "discovery \<Rightarrow> discovery result \<Rightarrow> bool" where
  timer: "disc_io d (Inr (pause_timer_handler d))"
| browsed: "\<forall>r \<in> set rs. c_strings r \<Longrightarrow> browse_wait_handler e error rs d = Some res \<Longrightarrow> disc_io d res"
| resolved: "disc_io d (resolve_wait_handler i e error rrs d)"

lemma disc_io_step: "disc_io d res \<Longrightarrow> res = Inr d' \<Longrightarrow> disc_step d d'"
  by (induction rule: disc_io.induct) (auto intro: disc_step.intros)

text \<open>No handler of discovery faults in the event loop.\<close>

lemma disc_io_returns:
  assumes "disc_io d res" and inv: "disc_inv d"
  shows "\<exists>d'. res = Inr d'"
  using assms(1)
proof cases
  case (browsed rs e error)
  then show ?thesis using browse_handler_returns [OF inv browsed(1), of e error] by auto
next
  case (resolved i e error rrs)
  then show ?thesis using resolve_handler_returns [OF inv, of i e error rrs] by auto
qed simp

lemma Await_stopped [simp]: "d_stopped (AwaitFDForProcessingBrowseResult d) = d_stopped d"
  by (simp add: AwaitFDForProcessingBrowseResult_def)

lemma ResolveService_sends [simp]:
  "d_out (snd (ResolveService g error fd ec bI d)) = d_out d" "d_stopped (snd (ResolveService g error fd ec bI d)) = d_stopped d"
  by (simp_all add: ResolveService_def CreateResolveContext_def Let_def)

lemma disc_message:
  assumes "discovery_handlers env (event_t m) = Some f" "f (data_p m) d = Inr (st, d')" "typed_any m" "disc_inv d"
  shows "disc_inv d'" "d_out d' = d_out d" "d_stopped d \<Longrightarrow> d_stopped d'"
proof -
  have d': "d' = d \<or> d' = snd (OnPause d) \<or> d' = snd (OnResume d) \<or> disc_OnShutdown d = Inr (st, d') \<or>
      (\<exists>bI. fits bI \<and> d' = snd (OnResolveRequest (de_garbage env) (de_error env) (de_fd env) (de_ec env) (Some (Any_Browse bI)) d))"
    using assms(1-3) by (auto simp: discovery_handlers_def discovery_callbacks_def typed_any_def typed_def split: if_splits)
  then show "disc_inv d'" using assms(4) by (auto intro: disc_step_inv disc_step.intros)
  show "d_out d' = d_out d" "d_stopped d \<Longrightarrow> d_stopped d'"
    using d' by (auto simp: OnPause_def OnResume_def disc_OnShutdown_def OnResolveRequest_def Let_def split: if_splits)
qed

lemma disc_message_handled:
  assumes "typed_any m" "discovery_handlers env (event_t m) = Some f" "event_t m = BVEVENTTYPE_DISCOVERY_REQUEST_RESOLVE \<longrightarrow> takes env"
    "event_t m \<in> {BVEVENTTYPE_TERMINATE_ALL, BVEVENTTYPE_DISCOVERY_REQUEST_SHUTDOWN} \<longrightarrow> d_fd_open d"
  shows "\<exists>d'. f (data_p m) d = Inr (BVSTATUS_OK, d')"
  using assms
  by (auto simp: discovery_handlers_def discovery_callbacks_def typed_any_def typed_def takes_def OnPause_def OnResume_def disc_OnShutdown_def
      OnResolveRequest_def ResolveService_def CreateResolveContext_def Let_def split: if_splits)

lemma resolution_terminated:
  assumes "C_ResolveReply r ctx = Inr (Some res)"
  shows "0 \<in> set (dr_hosttarget res)" "0 \<in> set (dr_serviceName res)"
proof -
  have "0 \<in> set (copy_field mx s)" if "0 < mx" for mx s
    using that by (auto simp: copy_field_def Let_def zeros_def)
  then show "0 \<in> set (dr_hosttarget res)" "0 \<in> set (dr_serviceName res)"
    using assms by (auto simp: C_ResolveReply_def rbind_eq_Inr Let_def MAX_DNS_RESOLUTION_FIELD_SIZE_def N_BYTES_SERVNAME_MAX_def zeros_def
        split: if_splits option.splits)
qed

lemma resolve_replies_sends: "resolve_replies rs ctx d = Inr d' \<Longrightarrow> grows typed (d_out d) (d_out d') \<and> d_stopped d' = d_stopped d"
proof (induction rs arbitrary: d)
  case (Cons r rs)
  obtain res where res: "C_ResolveReply r ctx = Inr res" using Cons.prems by (auto simp: rbind_eq_Inr)
  let ?m = "\<lambda>x. \<lparr>event_t = BVEVENTTYPE_APP_DISCOVERY_SERVICE_RESOLVED, data_p = Some (Any_Resolution x)\<rparr>"
  show ?case
  proof (cases res)
    case None
    then show ?thesis using Cons res by simp
  next
    case (Some x)
    have "typed (?m x)" using resolution_terminated [of r ctx x] res Some by (simp add: typed_def)
    then have "grows typed (d_out d) (d_out (disc_SendMessage (?m x) d))" by (simp add: disc_SendMessage_def)
    with Cons.IH [of "disc_SendMessage (?m x) d"] Cons.prems res Some show ?thesis
      by (auto intro: grows_trans simp: disc_SendMessage_def)
  qed
qed simp

lemma browse_event_typed: "\<forall>bI \<in> set l. fits bI \<Longrightarrow> \<forall>m \<in> set (browse_event f l). typed m"
  by (auto simp: browse_event_def typed_def)

lemma browse_sends:
  assumes "browse_wait_handler e error rs d = Some (Inr d')" "\<forall>r \<in> set rs. c_strings r" "disc_inv d"
  shows "grows typed (d_out d) (d_out d') \<and> d_stopped d' = d_stopped d"
proof -
  obtain l where l: "ll_holds (c_ll_p d) (d_mem d) l" "\<forall>bI \<in> set l. fits bI" using assms(3) by (auto simp: disc_inv_def)
  obtain ll m where b: "browse_replies rs (c_ll_p d, d_mem d) = Some (Inr (ll, m))" "ll_holds ll m (l @ good rs)"
    using replies_added [OF l(1) assms(2)] by blast
  obtain ll' m' where c: "ReturnListFromBrowseResults ll m = Some (Inr (l @ good rs))" "LinkedList_str_ClearList ll m = Some (Inr (ll', m'))"
    by (rule results.read_and_clear [OF b(2)])
  have "\<forall>bI \<in> set (l @ good rs). fits bI" using l(2) browse_instance_fits by auto
  then have "grows typed (d_out d) (d_out d @ browse_event (didRegister ll) (l @ good rs))"
    using browse_event_typed unfolding grows_def by blast
  with assms(1) b(1) c show ?thesis
    by (auto simp: browse_wait_handler_def ProcessDNSServiceBrowseResult_def Let_def split: if_splits wait_code.splits)
qed

lemma disc_io_sends:
  assumes io: "disc_io d (Inr d')" and inv: "disc_inv d"
  shows "disc_inv d'" "grows typed (d_out d) (d_out d')" "d_stopped d' = d_stopped d"
proof -
  show "disc_inv d'" using disc_io_step [OF io refl] inv disc_step_inv by blast
  have "grows typed (d_out d) (d_out d') \<and> d_stopped d' = d_stopped d"
    using io
  proof cases
    case timer
    then show ?thesis by (simp add: pause_timer_handler_def OnResume_def)
  next
    case (browsed rs e error)
    show ?thesis by (rule browse_sends [OF browsed(2,1) inv])
  next
    case (resolved i e error rrs)
    from resolved [symmetric] show ?thesis
      by (auto simp: resolve_wait_handler_def rbind_eq_Inr Let_def split: list.splits if_splits dest!: resolve_replies_sends)
  qed
  then show "grows typed (d_out d) (d_out d')" "d_stopped d' = d_stopped d" by simp_all
qed

end
