(* ===== verification/Startup.thy ===== *)
theory Startup
  imports Message_Broker
begin

text \<open>
  What \<open>src/main.cpp\<close> does with the broker: attaching the two components, subscribing them to their events
  (\<open>exit (-1)\<close> if one of it fails) and detaching them at the end. What the threads do in between is
  in \<open>Message_Broker\<close>.
\<close>

section \<open>Definitions\<close>

text \<open>A broker with its queue, and nothing else.\<close>

definition new_bus :: bus where
  "new_bus = \<lparr>brok = BVBroker_ctor 0, queues = (\<lambda>_. tsq_new), nextq = 1,
     msgs = (\<lambda>_. \<lparr>event_t = BVEVENTTYPE_TERMINATE_ALL, data_p = None\<rparr>), nextm = 0\<rparr>"

definition discovery_events :: "BVEventType list" where
  "discovery_events =
     [BVEVENTTYPE_DISCOVERY_REQUEST_START, BVEVENTTYPE_DISCOVERY_REQUEST_PAUSE, BVEVENTTYPE_DISCOVERY_REQUEST_RESUME,
      BVEVENTTYPE_TERMINATE_ALL, BVEVENTTYPE_DISCOVERY_REQUEST_SHUTDOWN, BVEVENTTYPE_DISCOVERY_REQUEST_RESTART,
      BVEVENTTYPE_DISCOVERY_REQUEST_RESOLVE]"

definition app_events :: "BVEventType list" where
  "app_events =
     [BVEVENTTYPE_APP_PUBLISHED_SERVICE, BVEVENTTYPE_APP_DISCOVERY_SERVICE_RESOLVED, BVEVENTTYPE_TERMINATE_ALL,
      BVEVENTTYPE_APP_DEREGISTERED_SERVICE, BVEVENTTYPE_APP_MESSAGE_INCOMING, BVEVENTTYPE_APP_FILE_TRANSFER_BEGIN,
      BVEVENTTYPE_APP_FILE_TRANSFER_CHUNK_SENT, BVEVENTTYPE_APP_FILE_TRANSFER_END]"

fun subscribe_each :: "u8 \<Rightarrow> BVEventType list \<Rightarrow> broker \<Rightarrow> BVStatus list \<times> broker" where
  "subscribe_each sid [] b = ([], b)"
| "subscribe_each sid (e # es) b =
     (case Subscribe sid e b of
        (st, b) \<Rightarrow> (case subscribe_each sid es b of (sts, b) \<Rightarrow> (st # sts, b)))"

text \<open>The part of \<open>main\<close> that attaches and subscribes the components; \<open>None\<close> is \<open>exit (-1)\<close>.\<close>

definition setup_broker :: "component \<Rightarrow> component \<Rightarrow> bus \<Rightarrow> (component \<times> component \<times> bus) option" where
  "setup_broker discovery app w =
     (case Attach discovery w of
        (attachStatusDiscovery, discovery, w) \<Rightarrow>
          (case Attach app w of
             (attachStatusApp, app, w) \<Rightarrow>
               (if attachStatusDiscovery \<noteq> BVSTATUS_OK \<or> attachStatusApp \<noteq> BVSTATUS_OK then None
                else
                  (case subscribe_each (comp_id discovery) discovery_events (brok w) of
                     (ds, b) \<Rightarrow>
                       (case subscribe_each (comp_id app) app_events b of
                          (as, b) \<Rightarrow>
                            (if list_all (\<lambda>st. st = BVSTATUS_OK) (ds @ as)
                             then Some (discovery, app, w\<lparr>brok := b\<rparr>) else None))))))"

text \<open>The end of \<open>main\<close>.\<close>

definition teardown_broker :: "component \<Rightarrow> component \<Rightarrow> bus \<Rightarrow> bus option" where
  "teardown_broker discovery app w =
     (case Detach (comp_id discovery) (brok w) of
        (ds, b) \<Rightarrow>
          (case Detach (comp_id app) b of
             (as, b) \<Rightarrow> (if ds \<noteq> BVSTATUS_OK \<or> as \<noteq> BVSTATUS_OK then None else Some (w\<lparr>brok := b\<rparr>))))"

section \<open>Lemmas\<close>

lemma subscribe_each_attached:
  "slot b sid \<noteq> None \<Longrightarrow> subscribe_each sid es b = (replicate (length es) BVSTATUS_OK, fold (add_sub sid) es b)"
  by (induction es arbitrary: b) (auto simp: Subscribe_def)

lemma slot_fold_add_sub [simp]: "slot (fold (add_sub sid) es b) = slot b"
  by (induction es arbitrary: b) simp_all

lemma fold_add_sub_fields [simp]:
  "b_inMailBox (fold (add_sub sid) es b) = b_inMailBox b" "b_isRunning (fold (add_sub sid) es b) = b_isRunning b"
  by (induction es arbitrary: b) (simp_all add: add_sub_def Let_def)

lemma map_of_const: "map_of (map (\<lambda>i. (f i, c)) ks) x = Some v \<Longrightarrow> v = c"
  by (induction ks) (auto split: if_splits)

lemma new_bus_slot [simp]: "slot (brok new_bus) x = None"
  by (auto simp: slot_def new_bus_def BVBroker_ctor_def dest: map_of_const split: option.splits)

lemma ids_sorted: "sorted_wrt (<) (map (word_of_nat :: nat \<Rightarrow> u8) [0..<255])"
proof -
  have "sorted_wrt (<) [0..<255::nat]" by (rule sorted_wrt_upt)
  then show ?thesis
    unfolding sorted_wrt_map
    by (rule sorted_wrt_mono_rel [rotated]) (simp add: word_less_nat_alt unat_of_nat take_bit_nat_eq_self)
qed

lemma new_bus_inv: "bus_inv new_bus"
proof -
  have "omap_inv (mailbox_m (BVBroker_ctor 0))"
    using ids_sorted by (simp add: omap_inv_def BVBroker_ctor_def comp_def)
  moreover have "attached (BVBroker_ctor 0) = {}" using new_bus_slot by (simp add: attached_def new_bus_def)
  ultimately have "broker_inv (brok new_bus)" by (auto simp: broker_inv_def new_bus_def BVBroker_ctor_def omap_inv_def)
  then show ?thesis by (simp add: bus_inv_def) (simp add: new_bus_def tsq_inv_new BVBroker_ctor_def)
qed

lemma bus_inv_add_subs:
  assumes "bus_inv w" "sid \<in> attached (brok w)"
  shows "bus_inv (w\<lparr>brok := fold (add_sub sid) es (brok w)\<rparr>)"
  using assms Subscribe_all_inv [of "brok w" sid es] by (simp add: bus_inv_def)

text \<open>A component \<open>c\<close> that has become \<open>c'\<close>: it sends into the broker's queue and reads a mailbox of its own, which is empty.\<close>

definition connected_to :: "component \<Rightarrow> component \<Rightarrow> bus \<Rightarrow> bool" where
  "connected_to c c' w \<longleftrightarrow>
     comp_out c' = b_inMailBox (brok w) \<and> slot (brok w) (comp_id c') = Some (comp_in c') \<and>
     comp_listening c' = comp_listening c \<and> mailbox w (comp_id c') = []"

text \<open>What \<open>main\<close> leaves of any broker that has two ids free.\<close>

lemma setup_broker_wires:
  assumes inv: "bus_inv w" and free: "\<And>x. slot (brok w) x = None" and nosubs: "subs_m (brok w) = []"
  shows "\<exists>dc ac w'. setup_broker d a w = Some (dc, ac, w') \<and> bus_inv w' \<and> comp_id dc \<noteq> comp_id ac \<and>
    attached (brok w') = {comp_id dc, comp_id ac} \<and> b_isRunning (brok w') = b_isRunning (brok w) \<and>
    (\<forall>e. set (subscribers (brok w') e) =
      (if e \<in> set discovery_events then {comp_id dc} else {}) \<union> (if e \<in> set app_events then {comp_id ac} else {})) \<and>
    connected_to d dc w' \<and> connected_to a ac w' \<and> inbox w' = inbox w"
proof -
  obtain dc w1 where d: "Attach d w = (BVSTATUS_OK, dc, w1)" "slot (brok w1) = (slot (brok w))(comp_id dc \<mapsto> nextq w)"
      "subs_m (brok w1) = []" "b_isRunning (brok w1) = b_isRunning (brok w)"
      "comp_in dc = nextq w" "comp_out dc = b_inMailBox (brok w)" "comp_listening dc = comp_listening d"
      "queues w1 = (queues w)(nextq w := tsq_new)" "nextq w1 = Suc (nextq w)" "b_inMailBox (brok w1) = b_inMailBox (brok w)"
    by (rule Attach_ok [OF free, of d]) (use nosubs in auto)
  have inv1: "bus_inv w1" by (rule Attach_inv [OF inv d(1)])
  have "\<exists>x. slot (brok w1) x = None" using d(2) free by (intro exI [of _ "comp_id dc + 1"]) simp
  then obtain x where "slot (brok w1) x = None" by blast
  then obtain ac w2 where a: "Attach a w1 = (BVSTATUS_OK, ac, w2)" "slot (brok w1) (comp_id ac) = None"
      "slot (brok w2) = (slot (brok w1))(comp_id ac \<mapsto> nextq w1)" "subs_m (brok w2) = []" "b_isRunning (brok w2) = b_isRunning (brok w1)"
      "comp_in ac = nextq w1" "comp_out ac = b_inMailBox (brok w1)" "comp_listening ac = comp_listening a"
      "queues w2 = (queues w1)(nextq w1 := tsq_new)" "b_inMailBox (brok w2) = b_inMailBox (brok w1)"
    by (rule Attach_ok [of w1 x a]) (use d(3) in auto)
  have inv2: "bus_inv w2" by (rule Attach_inv [OF inv1 a(1)])
  have ne: "comp_id dc \<noteq> comp_id ac" using a(2) d(2) by auto
  have att: "attached (brok w2) = {comp_id dc, comp_id ac}" using a(3) d(2) free by (auto simp: attached_def)
  define b1 where "b1 = fold (add_sub (comp_id dc)) discovery_events (brok w2)"
  define b2 where "b2 = fold (add_sub (comp_id ac)) app_events b1"
  have s1: "subscribe_each (comp_id dc) discovery_events (brok w2) = (replicate (length discovery_events) BVSTATUS_OK, b1)"
    unfolding b1_def by (rule subscribe_each_attached) (use att in \<open>auto simp: attached_def\<close>)
  have s2: "subscribe_each (comp_id ac) app_events b1 = (replicate (length app_events) BVSTATUS_OK, b2)"
    unfolding b2_def by (rule subscribe_each_attached) (use att in \<open>auto simp: attached_def b1_def\<close>)
  have "setup_broker d a w = Some (dc, ac, w2\<lparr>brok := b2\<rparr>)"
    by (simp add: setup_broker_def d(1) a(1) s1 s2) (auto simp: list_all_iff dest: in_set_replicate [THEN iffD1])
  moreover have "bus_inv (w2\<lparr>brok := b2\<rparr>)"
  proof -
    have i: "bus_inv (w2\<lparr>brok := b1\<rparr>)" unfolding b1_def by (rule bus_inv_add_subs [OF inv2]) (simp add: att)
    have "comp_id ac \<in> attached b1" using att by (simp add: attached_def b1_def)
    with bus_inv_add_subs [OF i, of "comp_id ac" app_events] show ?thesis by (simp add: b2_def)
  qed
  moreover have "set (subscribers b2 e) =
      (if e \<in> set discovery_events then {comp_id dc} else {}) \<union> (if e \<in> set app_events then {comp_id ac} else {})" for e
    using a(4) by (simp add: b2_def b1_def subscribers_fold) (simp add: subscribers_def)
  moreover have "attached b2 = {comp_id dc, comp_id ac}" using att by (simp add: attached_def b2_def b1_def)
  moreover have "connected_to d dc (w2\<lparr>brok := b2\<rparr>)" "connected_to a ac (w2\<lparr>brok := b2\<rparr>)"
    using d a ne by (auto simp: connected_to_def mailbox_def b2_def b1_def tsq_list_new)
  moreover have "inbox (w2\<lparr>brok := b2\<rparr>) = inbox w"
    using inv d(8,9,10) a(9,10) by (auto simp: inbox_def b2_def b1_def bus_inv_def)
  ultimately show ?thesis using ne d(4) a(5) by (simp add: b2_def b1_def)
qed

lemma teardown_broker_frees:
  assumes inv: "broker_inv (brok w)" and att: "attached (brok w) = {comp_id dc, comp_id ac}" "comp_id dc \<noteq> comp_id ac"
  shows "\<exists>w'. teardown_broker dc ac w = Some w' \<and> attached (brok w') = {} \<and> (\<forall>e. subscribers (brok w') e = [])"
proof -
  let ?b1 = "snd (Detach (comp_id dc) (brok w))"
  let ?b2 = "snd (Detach (comp_id ac) ?b1)"
  have s: "slot (brok w) (comp_id dc) \<noteq> None" "slot (brok w) (comp_id ac) \<noteq> None" using att by (auto simp: attached_def)
  have inv1: "broker_inv ?b1" by (rule Detach_inv [OF inv])
  have a1: "attached ?b1 = {comp_id ac}" unfolding attached_Detach using att by auto
  then have s1: "slot ?b1 (comp_id ac) \<noteq> None" by (auto simp: attached_def)
  have inv2: "broker_inv ?b2" by (rule Detach_inv [OF inv1])
  have a2: "attached ?b2 = {}" unfolding attached_Detach [of "comp_id ac"] using a1 by auto
  have "subscribers ?b2 e = []" for e using subscribers_attached [OF inv2, of e] a2 by auto
  moreover have d1: "fst (Detach (comp_id dc) (brok w)) = BVSTATUS_OK" and d2: "fst (Detach (comp_id ac) ?b1) = BVSTATUS_OK"
    using s(1) s1 by (simp_all only: Detach_def if_False fst_conv)
  moreover have "teardown_broker dc ac w = Some (w\<lparr>brok := ?b2\<rparr>)"
    using d1 d2 by (cases "Detach (comp_id dc) (brok w)"; cases "Detach (comp_id ac) ?b1") (simp add: teardown_broker_def)
  ultimately show ?thesis using a2 by simp
qed

section \<open>Properties\<close>

text \<open>Starting up attaches both components under different ids and subscribes every one of the events; each event except the termination then has at most one subscriber, so that no two components ever share a message with a payload.\<close>

theorem startup_wires_components:
  "\<exists>dc ac w. setup_broker d a new_bus = Some (dc, ac, w) \<and> bus_inv w \<and> b_isRunning (brok w) \<and>
     attached (brok w) = {comp_id dc, comp_id ac} \<and> comp_id dc \<noteq> comp_id ac \<and>
     (\<forall>e. set (subscribers (brok w) e) =
        (if e \<in> set discovery_events then {comp_id dc} else {}) \<union> (if e \<in> set app_events then {comp_id ac} else {})) \<and>
     (\<forall>e. e = BVEVENTTYPE_TERMINATE_ALL \<or> length (subscribers (brok w) e) \<le> 1)"
proof -
  have "subs_m (brok new_bus) = []" "b_isRunning (brok new_bus)" by (simp_all add: new_bus_def BVBroker_ctor_def)
  with setup_broker_wires [OF new_bus_inv new_bus_slot, of d a] obtain dc ac w where
    w: "setup_broker d a new_bus = Some (dc, ac, w)" "bus_inv w" "comp_id dc \<noteq> comp_id ac"
      "attached (brok w) = {comp_id dc, comp_id ac}" "b_isRunning (brok w)"
      "\<And>e. set (subscribers (brok w) e) =
        (if e \<in> set discovery_events then {comp_id dc} else {}) \<union> (if e \<in> set app_events then {comp_id ac} else {})"
    by auto
  have "length (subscribers (brok w) e) \<le> 1" if "e \<noteq> BVEVENTTYPE_TERMINATE_ALL" for e
  proof -
    have "distinct (subscribers (brok w) e)" using w(2) subscribers_distinct by (auto simp: bus_inv_def)
    then have "length (subscribers (brok w) e) = card (set (subscribers (brok w) e))" by (simp add: distinct_card)
    also have "\<dots> \<le> 1" unfolding w(6) using that by (cases e) (simp_all add: discovery_events_def app_events_def)
    finally show ?thesis .
  qed
  with w show ?thesis by blast
qed

text \<open>Once both components are wired, a termination request sent by either ends the broker's thread and is the last message in the mailbox of each; detaching then leaves no subscriber and no subscription.\<close>

theorem termination_reaches_both:
  assumes up: "setup_broker d a new_bus = Some (dc, ac, w)"
    and w1: "bus_inv w1" "brok w1 = brok w" "inbox w1 = ms @ [t]" "event_t (msgs w1 t) = BVEVENTTYPE_TERMINATE_ALL"
      "\<forall>m \<in> set ms. event_t (msgs w1 m) \<noteq> BVEVENTTYPE_TERMINATE_ALL"
  shows "\<exists>w2 w3. Run w1 = Some (Inr w2) \<and> inbox w2 = [] \<and>
    last (mailbox w2 (comp_id dc)) = t \<and> last (mailbox w2 (comp_id ac)) = t \<and>
    mailbox w2 (comp_id dc) = mailbox w1 (comp_id dc) @ filter (\<lambda>m. event_t (msgs w1 m) \<in> set discovery_events) (ms @ [t]) \<and>
    mailbox w2 (comp_id ac) = mailbox w1 (comp_id ac) @ filter (\<lambda>m. event_t (msgs w1 m) \<in> set app_events) (ms @ [t]) \<and>
    teardown_broker dc ac w1 = Some w3 \<and> attached (brok w3) = {}"
proof -
  have "subs_m (brok new_bus) = []" "b_isRunning (brok new_bus)" by (simp_all add: new_bus_def BVBroker_ctor_def)
  with setup_broker_wires [OF new_bus_inv new_bus_slot, of d a] up have
    w: "comp_id dc \<noteq> comp_id ac" "attached (brok w) = {comp_id dc, comp_id ac}" "b_isRunning (brok w)"
      "\<And>e. set (subscribers (brok w) e) =
        (if e \<in> set discovery_events then {comp_id dc} else {}) \<union> (if e \<in> set app_events then {comp_id ac} else {})"
    by auto
  have sub: "subscribed w1 (comp_id dc) = (\<lambda>m. event_t (msgs w1 m) \<in> set discovery_events)"
      "subscribed w1 (comp_id ac) = (\<lambda>m. event_t (msgs w1 m) \<in> set app_events)"
    using w(1) by (auto simp: fun_eq_iff subscribed_def w1(2) w(4))
  have t: "event_t (msgs w1 t) \<in> set discovery_events" "event_t (msgs w1 t) \<in> set app_events"
    by (simp_all add: w1(4) discovery_events_def app_events_def)
  obtain w2 where w2: "Run w1 = Some (Inr w2)" "inbox w2 = []"
      "\<And>sid. mailbox w2 sid = mailbox w1 sid @ filter (subscribed w1 sid) (ms @ [t])"
    using Run_routes [OF w1(1) _ _ w1(4,5), of "[]"] w1(2,3) w(3) by auto
  obtain w3 where "teardown_broker dc ac w1 = Some w3" "attached (brok w3) = {}"
    using teardown_broker_frees [of w1 dc ac] w1(1,2) w(1,2) by (auto simp: bus_inv_def)
  moreover have "mailbox w2 (comp_id dc) = mailbox w1 (comp_id dc) @ filter (\<lambda>m. event_t (msgs w1 m) \<in> set discovery_events) (ms @ [t])"
      "mailbox w2 (comp_id ac) = mailbox w1 (comp_id ac) @ filter (\<lambda>m. event_t (msgs w1 m) \<in> set app_events) (ms @ [t])"
    by (simp_all only: w2(3) sub)
  ultimately show ?thesis using w2(1,2) t by simp
qed

definition example_part :: component where
  "example_part = \<lparr>comp_id = 0, comp_out = 0, comp_in = 0, comp_listening = True\<rparr>"

theorem termination_reaches_both_witness:
  "\<exists>dc ac w w1 w2. setup_broker example_part example_part new_bus = Some (dc, ac, w) \<and> brok w1 = brok w \<and>
     inbox w1 = [0] \<and> Run w1 = Some (Inr w2) \<and> last (mailbox w2 (comp_id dc)) = 0 \<and> last (mailbox w2 (comp_id ac)) = 0"
proof -
  have "subs_m (brok new_bus) = []" by (simp add: new_bus_def BVBroker_ctor_def)
  with setup_broker_wires [OF new_bus_inv new_bus_slot] obtain dc ac w where
    w: "setup_broker example_part example_part new_bus = Some (dc, ac, w)" "bus_inv w" by blast
  let ?q = "b_inMailBox (brok w)"
  obtain q :: "nat tsq" where q: "push 0 tsq_new = Inr q" "tsq_list q = [0]" "tsq_inv q"
    using tsq.psh_ok [OF tsq_inv_new, of "0::nat"] by (auto simp: tsq_list_new)
  let ?w1 = "w\<lparr>queues := (queues w)(?q := q), msgs := (\<lambda>_. \<lparr>event_t = BVEVENTTYPE_TERMINATE_ALL, data_p = None\<rparr>)\<rparr>"
  have w1: "bus_inv ?w1" "brok ?w1 = brok w" "inbox ?w1 = [] @ [0]"
      "event_t (msgs ?w1 0) = BVEVENTTYPE_TERMINATE_ALL" "\<forall>m \<in> set []. event_t (msgs ?w1 m) \<noteq> BVEVENTTYPE_TERMINATE_ALL"
    using w(2) q by (auto simp: bus_inv_def inbox_def)
  obtain w2 where "Run ?w1 = Some (Inr w2)" "last (mailbox w2 (comp_id dc)) = 0" "last (mailbox w2 (comp_id ac)) = 0"
    using termination_reaches_both [OF w(1) w1] by blast
  with w(1) w1(2,3) show ?thesis unfolding append_Nil by blast
qed

end
