(* ===== verification/Chat_Core.thy ===== *)
theory Chat_Core
  imports Gui_Client Typed_Mail Startup
begin

text \<open>
  The object that owns the parts of the macOS client, \<open>src/mac-gui/BVChatCore.hpp\<close>: what \<open>start\<close> and \<open>stop\<close> do to
  the service, discovery, the broker, the client, their threads and the event loop, and the queries and actions it passes on.
\<close>

section \<open>Data\<close>

text \<open>
  \<open>core_looping\<close>: whether the thread of the event loop is inside the loop; \<open>core_worker\<close>: whether the worker thread of
  discovery is launched and has its step before it; the mailbox threads run when their components listen, that of the
  broker while \<open>b_isRunning\<close>. \<open>core_replyError\<close>: the global variable the DNS callbacks set; \<open>core_parts\<close>: discovery, client
  and broker once they are connected.
\<close>

record core =
  core_running :: bool
  core_ioStopped :: bool
  core_looping :: bool
  core_worker :: bool
  core_replyError :: bool
  core_service :: "BVService option"
  core_discovery :: "discovery option"
  core_parts :: "(component \<times> component \<times> bus) option"
  core_app :: "gui option"

definition BVChatCore_ctor :: core where
  "BVChatCore_ctor = \<lparr>core_running = False, core_ioStopped = False, core_looping = False, core_worker = False,
     core_replyError = False, core_service = None, core_discovery = None, core_parts = None, core_app = None\<rparr>"

text \<open>What \<open>start\<close> finds: the host's name, the answers of the daemon, of the resolver and of the socket calls, the mailboxes.\<close>

record start_env =
  se_hostname :: bytes
  se_error :: int
  se_processed :: int
  se_replies :: "int list"
  se_hard_fail :: bool
  se_ec :: bool
  se_results :: "endpoint list"
  se_sockets :: "bool list"
  se_fs :: fsys
  se_discovery :: component
  se_client :: component

text \<open>With what \<open>DNSServiceBrowse\<close> returns.\<close>

record core_env = start_env +
  ce_browse :: int

section \<open>Operations\<close>

text \<open>Attaching and subscribing; \<open>None\<close> when a step fails.\<close>

definition core_wire :: "component \<Rightarrow> component \<Rightarrow> bus \<Rightarrow> (component \<times> component \<times> bus) option" where
  "core_wire discovery app w =
     (case Attach discovery w of
        (st, discovery, w) \<Rightarrow>
          (if st \<noteq> BVSTATUS_OK then None
           else
             (case Attach app w of
                (st, app, w) \<Rightarrow>
                  (if st \<noteq> BVSTATUS_OK then None
                   else
                     (case subscribe_each (comp_id discovery) discovery_events (brok w) of
                        (ds, b) \<Rightarrow>
                          (case subscribe_each (comp_id app) app_events b of
                             (as, b) \<Rightarrow>
                               (if \<not> fold (\<lambda>st ok. ok \<and> st = BVSTATUS_OK) (ds @ as) True then None
                                else Some (discovery, app, w\<lparr>brok := b\<rparr>))))))))"

text \<open>The launches: both mailbox threads, the worker thread of discovery, and the thread that runs the event loop, where \<open>io_context::run\<close> returns at once when the loop was stopped and not restarted. The broker's thread runs as \<open>b_isRunning\<close> is set.\<close>

definition core_launch :: "component \<times> component \<times> bus \<Rightarrow> core \<Rightarrow> core" where
  "core_launch parts c =
     (case parts of
        (dc, ac, w) \<Rightarrow>
          c\<lparr>core_parts := Some (dc\<lparr>comp_listening := True\<rparr>, ac\<lparr>comp_listening := True\<rparr>, w), core_worker := True,
            core_running := True, core_looping := \<not> core_ioStopped c\<rparr>)"

definition core_start :: "core_env \<Rightarrow> core \<Rightarrow> (bool \<times> core) result" where
  "core_start env c =
     (if core_running c then Inr (True, c)
      else
        (case Register (se_error env) (se_processed env) (se_replies env) (core_replyError c)
            (BVService_ctor (se_hostname env) (str ''local.'') PORT) of
           (status, replyError, service) \<Rightarrow>
             (let c = c\<lparr>core_replyError := replyError, core_service := Some service\<rparr> in
              if status \<noteq> BVSTATUS_OK then Inr (False, c)
              else
                (let c = c\<lparr>core_discovery := Some (BVDiscovery_Bonjour_ctor (ce_browse env) (GetHostData service))\<rparr> in
                 rbind (BVApp_GuiClient_ctor (core_ioStopped c) (se_hard_fail env) (se_ec env) (se_results env) (se_fs env)
                     (GetHostData service)) (\<lambda>g.
                 rbind (StartAcceptingConnections (se_sockets env) (mgr (base g))) (\<lambda>(st, h).
                   (let c = c\<lparr>core_app := Some (g\<lparr>base := (base g)\<lparr>mgr := h\<rparr>, observed := True\<rparr>)\<rparr> in
                    case core_wire (se_discovery env) (se_client env) new_bus of
                      None \<Rightarrow> Inr (False, c)
                    | Some parts \<Rightarrow> Inr (True, core_launch parts c))))))))"

text \<open>\<open>Shutdown\<close> sends to the broker's queue.\<close>

fun send_all :: "component \<Rightarrow> BVMessage list \<Rightarrow> bus \<Rightarrow> bus result" where
  "send_all c [] w = Inr w"
| "send_all c (m # ms) w = rbind (SendMessage c m w) (\<lambda>(st, w). send_all c ms w)"

text \<open>
  The joins of \<open>stop\<close> wait for the threads: each runs its loop to the end here, the broker's before those of the mailboxes, and
  the worker thread of discovery makes its step if it has not yet. \<open>None\<close> is a thread that never ends, so that \<open>stop\<close> does not
  return; \<open>Inl\<close> an exception that leaves a thread. \<open>running\<close> is only set once all the parts exist. \<open>fd\<close> and \<open>ec\<close> are
  the answers for the browse descriptor.
\<close>

definition core_join ::
  "disc_env \<Rightarrow> gui_env \<Rightarrow> bool \<Rightarrow> component \<Rightarrow> component \<Rightarrow> bus \<times> discovery \<times> gui \<Rightarrow> (bus \<times> discovery \<times> gui) result option" where
  "core_join denv genv waits dc ac = (\<lambda>(w, d, g).
     if waits then None
     else
       lbind (Run w) (\<lambda>w.
       lbind (ListenToMail (discovery_handlers denv) dc (w, d)) (\<lambda>(w, d).
       lbind (ListenToMail (gui_handlers genv) ac (w, g)) (\<lambda>(w, g). Some (Inr (w, d, g))))))"

definition core_stop :: "disc_env \<Rightarrow> gui_env \<Rightarrow> int \<Rightarrow> bool \<Rightarrow> core \<Rightarrow> core result option" where
  "core_stop denv genv fd ec c =
     (if \<not> core_running c then Some (Inr c)
      else
        (let c = c\<lparr>core_running := False\<rparr> in
         case (core_app c, core_discovery c, core_parts c) of
           (Some g, Some d, Some (dc, ac, w)) \<Rightarrow>
             (let g = Shutdown g;
                  stopped = (core_ioStopped c \<or> ioStopped (base g));
                  d = (if core_worker c then Browse fd ec d else d)
              in lbind (Some (send_all ac (outMail (base g)) w)) (\<lambda>w.
                 lbind (core_join denv genv (core_looping c \<and> \<not> stopped) dc ac (w, d, g\<lparr>base := (base g)\<lparr>outMail := []\<rparr>\<rparr>)) (\<lambda>(w, d, g).
                   Some (Inr (c\<lparr>core_ioStopped := stopped, core_looping := False, core_worker := False, core_app := Some g,
                     core_discovery := Some d,
                     core_parts := Some (dc, ac, w\<lparr>brok := snd (Detach (comp_id ac) (snd (Detach (comp_id dc) (brok w))))\<rparr>)\<rparr>)))))
         | _ \<Rightarrow> Some (Inr c)))"

definition core_services :: "core \<Rightarrow> BVServiceBrowseInstance list" where
  "core_services c = (case core_app c of None \<Rightarrow> [] | Some g \<Rightarrow> Services g)"

definition core_sessions :: "core \<Rightarrow> bytes list" where
  "core_sessions c = (case core_app c of None \<Rightarrow> [] | Some g \<Rightarrow> Sessions g)"

definition core_messages :: "bytes \<Rightarrow> core \<Rightarrow> BVChatMessage list" where
  "core_messages serviceName c = (case core_app c of None \<Rightarrow> [] | Some g \<Rightarrow> MessagesFor serviceName g)"

definition core_sendText :: "bytes \<Rightarrow> bytes \<Rightarrow> core \<Rightarrow> bool \<times> core" where
  "core_sendText serviceName msg c =
     (case core_app c of None \<Rightarrow> (False, c) | Some g \<Rightarrow> (case SendText serviceName msg g of (b, g) \<Rightarrow> (b, c\<lparr>core_app := Some g\<rparr>)))"

definition core_sendFile :: "bytes \<Rightarrow> bytes \<Rightarrow> core \<Rightarrow> bool \<times> core" where
  "core_sendFile serviceName path c =
     (case core_app c of None \<Rightarrow> (False, c) | Some g \<Rightarrow> (case SendFile serviceName path g of (b, g) \<Rightarrow> (b, c\<lparr>core_app := Some g\<rparr>)))"

definition thisHostname :: "core \<Rightarrow> bytes" where
  "thisHostname c = (case core_service c of None \<Rightarrow> [] | Some s \<Rightarrow> sd_hostname (GetHostData s))"

definition core_takeFileOffers :: "core \<Rightarrow> BVFileOffer list \<times> core" where
  "core_takeFileOffers c =
     (case core_app c of None \<Rightarrow> ([], c) | Some g \<Rightarrow> (case TakeFileOffers g of (os, g) \<Rightarrow> (os, c\<lparr>core_app := Some g\<rparr>)))"

definition core_acceptFile :: "u32 \<Rightarrow> core \<Rightarrow> core" where
  "core_acceptFile key c = c\<lparr>core_app := map_option (AcceptFile key) (core_app c)\<rparr>"

definition core_rejectFile :: "u32 \<Rightarrow> core \<Rightarrow> core" where
  "core_rejectFile key c = c\<lparr>core_app := map_option (RejectFile key) (core_app c)\<rparr>"

definition core_setSaveDirectory :: "bytes \<Rightarrow> core \<Rightarrow> core" where
  "core_setSaveDirectory dir c = c\<lparr>core_app := map_option (SetSaveDirectory dir) (core_app c)\<rparr>"

definition core_transferStatus :: "core \<Rightarrow> bytes" where
  "core_transferStatus c = (case core_app c of None \<Rightarrow> [] | Some g \<Rightarrow> TransferStatus g)"

section \<open>Starting\<close>

lemma fold_all_ok: "fold (\<lambda>st ok. ok \<and> st = BVSTATUS_OK) sts b \<longleftrightarrow> b \<and> list_all (\<lambda>st. st = BVSTATUS_OK) sts"
  by (induction sts arbitrary: b) auto

lemma core_wire_eq: "core_wire d a w = setup_broker d a w"
  by (auto simp: core_wire_def setup_broker_def fold_all_ok split: prod.splits)

text \<open>Answers with which nothing fails.\<close>

definition start_ok :: "core_env \<Rightarrow> bool" where
  "start_ok env \<longleftrightarrow> se_error env = 0 \<and> se_processed env = 0 \<and> list_all (\<lambda>e. e = 0) (se_replies env) \<and>
     \<not> (se_ec env \<and> se_hard_fail env) \<and> list_all id (se_sockets env)"

lemma register_replies:
  "fold C_RegisterReply es b \<longleftrightarrow> b \<or> \<not> list_all (\<lambda>e. e = 0) es"
  by (induction es arbitrary: b) (auto simp: C_RegisterReply_def)

lemma Register_ok:
  "Register error processed replies b s =
    (if error = 0 \<and> processed = 0 \<and> list_all (\<lambda>e. e = 0) replies \<and> \<not> b
     then (BVSTATUS_OK, False, s\<lparr>sv_isRegistered := True\<rparr>)
     else (BVSTATUS_NOK, b \<or> error = 0 \<and> \<not> list_all (\<lambda>e. e = 0) replies, s))"
  by (auto simp: Register_def Let_def ProcessDNSServiceRegisterResult_def register_replies)

lemma start_result:
  assumes "start_ok env" "\<not> core_running c" "\<not> core_replyError c"
  shows "\<exists>c' g d dc ac w. core_start env c = Inr (True, c') \<and> core_running c' \<and> core_ioStopped c' = core_ioStopped c \<and>
    core_looping c' = (\<not> core_ioStopped c) \<and> core_worker c' \<and> \<not> core_replyError c' \<and> thisHostname c' = se_hostname env \<and>
    core_app c' = Some g \<and> accepting (mgr (base g)) \<noteq> None \<and> observed g \<and> outMail (base g) = [] \<and>
    core_discovery c' = Some d \<and> d = BVDiscovery_Bonjour_ctor (ce_browse env) (hostData d) \<and> sd_hostname (hostData d) = se_hostname env \<and>
    setup_broker (se_discovery env) (se_client env) new_bus = Some (dc, ac, w) \<and>
    core_parts c' = Some (dc\<lparr>comp_listening := True\<rparr>, ac\<lparr>comp_listening := True\<rparr>, w)"
proof -
  have "subs_m (brok new_bus) = []" by (simp add: new_bus_def BVBroker_ctor_def)
  with setup_broker_wires [OF new_bus_inv new_bus_slot, of "se_discovery env" "se_client env"] obtain dc ac w where
    p: "setup_broker (se_discovery env) (se_client env) new_bus = Some (dc, ac, w)" by auto
  have acc: "accepting (Accept h) \<noteq> None" for h by (simp add: Accept_def Let_def split: prod.splits)
  have hd: "hostData (BVDiscovery_Bonjour_ctor e sd) = sd" for e sd
    by (simp add: BVDiscovery_Bonjour_ctor_def Setup_def CreateConnectionContext_def)
  from assms p acc show ?thesis
    by (simp add: start_ok_def core_start_def core_launch_def Register_ok BVApp_GuiClient_ctor_def BVApp_ConsoleClient_ctor_def
        BVTCPConnectionManager_ctor_def StartAcceptingConnections_def core_wire_eq Let_def thisHostname_def GetHostData_def BVService_ctor_def hd)
qed

section \<open>Stopping\<close>

text \<open>A mailbox with nothing but the termination in it.\<close>

lemma mailbox_ends:
  assumes "comp_listening c" "tsq_inv (queues w (comp_in c))" "tsq_list (queues w (comp_in c)) = [n]"
    and "event_t (msgs w n) = BVEVENTTYPE_TERMINATE_ALL" "cb BVEVENTTYPE_TERMINATE_ALL = Some h" "h (data_p (msgs w n)) s = Inr (BVSTATUS_OK, s')"
  obtains q where "ListenToMail cb c (w, s) =
    Some (Inr (w\<lparr>queues := (queues w)(comp_in c := q), msgs := (msgs w)(n := (msgs w n)\<lparr>data_p := None\<rparr>)\<rparr>, s'))"
proof -
  obtain q where q: "listen_step cb c (w, s) = Some (dispatch_mail cb n (w\<lparr>queues := (queues w)(comp_in c := q)\<rparr>) s)"
    by (rule listen_step_message [OF assms(2,3)])
  have "dispatch_mail cb n (w\<lparr>queues := (queues w)(comp_in c := q)\<rparr>) s =
      Inr (False, w\<lparr>queues := (queues w)(comp_in c := q), msgs := (msgs w)(n := (msgs w n)\<lparr>data_p := None\<rparr>)\<rparr>, s')"
    using assms(4-6) by (simp add: dispatch_mail_def)
  then have "ListenToMail cb c (w, s) =
      Some (Inr (w\<lparr>queues := (queues w)(comp_in c := q), msgs := (msgs w)(n := (msgs w n)\<lparr>data_p := None\<rparr>)\<rparr>, s'))"
    using q assms(1) by (subst ListenToMail.simps) simp
  then show ?thesis by (rule that)
qed

text \<open>A core whose parts are connected and have no mail.\<close>

definition core_idle :: "core \<Rightarrow> component \<Rightarrow> component \<Rightarrow> bus \<Rightarrow> bool" where
  "core_idle c dc ac w \<longleftrightarrow>
     core_running c \<and> core_parts c = Some (dc, ac, w) \<and> bus_inv w \<and> comp_id dc \<noteq> comp_id ac \<and>
     attached (brok w) = {comp_id dc, comp_id ac} \<and> b_isRunning (brok w) \<and>
     (\<forall>e. set (subscribers (brok w) e) =
        (if e \<in> set discovery_events then {comp_id dc} else {}) \<union> (if e \<in> set app_events then {comp_id ac} else {})) \<and>
     comp_listening dc \<and> comp_listening ac \<and> comp_out ac = b_inMailBox (brok w) \<and>
     slot (brok w) (comp_id dc) = Some (comp_in dc) \<and> slot (brok w) (comp_id ac) = Some (comp_in ac) \<and>
     mailbox w (comp_id dc) = [] \<and> mailbox w (comp_id ac) = [] \<and> inbox w = []"

text \<open>The termination sent, and what the broker's thread then leaves.\<close>

lemma termination_routed:
  assumes i: "core_idle c dc ac w" and m: "event_t m = BVEVENTTYPE_TERMINATE_ALL"
  obtains w1 w2 n where "send_all ac [m] w = Inr w1" "Run w1 = Some (Inr w2)" "bus_inv w2" "slot (brok w2) = slot (brok w)"
    "msgs w2 n = m" "tsq_list (queues w2 (comp_in dc)) = [n]" "tsq_list (queues w2 (comp_in ac)) = [n]"
proof -
  have w: "bus_inv w" "comp_out ac = b_inMailBox (brok w)" "b_isRunning (brok w)" "inbox w = []"
      "slot (brok w) (comp_id dc) = Some (comp_in dc)" "slot (brok w) (comp_id ac) = Some (comp_in ac)"
      "mailbox w (comp_id dc) = []" "mailbox w (comp_id ac) = []"
    using i by (simp_all add: core_idle_def)
  let ?b = "b_inMailBox (brok w)" and ?n = "nextm w"
  have "tsq_inv (queues w ?b)" "tsq_list (queues w ?b) = []" using w(1,4) by (simp_all add: bus_inv_def inbox_def)
  then obtain q' where q': "push ?n (queues w ?b) = Inr q'" "tsq_list q' = [?n]"
    using push_total [of "queues w ?b" ?n] push_list [of "queues w ?b" ?n] by auto
  define w1 where "w1 = w\<lparr>queues := (queues w)(?b := q'), msgs := (msgs w)(?n := m), nextm := Suc ?n\<rparr>"
  have s: "send_all ac [m] w = Inr w1" using q'(1) w(2) by (simp add: SendMessage_def w1_def)
  have inv1: "bus_inv w1" using bus_inv_push [OF w(1) q'(1)] by (simp add: w1_def bus_inv_def)
  have "comp_in dc \<noteq> ?b" "comp_in ac \<noteq> ?b" using w(1,5,6) by (auto simp: bus_inv_def)
  then have box: "inbox w1 = [?n]" "mailbox w1 (comp_id dc) = []" "mailbox w1 (comp_id ac) = []" "b_isRunning (brok w1)"
    using q'(2) w(3,5-8) by (auto simp: w1_def inbox_def mailbox_def)
  have n: "msgs w1 ?n = m" by (simp add: w1_def)
  have sub: "subscribed w1 (comp_id dc) ?n" "subscribed w1 (comp_id ac) ?n"
    using i m by (auto simp: subscribed_def w1_def core_idle_def discovery_events_def app_events_def)
  obtain w2 where w2: "Run w1 = Run w2" "bus_inv w2" "msgs w2 = msgs w1" "slot (brok w2) = slot (brok w1)"
      "b_isRunning (brok w2) \<longleftrightarrow> event_t (msgs w1 ?n) \<noteq> BVEVENTTYPE_TERMINATE_ALL"
      "\<And>sid. mailbox w2 sid = mailbox w1 sid @ (if subscribed w1 sid ?n then [?n] else [])"
    by (rule Run_step [OF inv1 box(4,1)]) iprover
  have "Run w1 = Some (Inr w2)" using w2(1,5) n m by (simp add: Run_stopped)
  moreover have sl: "slot (brok w2) = slot (brok w)" using w2(4) by (simp add: w1_def)
  moreover have "tsq_list (queues w2 (comp_in dc)) = [?n]" "tsq_list (queues w2 (comp_in ac)) = [?n]"
    using w2(6) [of "comp_id dc"] w2(6) [of "comp_id ac"] box(2,3) sub sl w(5,6) by (simp_all add: mailbox_def)
  ultimately show ?thesis using that [OF s _ w2(2)] n w2(3) by simp
qed

lemma attached_slot: "slot b = slot b' \<Longrightarrow> attached b = attached b'"
  by (simp add: attached_def)

lemma idle_stops:
  assumes i: "core_idle c dc ac w" and g: "core_app c = Some g" "outMail (base g) = []"
    and d: "core_discovery c = Some d" "d_fd_open (if core_worker c then Browse fd ec d else d)"
  shows "\<exists>c' g' w'. core_stop denv genv fd ec c = Some (Inr c') \<and> \<not> core_running c' \<and> core_ioStopped c' \<and> \<not> core_looping c' \<and>
    core_replyError c' = core_replyError c \<and> core_app c' = Some g' \<and> \<not> isRunning (base g') \<and>
    core_parts c' = Some (dc, ac, w') \<and> attached (brok w') = {}"
proof -
  let ?m = "\<lparr>event_t = BVEVENTTYPE_TERMINATE_ALL, data_p = None\<rparr>"
  define g1 where "g1 = (Shutdown g)\<lparr>base := (base (Shutdown g))\<lparr>outMail := []\<rparr>\<rparr>"
  define d1 where "d1 = (if core_worker c then Browse fd ec d else d)"
  have r: "core_running c" "core_parts c = Some (dc, ac, w)" "comp_listening dc" "comp_listening ac" "comp_id dc \<noteq> comp_id ac"
      "attached (brok w) = {comp_id dc, comp_id ac}" "slot (brok w) (comp_id dc) = Some (comp_in dc)" "slot (brok w) (comp_id ac) = Some (comp_in ac)"
    using i by (simp_all add: core_idle_def)
  obtain w1 w2 n where w: "send_all ac [?m] w = Inr w1" "Run w1 = Some (Inr w2)" "bus_inv w2" "slot (brok w2) = slot (brok w)"
      "msgs w2 n = ?m" "tsq_list (queues w2 (comp_in dc)) = [n]" "tsq_list (queues w2 (comp_in ac)) = [n]"
    by (rule termination_routed [OF i, of ?m]) simp_all
  have q: "tsq_inv (queues w2 k)" for k using w(3) by (simp add: bus_inv_def)
  have ne: "comp_in ac \<noteq> comp_in dc" using w(3,4) r(5,7,8) by (auto simp: bus_inv_def)
  let ?d = "d1\<lparr>isBrowsingActive := False, d_waits := 0, d_timer := False, d_stopped := True\<rparr>"
  have off: "disc_OnShutdown d1 = Inr (BVSTATUS_OK, ?d)" using d(2) by (simp add: disc_OnShutdown_def d1_def [symmetric])
  obtain q1 where l1: "ListenToMail (discovery_handlers denv) dc (w2, d1) =
      Some (Inr (w2\<lparr>queues := (queues w2)(comp_in dc := q1), msgs := (msgs w2)(n := (msgs w2 n)\<lparr>data_p := None\<rparr>)\<rparr>, ?d))"
    by (rule mailbox_ends [OF r(3) q w(6), where cb = "discovery_handlers denv" and h = "\<lambda>dp d. disc_OnShutdown d" and s = d1 and s' = ?d])
      (simp_all add: w(5) off discovery_handlers_def discovery_callbacks_def)
  define w3 where "w3 = w2\<lparr>queues := (queues w2)(comp_in dc := q1), msgs := (msgs w2)(n := (msgs w2 n)\<lparr>data_p := None\<rparr>)\<rparr>"
  define g2 where "g2 = g1\<lparr>base := StopIOContext (base g1)\<rparr>"
  have 3: "tsq_inv (queues w3 (comp_in ac))" "tsq_list (queues w3 (comp_in ac)) = [n]" "event_t (msgs w3 n) = BVEVENTTYPE_TERMINATE_ALL"
    using q w(5,7) ne by (simp_all add: w3_def)
  obtain q2 where l2: "ListenToMail (gui_handlers genv) ac (w3, g1) =
      Some (Inr (w3\<lparr>queues := (queues w3)(comp_in ac := q2), msgs := (msgs w3)(n := (msgs w3 n)\<lparr>data_p := None\<rparr>)\<rparr>, g2))"
    by (rule mailbox_ends [OF r(4) 3, where cb = "gui_handlers genv" and s = g1 and s' = g2 and
        h = "\<lambda>dp g. rbind (OnShutdown dp (base g)) (\<lambda>(s, a). Inr (s, g\<lparr>base := a\<rparr>))"])
      (simp_all add: gui_handlers_def OnShutdown_def g2_def)
  define w4 where "w4 = w3\<lparr>queues := (queues w3)(comp_in ac := q2), msgs := (msgs w3)(n := (msgs w3 n)\<lparr>data_p := None\<rparr>)\<rparr>"
  have sh: "outMail (base (Shutdown g)) = [?m]" "ioStopped (base (Shutdown g))"
    using g(2) by (simp_all add: Shutdown_def StopIOContext_def app_SendMessage_def)
  have "core_join denv genv False dc ac (w1, d1, g1) = Some (Inr (w4, ?d, g2))"
    by (simp add: core_join_def w(2) l1 w3_def [symmetric] l2 w4_def)
  then have "core_stop denv genv fd ec c = Some (Inr (c\<lparr>core_running := False, core_ioStopped := True, core_looping := False,
      core_worker := False, core_app := Some g2, core_discovery := Some ?d,
      core_parts := Some (dc, ac, w4\<lparr>brok := snd (Detach (comp_id ac) (snd (Detach (comp_id dc) (brok w4))))\<rparr>)\<rparr>))"
    using r(1,2) g(1) d(1) w(1) by (simp add: core_stop_def Let_def sh g1_def [symmetric] d1_def [symmetric] del: send_all.simps)
  moreover have "attached (brok w4) = {comp_id dc, comp_id ac}"
    using r(6) attached_slot [OF w(4)] by (simp add: w4_def w3_def)
  moreover have "\<not> isRunning (base g2)" by (simp add: g2_def g1_def Shutdown_def StopIOContext_def)
  ultimately show ?thesis by (simp add: attached_Detach)
qed

section \<open>Concrete start\<close>

definition example_start :: "int list \<Rightarrow> core_env" where
  "example_start replies = \<lparr>se_hostname = str ''alice'', se_error = 0, se_processed = 0, se_replies = replies, se_hard_fail = False,
     se_ec = False, se_results = [], se_sockets = [True, True, True, True, True], se_fs = example_fs,
     se_discovery = example_part, se_client = example_part, ce_browse = 0\<rparr>"

section \<open>Properties\<close>

text \<open>Connecting the parts to the broker gives, for every broker and all components, exactly what the program's \<open>main\<close> gives, and fails exactly when it does.\<close>

theorem core_wires_as_main: "core_wire d a w = setup_broker d a w"
  by (rule core_wire_eq)

lemma started_core:
  assumes "start_ok env"
  obtains c g d dc ac w where "core_start env BVChatCore_ctor = Inr (True, c)" "core_idle c dc ac w" "core_looping c" "core_worker c"
    "\<not> core_replyError c" "core_app c = Some g" "accepting (mgr (base g)) \<noteq> None" "observed g" "outMail (base g) = []"
    "thisHostname c = se_hostname env" "core_discovery c = Some d" "d = BVDiscovery_Bonjour_ctor (ce_browse env) (hostData d)"
    "sd_hostname (hostData d) = se_hostname env"
proof -
  have "\<not> core_running BVChatCore_ctor" "\<not> core_replyError BVChatCore_ctor" by (simp_all add: BVChatCore_ctor_def)
  from start_result [OF assms this] obtain c g d dc ac w where c: "core_start env BVChatCore_ctor = Inr (True, c)" "core_running c"
      "core_looping c" "core_worker c" "\<not> core_replyError c" "thisHostname c = se_hostname env" "core_app c = Some g"
      "accepting (mgr (base g)) \<noteq> None" "observed g" "outMail (base g) = []" "core_discovery c = Some d"
      "d = BVDiscovery_Bonjour_ctor (ce_browse env) (hostData d)" "sd_hostname (hostData d) = se_hostname env"
      "setup_broker (se_discovery env) (se_client env) new_bus = Some (dc, ac, w)"
      "core_parts c = Some (dc\<lparr>comp_listening := True\<rparr>, ac\<lparr>comp_listening := True\<rparr>, w)"
    by (auto simp: BVChatCore_ctor_def)
  have "subs_m (brok new_bus) = []" "b_isRunning (brok new_bus)" "inbox new_bus = []"
    by (simp_all add: new_bus_def BVBroker_ctor_def inbox_def tsq_list_new)
  with setup_broker_wires [OF new_bus_inv new_bus_slot, of "se_discovery env" "se_client env"] c(14)
  have "core_idle c (dc\<lparr>comp_listening := True\<rparr>) (ac\<lparr>comp_listening := True\<rparr>) w"
    using c(2,15) by (auto simp: core_idle_def connected_to_def)
  from that [OF c(1) this c(3-5,7-10,6,11-13)] show ?thesis .
qed



lemma core_stop_stops:
  assumes "core_stop denv genv fd ec c = Some (Inr c')" "core_running c" "core_app c \<noteq> None" "core_discovery c \<noteq> None" "core_parts c \<noteq> None"
  shows "\<not> core_running c' \<and> core_ioStopped c' \<and> core_replyError c' = core_replyError c"
  using assms by (auto simp: core_stop_def Let_def lbind_def Shutdown_def StopIOContext_def split: option.splits sum.splits prod.splits)

text \<open>A client that is stopped and started again reports success but its event loop never runs, since nothing restarts the stopped loop: a text is accepted for sending and stays in the queue.\<close>

theorem restart_is_deaf:
  assumes "start_ok env" "core_running c" "core_app c \<noteq> None" "core_discovery c \<noteq> None" "core_parts c \<noteq> None" "\<not> core_replyError c"
    and "core_stop denv genv fd ec c = Some (Inr c1)"
  shows "\<exists>c' c'' g'. core_start env c1 = Inr (True, c') \<and> core_running c' \<and> \<not> core_looping c' \<and>
    core_sendText name msg c' = (True, c'') \<and> core_app c'' = Some g' \<and> Post_Text name msg \<in> set (gui_posted g')"
proof -
  note s = core_stop_stops [OF assms(7,2-5)]
  from start_result [OF assms(1), of c1] s assms(6) obtain c' g1 where
    "core_start env c1 = Inr (True, c')" "core_running c'" "\<not> core_looping c'" "core_app c' = Some g1" by auto
  then show ?thesis by (auto simp: core_sendText_def SendText_def)
qed

theorem restart_is_deaf_witness:
  "\<exists>c c1 c' denv. core_start (example_start [0]) BVChatCore_ctor = Inr (True, c) \<and>
     core_stop denv example_gui_env 3 False c = Some (Inr c1) \<and> core_start (example_start [0]) c1 = Inr (True, c') \<and> \<not> core_looping c'"
proof -
  have e: "start_ok (example_start [0])" by (simp add: start_ok_def example_start_def)
  obtain c g d dc ac w where c: "core_start (example_start [0]) BVChatCore_ctor = Inr (True, c)" "core_idle c dc ac w"
      "core_worker c" "\<not> core_replyError c" "core_app c = Some g" "outMail (base g) = []" "core_discovery c = Some d"
    by (rule started_core [OF e])
  have "d_fd_open (if core_worker c then Browse 3 False d else d)" using c(3) by (simp add: Browse_def AwaitFDForProcessingBrowseResult_def)
  from idle_stops [OF c(2,5,6,7) this, of undefined example_gui_env] obtain c1 where
      c1: "core_stop undefined example_gui_env 3 False c = Some (Inr c1)" by blast
  have "core_running c" "core_app c \<noteq> None" "core_discovery c \<noteq> None" "core_parts c \<noteq> None" using c(2,5,7) by (simp_all add: core_idle_def)
  from restart_is_deaf [OF e this c(4) c1] c(1) c1 show ?thesis by blast
qed

text \<open>Once the daemon has refused a registration, every later start fails, whatever the daemon answers then, because the variable that recorded the refusal is never reset.\<close>

theorem refused_start_is_final:
  assumes "core_start env c = Inr (False, c1)" "se_error env = 0" "\<exists>e \<in> set (se_replies env). e \<noteq> 0"
  shows "\<exists>c2. core_start env' c1 = Inr (False, c2) \<and> core_replyError c2"
proof -
  have "\<not> list_all (\<lambda>e. e = 0) (se_replies env)" using assms(3) by (auto simp: list_all_iff)
  with assms(1,2) have "core_replyError c1" "\<not> core_running c1"
    by (auto simp: core_start_def Register_ok Let_def split: if_splits)
  then show ?thesis by (simp add: core_start_def Register_ok Let_def)
qed

theorem refused_start_is_final_witness:
  "\<exists>c1 c2. core_start (example_start [1]) BVChatCore_ctor = Inr (False, c1) \<and>
     core_start (example_start [0]) c1 = Inr (False, c2) \<and> core_replyError c2"
proof -
  obtain c1 where c1: "core_start (example_start [1]) BVChatCore_ctor = Inr (False, c1)"
    by (simp add: core_start_def Register_ok BVChatCore_ctor_def example_start_def)
  have "se_error (example_start [1]) = 0" "\<exists>e \<in> set (se_replies (example_start [1])). e \<noteq> 0" by (simp_all add: example_start_def)
  from refused_start_is_final [OF c1 this, of "example_start [0]"] c1 show ?thesis by blast
qed

end
