(* ===== verification/Process.thy ===== *)
theory Process
  imports Chat_Core
begin

text \<open>
  The running program, for any discovery component: what \<open>main\<close> of \<open>src/main.cpp\<close> puts together and starts after the
  registration of the service. The threads of the broker, of the two mailboxes and of discovery, and the event loop, take steps in
  any order; what a part sends goes into the queues of the broker. The locale \<open>discovery_part\<close> says what the program
  needs of its discovery component, and shows from it that the mail stays typed and that quitting ends the other threads;
  \<open>Program_Run\<close> and \<open>Program_Avahi\<close> interpret it on the two components there are.
\<close>

section \<open>Mail on its way\<close>

text \<open>
  The messages waiting in the queue of the broker (\<open>i\<close>) and in the mailboxes of discovery (\<open>d\<close>) and the application
  (\<open>a\<close>): they are typed, those in a mailbox are for its owner, and a message with a payload waits in one place only.
\<close>

definition app_mail :: "BVEventType set" where
  "app_mail = insert BVEVENTTYPE_APP_FILE_OFFER (set app_events)"

definition mail_ok :: "(BVMessage \<Rightarrow> bool) \<Rightarrow> nat \<Rightarrow> (nat \<Rightarrow> BVMessage) \<Rightarrow> nat list \<Rightarrow> nat list \<Rightarrow> nat list \<Rightarrow> bool" where
  "mail_ok T n f i d a \<longleftrightarrow>
     (\<forall>m \<in> set i \<union> set d \<union> set a. m < n \<and> T (f m)) \<and>
     (\<forall>m \<in> set d. event_t (f m) \<in> set discovery_events) \<and> (\<forall>m \<in> set a. event_t (f m) \<in> app_mail) \<and>
     (\<forall>m < n. data_p (f m) \<noteq> None \<longrightarrow> count_list i m + count_list d m + count_list a m \<le> 1)"

text \<open>New messages behind the others.\<close>

definition enlisted :: "nat \<Rightarrow> BVMessage list \<Rightarrow> (nat \<Rightarrow> BVMessage) \<Rightarrow> nat \<Rightarrow> BVMessage" where
  "enlisted n ms f k = (if n \<le> k \<and> k < n + length ms then ms ! (k - n) else f k)"

lemma enlisted_old [simp]: "k < n \<Longrightarrow> enlisted n ms f k = f k"
  by (simp add: enlisted_def)

lemma enlisted_new: "n \<le> k \<Longrightarrow> k < n + length ms \<Longrightarrow> enlisted n ms f k \<in> set ms"
  by (simp add: enlisted_def)

lemma only_termination_shared: "e \<in> set discovery_events \<Longrightarrow> e \<in> set app_events \<Longrightarrow> e = BVEVENTTYPE_TERMINATE_ALL"
  by (cases e) (simp_all add: discovery_events_def app_events_def)

lemma mail_ok_route:
  assumes "mail_ok T n f (m # i) d a" and T: "\<And>m. T m \<Longrightarrow> typed_any m"
  shows "mail_ok T n f i (d @ (if event_t (f m) \<in> set discovery_events then [m] else []))
    (a @ (if event_t (f m) \<in> set app_events then [m] else []))"
proof -
  have m: "typed_any (f m)" "m < n" "T (f m)" using assms by (auto simp: mail_ok_def)
  have one: "\<not> (event_t (f m) \<in> set discovery_events \<and> event_t (f m) \<in> set app_events)" if "data_p (f m) \<noteq> None"
    using that m only_termination_shared [of "event_t (f m)"] by (auto simp: typed_any_def typed_def)
  have "count_list i k + count_list (d @ (if event_t (f m) \<in> set discovery_events then [m] else [])) k +
      count_list (a @ (if event_t (f m) \<in> set app_events then [m] else [])) k \<le> 1"
    if "k < n" "data_p (f k) \<noteq> None" for k
  proof -
    have "count_list (m # i) k + count_list d k + count_list a k \<le> 1" using assms that unfolding mail_ok_def by blast
    then show ?thesis using one that by (cases "k = m") auto
  qed
  with assms m show ?thesis unfolding mail_ok_def by (auto simp: app_mail_def)
qed

lemma mail_ok_drop:
  "mail_ok T n f i (m # d) a \<Longrightarrow> mail_ok T n f i d a" "mail_ok T n f i d (m # a) \<Longrightarrow> mail_ok T n f i d a"
  unfolding mail_ok_def by (auto simp del: not_None_eq split: if_splits)

lemma mail_ok_taken:
  assumes "mail_ok T n f i (m # d) a \<or> mail_ok T n f i d (m # a)"
  shows "mail_ok T n (f(m := (f m)\<lparr>data_p := None\<rparr>)) i d a"
proof (cases "data_p (f m) = None")
  case True
  then have "f(m := (f m)\<lparr>data_p := None\<rparr>) = f" by (cases "f m") (simp add: fun_eq_iff)
  moreover have "mail_ok T n f i d a" using assms mail_ok_drop by blast
  ultimately show ?thesis by simp
next
  case False
  have ok: "mail_ok T n f i d a" using assms mail_ok_drop by blast
  have m: "m < n" using assms by (auto simp: mail_ok_def)
  have "count_list i m + count_list d m + count_list a m = 0"
    using assms
  proof
    assume "mail_ok T n f i (m # d) a"
    then have "count_list i m + count_list (m # d) m + count_list a m \<le> 1" using m False unfolding mail_ok_def by blast
    then show ?thesis by simp
  next
    assume "mail_ok T n f i d (m # a)"
    then have "count_list i m + count_list d m + count_list (m # a) m \<le> 1" using m False unfolding mail_ok_def by blast
    then show ?thesis by simp
  qed
  then have "m \<notin> set i \<union> set d \<union> set a" by (simp add: count_list_0_iff)
  with ok show ?thesis by (auto simp: mail_ok_def)
qed

lemma count_list_upt: "count_list [a..<b] x \<le> 1"
  by (induction b) (auto simp: count_list_0_iff)

lemma enlisted_once:
  assumes "mail_ok T n f i d a" "data_p (enlisted n ms f k) \<noteq> None"
  shows "count_list i k + count_list d k + count_list a k + count_list [n..<n + length ms] k \<le> 1"
proof (cases "k < n")
  case True
  then have "count_list [n..<n + length ms] k = 0" by (simp add: count_list_0_iff)
  moreover have "count_list i k + count_list d k + count_list a k \<le> 1"
    using True assms unfolding mail_ok_def by simp
  ultimately show ?thesis by linarith
next
  case False
  then have "k \<notin> set i \<union> set d \<union> set a" using assms(1) unfolding mail_ok_def by blast
  then have "count_list i k = 0" "count_list d k = 0" "count_list a k = 0" by (simp_all add: count_list_0_iff)
  then show ?thesis using count_list_upt [of n "n + length ms" k] by linarith
qed

lemma mail_ok_enlisted:
  assumes "mail_ok T n f i d a" "\<forall>m \<in> set ms. T m"
  shows "mail_ok T (n + length ms) (enlisted n ms f) (i @ [n..<n + length ms]) d a"
    "\<forall>m \<in> set ms. event_t m \<in> app_mail \<Longrightarrow> mail_ok T (n + length ms) (enlisted n ms f) i d (a @ [n..<n + length ms])"
proof -
  have old: "enlisted n ms f m = f m" "m < n" "m < n + length ms" if "m \<in> set i \<union> set d \<union> set a" for m
  proof -
    show "m < n" using that assms(1) unfolding mail_ok_def by blast
    then show "enlisted n ms f m = f m" "m < n + length ms" by simp_all
  qed
  have new: "enlisted n ms f m \<in> set ms" if "m \<in> set [n..<n + length ms]" for m using that by (simp add: enlisted_new)
  note once = enlisted_once [OF assms(1), of ms]
  have t: "m < n + length ms \<and> T (enlisted n ms f m)" if "m \<in> set i \<union> set d \<union> set a \<union> set [n..<n + length ms]" for m
    using that
  proof
    assume m: "m \<in> set i \<union> set d \<union> set a"
    then have "T (f m)" using assms(1) unfolding mail_ok_def by blast
    with old [OF m] show ?thesis by simp
  next
    assume "m \<in> set [n..<n + length ms]"
    with new [OF this] assms(2) show ?thesis by simp
  qed
  have ev: "event_t (enlisted n ms f m) \<in> set discovery_events" if "m \<in> set d" for m
    using that old [of m] assms(1) unfolding mail_ok_def by simp
  have ea: "event_t (enlisted n ms f m) \<in> app_mail" if "m \<in> set a" for m
    using that old [of m] assms(1) unfolding mail_ok_def by simp
  show "mail_ok T (n + length ms) (enlisted n ms f) (i @ [n..<n + length ms]) d a"
    unfolding mail_ok_def using t ev ea once by (auto simp: ac_simps)
  show "mail_ok T (n + length ms) (enlisted n ms f) i d (a @ [n..<n + length ms])" if am: "\<forall>m \<in> set ms. event_t m \<in> app_mail"
  proof -
    have "event_t (enlisted n ms f m) \<in> app_mail" if "m \<in> set (a @ [n..<n + length ms])" for m
      using that ea new [of m] am by (simp only: set_append Un_iff) blast
    then show ?thesis unfolding mail_ok_def using t ev once by (auto simp: ac_simps)
  qed
qed

section \<open>Sending\<close>

text \<open>Messages pushed onto a queue one after the other, as \<open>SendMessage\<close> and \<open>PutMessageIntoAppMailbox\<close> do.\<close>

fun put_all :: "nat \<Rightarrow> BVMessage list \<Rightarrow> bus \<Rightarrow> bus result" where
  "put_all q [] w = Inr w"
| "put_all q (m # ms) w =
     rbind (push (nextm w) (queues w q)) (\<lambda>q'.
       put_all q ms (w\<lparr>queues := (queues w)(q := q'), msgs := (msgs w)(nextm w := m), nextm := Suc (nextm w)\<rparr>))"

lemma SendMessage_put: "SendMessage c m w = rbind (put_all (comp_out c) [m] w) (\<lambda>w. Inr (BVSTATUS_OK, w))"
  by (simp add: SendMessage_def rbind_assoc rbind_Inr)

definition box :: "bus \<Rightarrow> nat \<Rightarrow> nat list" where
  "box w q = tsq_list (queues w q)"

lemma enlisted_Cons: "enlisted (Suc n) ms (f(n := m)) = enlisted n (m # ms) f"
  by (auto simp: fun_eq_iff enlisted_def nth_Cons split: nat.splits) (metis Suc_diff_le diff_Suc_Suc nat.inject)+

lemma put_all_ok:
  assumes "bus_inv w"
  obtains w' where "put_all q ms w = Inr w'" "bus_inv w'" "brok w' = brok w" "nextm w' = nextm w + length ms"
    "msgs w' = enlisted (nextm w) ms (msgs w)"
    "box w' = (box w)(q := box w q @ [nextm w..<nextm w + length ms])"
proof -
  have "\<exists>w'. put_all q ms w = Inr w' \<and> bus_inv w' \<and> brok w' = brok w \<and> nextm w' = nextm w + length ms \<and>
      msgs w' = enlisted (nextm w) ms (msgs w) \<and> box w' = (box w)(q := box w q @ [nextm w..<nextm w + length ms])"
    using assms
  proof (induction ms arbitrary: w)
    case Nil
    have "enlisted n [] f = f" for n and f :: "nat \<Rightarrow> BVMessage" by (auto simp: fun_eq_iff enlisted_def)
    with Nil show ?case by simp
  next
    case (Cons m ms)
    have "tsq_inv (queues w q)" using Cons.prems by (simp add: bus_inv_def)
    then obtain q' where q': "push (nextm w) (queues w q) = Inr q'" "tsq_list q' = tsq_list (queues w q) @ [nextm w]"
      using push_total [of "queues w q" "nextm w"] push_list [of "queues w q" "nextm w"] by auto
    let ?w = "w\<lparr>queues := (queues w)(q := q'), msgs := (msgs w)(nextm w := m), nextm := Suc (nextm w)\<rparr>"
    have "bus_inv ?w" using bus_inv_push [OF Cons.prems q'(1)] by (simp add: bus_inv_def)
    from Cons.IH [OF this] obtain w' where w': "put_all q ms ?w = Inr w'" "bus_inv w'" "brok w' = brok ?w"
        "nextm w' = nextm ?w + length ms" "msgs w' = enlisted (nextm ?w) ms (msgs ?w)"
        "box w' = (box ?w)(q := box ?w q @ [nextm ?w..<nextm ?w + length ms])"
      by blast
    have "[nextm w..<nextm w + length (m # ms)] = nextm w # [Suc (nextm w)..<Suc (nextm w) + length ms]"
      by (simp add: upt_conv_Cons del: upt_Suc)
    then have "box w' = (box w)(q := box w q @ [nextm w..<nextm w + length (m # ms)])"
      unfolding w'(6) using q'(2) by (simp add: fun_eq_iff box_def del: upt_Suc)
    with w'(1-5) q'(1) show ?case by (simp add: enlisted_Cons fun_eq_iff del: upt_Suc)
  qed
  then show ?thesis using that by blast
qed

section \<open>The process\<close>

text \<open>
  A discovery component as the program sees it: its handlers (for what the daemon answers, an argument), what the event
  loop runs for it, the steps of its worker thread with whether the thread goes on, what it has sent, and whether it has stopped
  the event loop.
\<close>

record ('d, 'e) disc_part =
  op_handlers :: "'e \<Rightarrow> 'd handlers"
  op_io :: "'d \<Rightarrow> 'd result \<Rightarrow> bool"
  op_worker :: "'d \<Rightarrow> (bool \<times> 'd) result \<Rightarrow> bool"
  op_out :: "'d \<Rightarrow> BVMessage list"
  op_clear :: "'d \<Rightarrow> 'd"
  op_stopped :: "'d \<Rightarrow> bool"

text \<open>
  The parts \<open>main\<close> puts together. \<open>p_worker\<close>: the worker thread of discovery runs;
  \<open>p_disc_up\<close>, \<open>p_app_up\<close>: the mailbox threads run; the broker's thread runs while \<open>b_isRunning\<close>; \<open>p_crashed\<close>: an exception
  has left a thread, or a handler has faulted, which ends the process.
\<close>

record 'd process =
  p_bus :: bus
  p_disc :: 'd
  p_app :: app
  p_dc :: component
  p_ac :: component
  p_worker :: bool
  p_disc_up :: bool
  p_app_up :: bool
  p_crashed :: bool

text \<open>What the parts have sent goes into the queues: to the broker, and from sessions straight to the application.\<close>

definition settle :: "('d, 'e) disc_part \<Rightarrow> 'd process \<Rightarrow> 'd process result" where
  "settle ops p =
     rbind (put_all (comp_out (p_dc p)) (op_out ops (p_disc p)) (p_bus p)) (\<lambda>w.
     rbind (put_all (comp_out (p_ac p)) (outMail (p_app p)) w) (\<lambda>w.
     rbind (put_all (comp_in (p_ac p)) (appMail (mgr (p_app p))) w) (\<lambda>w.
       Inr (p\<lparr>p_bus := w, p_disc := op_clear ops (p_disc p),
              p_app := (p_app p)\<lparr>outMail := [], mgr := (mgr (p_app p))\<lparr>appMail := []\<rparr>\<rparr>\<rparr>))))"

text \<open>What the event loop runs for the application and its connections.\<close>

inductive app_io :: "app \<Rightarrow> app result \<Rightarrow> bool" where
  key: "stdinArmed a \<Longrightarrow> app_io a (stdin_handler env ec n c a)"
| posted: "app_io a (io_post_step env a)"
| received: "app_io a (rbind (io_read_step env r (arrive bs r (mgr a))) (\<lambda>h. Inr (a\<lparr>mgr := h\<rparr>)))"
| written: "app_io a (Inr (a\<lparr>mgr := io_write_step r (mgr a)\<rparr>))"
| connected: "r \<in> set (dialing (mgr a)) \<Longrightarrow> app_io a (rbind (ConnectHandler err ep k r (mgr a)) (\<lambda>h. Inr (a\<lparr>mgr := h\<rparr>)))"
| accepted: "app_io a (rbind (accept_handler now err k (mgr a)) (\<lambda>h. Inr (a\<lparr>mgr := h\<rparr>)))"

text \<open>Both parts stop the one event loop.\<close>

definition io_stopped :: "('d, 'e) disc_part \<Rightarrow> 'd process \<Rightarrow> bool" where
  "io_stopped ops p \<longleftrightarrow> op_stopped ops (p_disc p) \<or> ioStopped (p_app p)"

text \<open>The threads in any order: the broker's, the two mailbox threads, the worker thread of discovery, and \<open>main\<close> in the event loop.\<close>

datatype thread = Broker_Thread | Discovery_Mailbox | App_Mailbox | Worker_Thread | Event_Loop

inductive proc_step :: "('d, 'e) disc_part \<Rightarrow> thread \<Rightarrow> 'd process \<Rightarrow> 'd process \<Rightarrow> bool" for ops where
  broker: "\<not> p_crashed p \<Longrightarrow> b_isRunning (brok (p_bus p)) \<Longrightarrow> broker_step (p_bus p) = Some (Inr w) \<Longrightarrow>
    proc_step ops Broker_Thread p (p\<lparr>p_bus := w\<rparr>)"
| disc_mail: "\<not> p_crashed p \<Longrightarrow> p_disc_up p \<Longrightarrow>
    listen_step (op_handlers ops env) (p_dc p) (p_bus p, p_disc p) = Some (Inr (go, w, d)) \<Longrightarrow>
    settle ops (p\<lparr>p_bus := w, p_disc := d, p_disc_up := go\<rparr>) = Inr p' \<Longrightarrow> proc_step ops Discovery_Mailbox p p'"
| disc_crash: "\<not> p_crashed p \<Longrightarrow> p_disc_up p \<Longrightarrow>
    listen_step (op_handlers ops env) (p_dc p) (p_bus p, p_disc p) = Some (Inl e) \<Longrightarrow>
    proc_step ops Discovery_Mailbox p (p\<lparr>p_crashed := True\<rparr>)"
| app_mail: "\<not> p_crashed p \<Longrightarrow> p_app_up p \<Longrightarrow>
    listen_step (console_handlers aenv) (p_ac p) (p_bus p, p_app p) = Some (Inr (go, w, a)) \<Longrightarrow>
    settle ops (p\<lparr>p_bus := w, p_app := a, p_app_up := go\<rparr>) = Inr p' \<Longrightarrow> proc_step ops App_Mailbox p p'"
| app_crash: "\<not> p_crashed p \<Longrightarrow> p_app_up p \<Longrightarrow>
    listen_step (console_handlers aenv) (p_ac p) (p_bus p, p_app p) = Some (Inl e) \<Longrightarrow> proc_step ops App_Mailbox p (p\<lparr>p_crashed := True\<rparr>)"
| worker: "\<not> p_crashed p \<Longrightarrow> p_worker p \<Longrightarrow> op_worker ops (p_disc p) (Inr (go, d)) \<Longrightarrow>
    settle ops (p\<lparr>p_disc := d, p_worker := go\<rparr>) = Inr p' \<Longrightarrow> proc_step ops Worker_Thread p p'"
| worker_crash: "\<not> p_crashed p \<Longrightarrow> p_worker p \<Longrightarrow> op_worker ops (p_disc p) (Inl e) \<Longrightarrow>
    proc_step ops Worker_Thread p (p\<lparr>p_crashed := True\<rparr>)"
| disc_loop: "\<not> p_crashed p \<Longrightarrow> \<not> io_stopped ops p \<Longrightarrow> op_io ops (p_disc p) (Inr d) \<Longrightarrow>
    settle ops (p\<lparr>p_disc := d\<rparr>) = Inr p' \<Longrightarrow> proc_step ops Event_Loop p p'"
| app_loop: "\<not> p_crashed p \<Longrightarrow> \<not> io_stopped ops p \<Longrightarrow> app_io (p_app p) (Inr a) \<Longrightarrow>
    settle ops (p\<lparr>p_app := a\<rparr>) = Inr p' \<Longrightarrow> proc_step ops Event_Loop p p'"
| loop_crash: "\<not> p_crashed p \<Longrightarrow> \<not> io_stopped ops p \<Longrightarrow> op_io ops (p_disc p) (Inl e) \<or> app_io (p_app p) (Inl e) \<Longrightarrow>
    proc_step ops Event_Loop p (p\<lparr>p_crashed := True\<rparr>)"

inductive proc_run :: "('d, 'e) disc_part \<Rightarrow> thread list \<Rightarrow> 'd process \<Rightarrow> 'd process \<Rightarrow> bool" for ops where
  stays: "proc_run ops [] p p"
| goes: "proc_step ops t p q \<Longrightarrow> proc_run ops ts q r \<Longrightarrow> proc_run ops (t # ts) p r"

text \<open>
  \<open>main\<close> from the construction of the application on, without the log file: \<open>d\<close> is the discovery component and \<open>sd\<close> the
  data of the service. \<open>Inr None\<close> is \<open>exit (-1)\<close>.
\<close>

record run_env = start_env +
  me_app :: app_env

definition assemble :: "'z run_env_scheme \<Rightarrow> 'd \<Rightarrow> BVServiceData \<Rightarrow> 'd process option result" where
  "assemble env d sd =
     rbind (BVApp_ConsoleClient_ctor False (se_hard_fail env) (se_ec env) (se_results env) (se_fs env) sd) (\<lambda>a.
     rbind (StartAcceptingConnections (se_sockets env) (mgr a)) (\<lambda>(st, h).
       (case setup_broker (se_discovery env) (se_client env) new_bus of
          None \<Rightarrow> Inr None
        | Some (dc, ac, w) \<Rightarrow>
            rbind (app_Run (me_app env) (a\<lparr>mgr := h\<rparr>)) (\<lambda>a.
              Inr (Some \<lparr>p_bus = w, p_disc = d, p_app = a, p_dc = dc\<lparr>comp_listening := True\<rparr>,
                p_ac = ac\<lparr>comp_listening := True\<rparr>, p_worker = True, p_disc_up = True, p_app_up = True,
                p_crashed = False\<rparr>)))))"

text \<open>What \<open>main\<close> waits for when it joins the threads.\<close>

definition joined :: "'d process \<Rightarrow> bool" where
  "joined p \<longleftrightarrow> \<not> p_disc_up p \<and> \<not> p_worker p \<and> \<not> p_app_up p \<and> \<not> b_isRunning (brok (p_bus p))"

section \<open>The bus with its two components\<close>

definition wired :: "bus \<Rightarrow> component \<Rightarrow> component \<Rightarrow> bool" where
  "wired w dc ac \<longleftrightarrow>
     bus_inv w \<and> comp_id dc \<noteq> comp_id ac \<and> attached (brok w) = {comp_id dc, comp_id ac} \<and>
     slot (brok w) (comp_id dc) = Some (comp_in dc) \<and> slot (brok w) (comp_id ac) = Some (comp_in ac) \<and>
     comp_out dc = b_inMailBox (brok w) \<and> comp_out ac = b_inMailBox (brok w) \<and> comp_listening dc \<and> comp_listening ac \<and>
     (\<forall>e. set (subscribers (brok w) e) =
        (if e \<in> set discovery_events then {comp_id dc} else {}) \<union> (if e \<in> set app_events then {comp_id ac} else {}))"

definition transit :: "(BVMessage \<Rightarrow> bool) \<Rightarrow> bus \<Rightarrow> component \<Rightarrow> component \<Rightarrow> bool" where
  "transit T w dc ac \<longleftrightarrow>
     wired w dc ac \<and> mail_ok T (nextm w) (msgs w) (inbox w) (box w (comp_in dc)) (box w (comp_in ac))"

text \<open>A termination message is among these.\<close>

definition ended :: "(nat \<Rightarrow> BVMessage) \<Rightarrow> nat list \<Rightarrow> bool" where
  "ended f l \<longleftrightarrow> (\<exists>t \<in> set l. event_t (f t) = BVEVENTTYPE_TERMINATE_ALL)"

lemma wired_queues:
  assumes "wired w dc ac"
  shows "comp_in dc \<noteq> comp_in ac" "comp_in dc \<noteq> b_inMailBox (brok w)" "comp_in ac \<noteq> b_inMailBox (brok w)"
  using assms by (auto simp: wired_def bus_inv_def)

lemma wired_cong: "wired w dc ac \<Longrightarrow> bus_inv w' \<Longrightarrow> brok w' = brok w \<Longrightarrow> wired w' dc ac"
  by (simp add: wired_def)

lemma inbox_box: "inbox w = box w (b_inMailBox (brok w))"
  by (simp add: inbox_def box_def)

lemma ended_cong: "ended f l \<Longrightarrow> set l \<subseteq> set l' \<Longrightarrow> (\<And>k. k \<in> set l \<Longrightarrow> event_t (f' k) = event_t (f k)) \<Longrightarrow> ended f' l'"
  unfolding ended_def by (metis subsetD)

lemma ended_events: "\<forall>k. event_t (f' k) = event_t (f k) \<Longrightarrow> ended f' l = ended f l"
  by (simp add: ended_def)

lemma ended_Cons: "ended f (m # l) \<longleftrightarrow> event_t (f m) = BVEVENTTYPE_TERMINATE_ALL \<or> ended f l"
  by (auto simp: ended_def)

lemma ended_nonempty: "ended f l \<Longrightarrow> l \<noteq> []"
  by (auto simp: ended_def)

text \<open>\<open>w'\<close> is \<open>w\<close> with \<open>js\<close> behind the queue of the broker and \<open>ks\<close> behind the mailbox of the application.\<close>

definition more_mail :: "component \<Rightarrow> component \<Rightarrow> bus \<Rightarrow> nat list \<Rightarrow> nat list \<Rightarrow> bus \<Rightarrow> bool" where
  "more_mail dc ac w js ks w' \<longleftrightarrow>
     brok w' = brok w \<and> nextm w \<le> nextm w' \<and> (\<forall>k < nextm w. msgs w' k = msgs w k) \<and> inbox w' = inbox w @ js \<and>
     box w' (comp_in dc) = box w (comp_in dc) \<and> box w' (comp_in ac) = box w (comp_in ac) @ ks"

lemma more_mail_trans:
  "more_mail dc ac w js ks w1 \<Longrightarrow> more_mail dc ac w1 js' ks' w2 \<Longrightarrow> more_mail dc ac w (js @ js') (ks @ ks') w2"
  by (auto simp: more_mail_def)

lemma put_for_broker:
  assumes t: "transit T w dc ac" and ms: "\<forall>m \<in> set ms. T m"
  obtains js w' where "put_all (b_inMailBox (brok w)) ms w = Inr w'" "transit T w' dc ac" "more_mail dc ac w js [] w'"
    "\<forall>m \<in> set ms. \<exists>k \<in> set js. nextm w \<le> k \<and> k < nextm w' \<and> msgs w' k = m" "\<forall>k \<in> set js. k < nextm w' \<and> msgs w' k \<in> set ms"
proof -
  have w: "wired w dc ac" "bus_inv w" and ok: "mail_ok T (nextm w) (msgs w) (inbox w) (box w (comp_in dc)) (box w (comp_in ac))"
    using t by (simp_all add: transit_def wired_def)
  note q = wired_queues [OF w(1)]
  let ?i = "b_inMailBox (brok w)" and ?js = "[nextm w..<nextm w + length ms]"
  obtain w' where w': "put_all ?i ms w = Inr w'" "bus_inv w'" "brok w' = brok w" "nextm w' = nextm w + length ms"
      "msgs w' = enlisted (nextm w) ms (msgs w)" "box w' = (box w)(?i := box w ?i @ ?js)"
    by (rule put_all_ok [OF w(2)])
  have m: "more_mail dc ac w ?js [] w'" using q w'(3-6) by (simp add: more_mail_def inbox_box)
  have "\<exists>k \<in> set ?js. nextm w \<le> k \<and> k < nextm w' \<and> msgs w' k = x" if "x \<in> set ms" for x
  proof -
    from that obtain j where "j < length ms" "ms ! j = x" unfolding in_set_conv_nth by blast
    then show ?thesis by (intro bexI [of _ "nextm w + j"]) (simp_all add: w'(4,5) enlisted_def)
  qed
  moreover have "transit T w' dc ac"
    using mail_ok_enlisted(1) [OF ok ms] wired_cong [OF w(1) w'(2,3)] q w'(3-6) by (simp add: transit_def inbox_box)
  moreover have "\<forall>k \<in> set ?js. k < nextm w' \<and> msgs w' k \<in> set ms" using w'(4,5) by (simp add: enlisted_new)
  ultimately show ?thesis using that [OF w'(1) _ m] by blast
qed

lemma put_for_app:
  assumes t: "transit T w dc ac" and ms: "\<forall>m \<in> set ms. T m" "\<forall>m \<in> set ms. event_t m \<in> app_mail"
  obtains ks w' where "put_all (comp_in ac) ms w = Inr w'" "transit T w' dc ac" "more_mail dc ac w [] ks w'" "length ks = length ms"
proof -
  have w: "wired w dc ac" "bus_inv w" and ok: "mail_ok T (nextm w) (msgs w) (inbox w) (box w (comp_in dc)) (box w (comp_in ac))"
    using t by (simp_all add: transit_def wired_def)
  note q = wired_queues [OF w(1)]
  let ?a = "comp_in ac" and ?ks = "[nextm w..<nextm w + length ms]"
  obtain w' where w': "put_all ?a ms w = Inr w'" "bus_inv w'" "brok w' = brok w" "nextm w' = nextm w + length ms"
      "msgs w' = enlisted (nextm w) ms (msgs w)" "box w' = (box w)(?a := box w ?a @ ?ks)"
    by (rule put_all_ok [OF w(2)])
  have "more_mail dc ac w [] ?ks w'" using q w'(3-6) by (simp add: more_mail_def inbox_box)
  moreover have "transit T w' dc ac"
    using mail_ok_enlisted(2) [OF ok ms] wired_cong [OF w(1) w'(2,3)] q w'(3-6) by (simp add: transit_def inbox_box)
  ultimately show ?thesis using that [OF w'(1)] by simp
qed

lemma broker_step_waits: "bus_inv w \<Longrightarrow> inbox w = [] \<Longrightarrow> broker_step w = None"
  using wait_and_pop_blocks [of "queues w (b_inMailBox (brok w))"] by (simp add: broker_step_def inbox_def bus_inv_def)

lemma wired_mailbox: "wired w dc ac \<Longrightarrow> mailbox w (comp_id dc) = box w (comp_in dc) \<and> mailbox w (comp_id ac) = box w (comp_in ac)"
  by (simp add: wired_def mailbox_def box_def)

text \<open>One round of the broker.\<close>

lemma broker_round:
  assumes w: "wired w dc ac" and run: "b_isRunning (brok w)" and step: "broker_step w = Some (Inr w')"
  obtains m ms where "inbox w = m # ms" "inbox w' = ms" "wired w' dc ac" "msgs w' = msgs w" "nextm w' = nextm w"
    "box w' (comp_in dc) = box w (comp_in dc) @ (if event_t (msgs w m) \<in> set discovery_events then [m] else [])"
    "box w' (comp_in ac) = box w (comp_in ac) @ (if event_t (msgs w m) \<in> set app_events then [m] else [])"
    "b_isRunning (brok w') \<longleftrightarrow> event_t (msgs w m) \<noteq> BVEVENTTYPE_TERMINATE_ALL"
proof -
  have inv: "bus_inv w" using w by (simp add: wired_def)
  obtain m ms where m: "inbox w = m # ms" using broker_step_waits [OF inv] step by (cases "inbox w") auto
  obtain w1 where w1: "broker_step w = Some (Inr w1)" "bus_inv w1" "inbox w1 = ms" "msgs w1 = msgs w" "nextm w1 = nextm w"
      "slot (brok w1) = slot (brok w)" "subs_m (brok w1) = subs_m (brok w)" "b_inMailBox (brok w1) = b_inMailBox (brok w)"
      "b_isRunning (brok w1) \<longleftrightarrow> event_t (msgs w m) \<noteq> BVEVENTTYPE_TERMINATE_ALL"
      "\<And>sid. mailbox w1 sid = mailbox w sid @ (if subscribed w sid m then [m] else [])"
    by (rule broker_step_ok [OF inv run m]) iprover
  have w': "w' = w1" using step w1(1) by simp
  have wired': "wired w1 dc ac"
    using w w1(2,6-8) by (simp add: wired_def attached_def subscribers_def)
  have sub: "subscribed w (comp_id dc) m \<longleftrightarrow> event_t (msgs w m) \<in> set discovery_events"
      "subscribed w (comp_id ac) m \<longleftrightarrow> event_t (msgs w m) \<in> set app_events"
    using w by (auto simp: subscribed_def wired_def)
  show ?thesis
  proof (rule that [OF m])
    show "inbox w' = ms" "wired w' dc ac" "msgs w' = msgs w" "nextm w' = nextm w"
        "b_isRunning (brok w') \<longleftrightarrow> event_t (msgs w m) \<noteq> BVEVENTTYPE_TERMINATE_ALL"
      using w1 wired' by (simp_all add: w')
    show "box w' (comp_in dc) = box w (comp_in dc) @ (if event_t (msgs w m) \<in> set discovery_events then [m] else [])"
      "box w' (comp_in ac) = box w (comp_in ac) @ (if event_t (msgs w m) \<in> set app_events then [m] else [])"
      using w1(10) [of "comp_id dc"] w1(10) [of "comp_id ac"] wired_mailbox [OF w] wired_mailbox [OF wired'] sub by (simp_all add: w')
  qed
qed

lemma listen_step_result:
  assumes "bus_inv w" "listen_step cb c (w, s) = Some r"
  obtains m ms q where "box w (comp_in c) = m # ms" "tsq_inv q" "tsq_list q = ms"
    "r = dispatch_mail cb m (w\<lparr>queues := (queues w)(comp_in c := q)\<rparr>) s"
proof -
  have inv: "tsq_inv (queues w (comp_in c))" using assms(1) by (simp add: bus_inv_def)
  obtain m ms where m: "tsq_list (queues w (comp_in c)) = m # ms"
    using listen_step_waits [OF inv, of cb s] assms(2) by (cases "tsq_list (queues w (comp_in c))") auto
  obtain q where "tsq_inv q" "tsq_list q = ms" "listen_step cb c (w, s) = Some (dispatch_mail cb m (w\<lparr>queues := (queues w)(comp_in c := q)\<rparr>) s)"
    by (rule listen_step_message [OF inv m, of cb s])
  with m assms(2) show ?thesis using that by (simp add: box_def)
qed

text \<open>One message taken from a mailbox and handled.\<close>

lemma mail_round:
  assumes w: "wired w dc ac" "c \<in> {dc, ac}" and step: "listen_step cb c (w, s) = Some (Inr (go, w', s'))"
  obtains m ms f where "box w (comp_in c) = m # ms" "cb (event_t (msgs w m)) = Some f"
    "f (data_p (msgs w m)) s = Inr (BVSTATUS_OK, s')"
    "go \<longleftrightarrow> event_t (msgs w m) \<notin> {BVEVENTTYPE_TERMINATE_ALL, BVEVENTTYPE_TEST_REQUEST_SHUTDOWN}"
    "wired w' dc ac" "brok w' = brok w" "nextm w' = nextm w" "msgs w' = (msgs w)(m := (msgs w m)\<lparr>data_p := None\<rparr>)"
    "box w' = (box w)(comp_in c := ms)"
proof -
  have inv: "bus_inv w" using w by (simp add: wired_def)
  obtain m ms q where m: "box w (comp_in c) = m # ms" "tsq_inv q" "tsq_list q = ms"
      "Inr (go, w', s') = dispatch_mail cb m (w\<lparr>queues := (queues w)(comp_in c := q)\<rparr>) s"
    by (rule listen_step_result [OF inv step])
  from m(4) obtain f where f: "cb (event_t (msgs w m)) = Some f" "f (data_p (msgs w m)) s = Inr (BVSTATUS_OK, s')"
      "go \<longleftrightarrow> event_t (msgs w m) \<notin> {BVEVENTTYPE_TERMINATE_ALL, BVEVENTTYPE_TEST_REQUEST_SHUTDOWN}"
      "w' = w\<lparr>queues := (queues w)(comp_in c := q), msgs := (msgs w)(m := (msgs w m)\<lparr>data_p := None\<rparr>)\<rparr>"
    by (auto simp: dispatch_mail_def rbind_eq_Inr dest!: sym [of "Inr _"] split: option.splits if_splits)
  have "bus_inv w'" using inv m(2) by (simp add: f(4) bus_inv_def)
  then have "wired w' dc ac" by (rule wired_cong [OF w(1)]) (simp add: f(4))
  moreover have "box w' = (box w)(comp_in c := ms)" using m(3) by (auto simp: f(4) box_def)
  ultimately show ?thesis by (intro that [OF m(1) f(1-3)]) (simp_all add: f(4))
qed

lemma broker_round_transit:
  assumes t: "transit T w dc ac" and T: "\<And>m. T m \<Longrightarrow> typed_any m"
    and run: "b_isRunning (brok w)" and step: "broker_step w = Some (Inr w')"
  obtains m where "inbox w = m # inbox w'" "transit T w' dc ac" "msgs w' = msgs w"
    "box w' (comp_in dc) = box w (comp_in dc) @ (if event_t (msgs w m) \<in> set discovery_events then [m] else [])"
    "box w' (comp_in ac) = box w (comp_in ac) @ (if event_t (msgs w m) \<in> set app_events then [m] else [])"
    "b_isRunning (brok w') \<longleftrightarrow> event_t (msgs w m) \<noteq> BVEVENTTYPE_TERMINATE_ALL"
proof -
  have w: "wired w dc ac" and ok: "mail_ok T (nextm w) (msgs w) (inbox w) (box w (comp_in dc)) (box w (comp_in ac))"
    using t by (simp_all add: transit_def)
  obtain m ms where m: "inbox w = m # ms" "inbox w' = ms" "wired w' dc ac" "msgs w' = msgs w" "nextm w' = nextm w"
    "box w' (comp_in dc) = box w (comp_in dc) @ (if event_t (msgs w m) \<in> set discovery_events then [m] else [])"
    "box w' (comp_in ac) = box w (comp_in ac) @ (if event_t (msgs w m) \<in> set app_events then [m] else [])"
    "b_isRunning (brok w') \<longleftrightarrow> event_t (msgs w m) \<noteq> BVEVENTTYPE_TERMINATE_ALL"
    by (rule broker_round [OF w run step])
  have "mail_ok T (nextm w') (msgs w') (inbox w') (box w' (comp_in dc)) (box w' (comp_in ac))"
    unfolding m(2,4-7) by (rule mail_ok_route) (use ok m(1) T in simp_all)
  then have "transit T w' dc ac" using m(3) by (simp add: transit_def)
  then show ?thesis using that m(1,2,4,6-8) by simp
qed

lemma not_test: "BVEVENTTYPE_TEST_REQUEST_SHUTDOWN \<notin> set discovery_events" "BVEVENTTYPE_TEST_REQUEST_SHUTDOWN \<notin> app_mail"
  by (simp_all add: discovery_events_def app_mail_def app_events_def)

text \<open>What the handler of a component is given.\<close>

lemma mail_round_transit:
  assumes t: "transit T w dc ac" and c: "c = dc \<and> E = set discovery_events \<or> c = ac \<and> E = app_mail"
    and step: "listen_step cb c (w, s) = Some (Inr (go, w', s'))"
  obtains m f where "box w (comp_in c) = m # box w' (comp_in c)" "cb (event_t (msgs w m)) = Some f"
    "f (data_p (msgs w m)) s = Inr (BVSTATUS_OK, s')" "T (msgs w m)" "event_t (msgs w m) \<in> E"
    "go \<longleftrightarrow> event_t (msgs w m) \<noteq> BVEVENTTYPE_TERMINATE_ALL" "transit T w' dc ac" "brok w' = brok w" "inbox w' = inbox w"
    "\<forall>k. event_t (msgs w' k) = event_t (msgs w k)" "\<forall>q. q \<noteq> comp_in c \<longrightarrow> box w' q = box w q"
proof -
  have w: "wired w dc ac" and ok: "mail_ok T (nextm w) (msgs w) (inbox w) (box w (comp_in dc)) (box w (comp_in ac))"
    using t by (simp_all add: transit_def)
  note q = wired_queues [OF w]
  have dcac: "c \<in> {dc, ac}" using c by blast
  obtain m ms f where m: "box w (comp_in c) = m # ms" "cb (event_t (msgs w m)) = Some f"
    "f (data_p (msgs w m)) s = Inr (BVSTATUS_OK, s')"
    "go \<longleftrightarrow> event_t (msgs w m) \<notin> {BVEVENTTYPE_TERMINATE_ALL, BVEVENTTYPE_TEST_REQUEST_SHUTDOWN}"
    "wired w' dc ac" "brok w' = brok w" "nextm w' = nextm w" "msgs w' = (msgs w)(m := (msgs w m)\<lparr>data_p := None\<rparr>)"
    "box w' = (box w)(comp_in c := ms)"
    by (rule mail_round [OF w dcac step])
  have ev: "T (msgs w m)" "event_t (msgs w m) \<in> E" using ok m(1) c by (auto simp: mail_ok_def)
  have "go \<longleftrightarrow> event_t (msgs w m) \<noteq> BVEVENTTYPE_TERMINATE_ALL" using m(4) ev(2) c not_test by auto
  moreover have ib: "inbox w' = inbox w" using c q m(6) by (auto simp: inbox_box m(9))
  moreover have "mail_ok T (nextm w') (msgs w') (inbox w') (box w' (comp_in dc)) (box w' (comp_in ac))"
    unfolding m(7,8) by (rule mail_ok_taken) (use ok m(1) c q ib in \<open>auto simp: m(9)\<close>)
  ultimately show ?thesis
    using that [of m f] m ev by (simp add: transit_def)
qed

abbreviation dm :: "'d process \<Rightarrow> nat list" where "dm p \<equiv> box (p_bus p) (comp_in (p_dc p))"
abbreviation am :: "'d process \<Rightarrow> nat list" where "am p \<equiv> box (p_bus p) (comp_in (p_ac p))"
abbreviation up :: "'d process \<Rightarrow> bool" where "up p \<equiv> b_isRunning (brok (p_bus p))"
abbreviation pmsgs :: "'d process \<Rightarrow> nat \<Rightarrow> BVMessage" where "pmsgs p \<equiv> msgs (p_bus p)"

text \<open>The events waiting for discovery, in its mailbox or on the way to it.\<close>

definition waiting :: "'d process \<Rightarrow> BVEventType set" where
  "waiting p = (\<lambda>m. event_t (pmsgs p m)) ` (set (inbox (p_bus p)) \<union> set (dm p))"

text \<open>How many steps threads other than the worker can take once the application has ended, with one for the end of the worker.\<close>

definition quit_bound :: "'d process \<Rightarrow> nat" where
  "quit_bound p =
     (if up p then 3 * Suc (length (takeWhile (\<lambda>m. event_t (pmsgs p m) \<noteq> BVEVENTTYPE_TERMINATE_ALL) (inbox (p_bus p)))) else 0) +
     (if p_disc_up p then length (dm p) else 0) + (if p_app_up p then length (am p) else 0) +
     (if p_worker p then 1 else 0) + (if p_crashed p then 0 else 1)"

text \<open>What a step takes from it: nothing when the worker goes on.\<close>

definition cost :: "thread \<Rightarrow> 'd process \<Rightarrow> nat" where
  "cost t p = (if t = Worker_Thread \<and> p_worker p \<and> \<not> p_crashed p then 0 else 1)"

text \<open>
  Once the application has ended, a termination message is on its way to every thread that listens: in the queues, or among
  those that the application has just sent (\<open>said\<close>).
\<close>

definition ending :: "BVMessage set \<Rightarrow> 'd process \<Rightarrow> bool" where
  "ending said p \<longleftrightarrow>
     (\<not> up p \<longrightarrow> (p_disc_up p \<longrightarrow> ended (pmsgs p) (dm p)) \<and> (p_app_up p \<longrightarrow> ended (pmsgs p) (am p))) \<and>
     (\<not> isRunning (p_app p) \<longrightarrow>
        ioStopped (p_app p) \<and> (up p \<longrightarrow> ended (pmsgs p) (inbox (p_bus p)) \<or> mail BVEVENTTYPE_TERMINATE_ALL \<in> said))"

lemma ending_more:
  assumes e: "ending (set ms) p" and t: "transit T (p_bus p) (p_dc p) (p_ac p)"
    and w: "more_mail (p_dc p) (p_ac p) (p_bus p) js ks w" "\<forall>m \<in> set ms. \<exists>k \<in> set js. msgs w k = m"
    and p': "p_bus p' = w" "p_dc p' = p_dc p" "p_ac p' = p_ac p" "p_disc_up p' = p_disc_up p" "p_app_up p' = p_app_up p"
      "isRunning (p_app p') = isRunning (p_app p)" "ioStopped (p_app p') = ioStopped (p_app p)"
  shows "ending {} p'"
proof -
  have old: "k < nextm (p_bus p)" if "k \<in> set (inbox (p_bus p)) \<union> set (dm p) \<union> set (am p)" for k
    using t that by (auto simp: transit_def mail_ok_def)
  then have same: "msgs w k = pmsgs p k" if "k \<in> set (inbox (p_bus p)) \<union> set (dm p) \<union> set (am p)" for k
    using w(1) that by (simp add: more_mail_def)
  have more: "brok w = brok (p_bus p)" "inbox w = inbox (p_bus p) @ js" "box w (comp_in (p_dc p)) = dm p" "box w (comp_in (p_ac p)) = am p @ ks"
    using w(1) by (simp_all add: more_mail_def)
  have "ended (pmsgs p) (dm p) \<Longrightarrow> ended (msgs w) (dm p)" "ended (pmsgs p) (am p) \<Longrightarrow> ended (msgs w) (am p @ ks)"
    by (erule ended_cong; simp add: same)+
  moreover have "ended (msgs w) (inbox (p_bus p) @ js)"
    if "ended (pmsgs p) (inbox (p_bus p)) \<or> mail BVEVENTTYPE_TERMINATE_ALL \<in> set ms"
    using that
  proof
    assume "ended (pmsgs p) (inbox (p_bus p))"
    then show ?thesis by (rule ended_cong) (simp_all add: same)
  next
    assume "mail BVEVENTTYPE_TERMINATE_ALL \<in> set ms"
    then obtain k where "k \<in> set js" "msgs w k = mail BVEVENTTYPE_TERMINATE_ALL" using w(2) by blast
    then show ?thesis unfolding ended_def by (intro bexI [of _ k]) (simp_all add: mail_def)
  qed
  ultimately show ?thesis using e p' more by (auto simp: ending_def)
qed

lemma waiting_more:
  assumes t: "transit T (p_bus p) (p_dc p) (p_ac p)" and w: "more_mail (p_dc p) (p_ac p) (p_bus p) js ks w" "\<forall>k \<in> set js. msgs w k \<in> M"
    and p': "p_bus p' = w" "p_dc p' = p_dc p"
  shows "waiting p' \<subseteq> waiting p \<union> event_t ` M"
proof -
  have same: "msgs w k = pmsgs p k" if "k \<in> set (inbox (p_bus p)) \<union> set (dm p)" for k
    using t w(1) that by (auto simp: transit_def mail_ok_def more_mail_def)
  have "inbox w = inbox (p_bus p) @ js" "box w (comp_in (p_dc p)) = dm p" using w(1) by (simp_all add: more_mail_def)
  with same w(2) p' show ?thesis by (auto simp: waiting_def)
qed

lemma quit_bound_more:
  assumes t: "transit T (p_bus p) (p_dc p) (p_ac p)" and w: "more_mail (p_dc p) (p_ac p) (p_bus p) js [] w"
    and e: "up p \<Longrightarrow> ended (pmsgs p) (inbox (p_bus p))"
    and p': "p_bus p' = w" "p_dc p' = p_dc p" "p_ac p' = p_ac p" "p_disc_up p' = p_disc_up p" "p_app_up p' = p_app_up p"
      "p_worker p' = p_worker p" "p_crashed p' = p_crashed p"
  shows "quit_bound p' = quit_bound p"
proof -
  have same: "msgs w k = pmsgs p k" if "k \<in> set (inbox (p_bus p))" for k
    using t w that by (auto simp: transit_def mail_ok_def more_mail_def)
  have more: "brok w = brok (p_bus p)" "inbox w = inbox (p_bus p) @ js" "box w (comp_in (p_dc p)) = dm p" "box w (comp_in (p_ac p)) = am p"
    using w by (simp_all add: more_mail_def)
  have "takeWhile (\<lambda>m. event_t (msgs w m) \<noteq> BVEVENTTYPE_TERMINATE_ALL) (inbox w) =
      takeWhile (\<lambda>m. event_t (pmsgs p m) \<noteq> BVEVENTTYPE_TERMINATE_ALL) (inbox (p_bus p))" if up: "up p"
  proof -
    obtain t where t: "t \<in> set (inbox (p_bus p))" "event_t (pmsgs p t) = BVEVENTTYPE_TERMINATE_ALL"
      using e [OF up] by (auto simp: ended_def)
    have "takeWhile (\<lambda>m. event_t (msgs w m) \<noteq> BVEVENTTYPE_TERMINATE_ALL) (inbox w) =
        takeWhile (\<lambda>m. event_t (msgs w m) \<noteq> BVEVENTTYPE_TERMINATE_ALL) (inbox (p_bus p))"
      unfolding more(2) by (rule takeWhile_append1 [OF t(1)]) (use t same in simp)
    also have "\<dots> = takeWhile (\<lambda>m. event_t (pmsgs p m) \<noteq> BVEVENTTYPE_TERMINATE_ALL) (inbox (p_bus p))"
      by (rule takeWhile_cong) (simp_all add: same)
    finally show ?thesis .
  qed
  then show ?thesis using more p' by (simp add: quit_bound_def)
qed

lemma app_io_speaks:
  assumes "app_io a (Inr a')"
  shows "\<exists>ms. outMail a' = outMail a @ ms \<and> (\<forall>m \<in> set ms. typed m) \<and>
      (isRunning a' = isRunning a \<or> \<not> isRunning a' \<and> ioStopped a' \<and> mail BVEVENTTYPE_TERMINATE_ALL \<in> set ms)"
    "mails_grow (mgr a) (mgr a')" "ioStopped a \<Longrightarrow> ioStopped a'"
proof -
  have "(\<exists>ms. outMail a' = outMail a @ ms \<and> (\<forall>m \<in> set ms. typed m) \<and>
      (isRunning a' = isRunning a \<or> \<not> isRunning a' \<and> ioStopped a' \<and> mail BVEVENTTYPE_TERMINATE_ALL \<in> set ms)) \<and>
      mails_grow (mgr a) (mgr a') \<and> (ioStopped a \<longrightarrow> ioStopped a')"
    using assms
  proof cases
    case (key env ec n c)
    from key_talks [OF key(1) [symmetric]] show ?thesis by (simp add: talks_def)
  next
    case (posted env)
    from post_talks [OF posted [symmetric]] show ?thesis by (simp add: talks_def)
  next
    case (received env r bs)
    then obtain h where "io_read_step env r (arrive bs r (mgr a)) = Inr h" "a' = a\<lparr>mgr := h\<rparr>"
      by (auto simp: rbind_eq_Inr dest!: sym [of "Inr _"])
    then show ?thesis using read_step_mail [of env r "arrive bs r (mgr a)" h] by simp
  next
    case (connected r err ep k)
    then obtain h where "ConnectHandler err ep k r (mgr a) = Inr h" "a' = a\<lparr>mgr := h\<rparr>"
      by (auto simp: rbind_eq_Inr dest!: sym [of "Inr _"])
    then show ?thesis by (simp add: Connect_mail)
  next
    case (accepted now err k)
    then obtain h where "accept_handler now err k (mgr a) = Inr h" "a' = a\<lparr>mgr := h\<rparr>"
      by (auto simp: rbind_eq_Inr dest!: sym [of "Inr _"])
    then show ?thesis by (simp add: Accept_mail)
  qed simp
  then show "\<exists>ms. outMail a' = outMail a @ ms \<and> (\<forall>m \<in> set ms. typed m) \<and>
      (isRunning a' = isRunning a \<or> \<not> isRunning a' \<and> ioStopped a' \<and> mail BVEVENTTYPE_TERMINATE_ALL \<in> set ms)"
    "mails_grow (mgr a) (mgr a')" "ioStopped a \<Longrightarrow> ioStopped a'"
    by blast+
qed

section \<open>What the program needs of discovery\<close>

text \<open>
  \<open>T\<close> is what is known of the messages of this program, \<open>inv\<close> the invariant of the component: it is kept by the
  handlers, which send nothing, and by the worker thread and the event loop, which send messages of that kind.
\<close>

locale discovery_part =
  fixes ops :: "('d, 'e) disc_part" and T :: "BVMessage \<Rightarrow> bool" and inv :: "'d \<Rightarrow> bool"
  assumes typed_T: "typed m \<Longrightarrow> T m" and T_typed: "T m \<Longrightarrow> typed_any m"
    and handled: "op_handlers ops env (event_t m) = Some f \<Longrightarrow> f (data_p m) d = Inr (st, d') \<Longrightarrow> T m \<Longrightarrow> inv d \<Longrightarrow>
      inv d' \<and> op_out ops d' = op_out ops d"
    and looped: "op_io ops d (Inr d') \<Longrightarrow> inv d \<Longrightarrow> inv d' \<and> grows T (op_out ops d) (op_out ops d')"
    and worked: "op_worker ops d (Inr (go, d')) \<Longrightarrow> inv d \<Longrightarrow> inv d' \<and> grows T (op_out ops d) (op_out ops d')"
    and cleared: "inv d \<Longrightarrow> inv (op_clear ops d) \<and> op_out ops (op_clear ops d) = []"
begin

text \<open>The invariant of a state in which something may have been said that is not yet in the queues.\<close>

definition saying :: "'d process \<Rightarrow> bool" where
  "saying p \<longleftrightarrow>
     transit T (p_bus p) (p_dc p) (p_ac p) \<and> inv (p_disc p) \<and> (\<forall>m \<in> set (op_out ops (p_disc p)). T m) \<and>
     (\<forall>m \<in> set (outMail (p_app p)). T m) \<and> (\<forall>m \<in> set (appMail (mgr (p_app p))). from_peer m) \<and>
     ending (set (outMail (p_app p))) p"

definition prog_inv :: "'d process \<Rightarrow> bool" where
  "prog_inv p \<longleftrightarrow> saying p \<and> op_out ops (p_disc p) = [] \<and> outMail (p_app p) = [] \<and> appMail (mgr (p_app p)) = []"

lemma prog_invD:
  assumes "prog_inv p"
  shows "transit T (p_bus p) (p_dc p) (p_ac p)" "inv (p_disc p)" "ending {} p" "op_out ops (p_disc p) = []" "outMail (p_app p) = []"
    "appMail (mgr (p_app p)) = []"
  using assms by (auto simp: prog_inv_def saying_def)

text \<open>
  A step that keeps the invariant; after the end of the application it brings the end of the threads closer, unless the
  worker goes on.
\<close>

definition good_step :: "thread \<Rightarrow> 'd process \<Rightarrow> 'd process \<Rightarrow> bool" where
  "good_step t p p' \<longleftrightarrow> prog_inv p' \<and>
     (\<not> isRunning (p_app p) \<longrightarrow> \<not> isRunning (p_app p') \<and> quit_bound p' + cost t p' \<le> quit_bound p)"

lemma settled:
  assumes s: "saying p"
  obtains p' where "settle ops p = Inr p'" "prog_inv p'" "isRunning (p_app p') = isRunning (p_app p)" "cost t p' = cost t p"
    "waiting p' \<subseteq> waiting p \<union> event_t ` (set (op_out ops (p_disc p)) \<union> set (outMail (p_app p)))"
    "appMail (mgr (p_app p)) = [] \<Longrightarrow> (up p \<Longrightarrow> ended (pmsgs p) (inbox (p_bus p))) \<Longrightarrow> quit_bound p' = quit_bound p"
proof -
  let ?dc = "p_dc p" and ?ac = "p_ac p" and ?a = "p_app p"
  have t: "transit T (p_bus p) ?dc ?ac" and e: "ending (set (outMail ?a)) p" using s by (simp_all add: saying_def)
  have outs: "\<forall>m \<in> set (op_out ops (p_disc p)). T m" "\<forall>m \<in> set (outMail ?a). T m" using s by (simp_all add: saying_def)
  have peers: "\<forall>m \<in> set (appMail (mgr ?a)). T m" "\<forall>m \<in> set (appMail (mgr ?a)). event_t m \<in> app_mail"
    using s typed_T by (auto simp: saying_def from_peer_def app_mail_def app_events_def)
  have out: "comp_out ?dc = b_inMailBox (brok (p_bus p))" "comp_out ?ac = b_inMailBox (brok (p_bus p))"
    using t by (simp_all add: transit_def wired_def)
  obtain js1 w1 where w1: "put_all (b_inMailBox (brok (p_bus p))) (op_out ops (p_disc p)) (p_bus p) = Inr w1" "transit T w1 ?dc ?ac"
      "more_mail ?dc ?ac (p_bus p) js1 [] w1" "\<forall>k \<in> set js1. k < nextm w1 \<and> msgs w1 k \<in> set (op_out ops (p_disc p))"
    by (rule put_for_broker [OF t outs(1)])
  have b1: "brok w1 = brok (p_bus p)" using w1(3) by (simp add: more_mail_def)
  obtain js2 w2 where w2: "put_all (b_inMailBox (brok w1)) (outMail ?a) w1 = Inr w2" "transit T w2 ?dc ?ac" "more_mail ?dc ?ac w1 js2 [] w2"
      "\<forall>m \<in> set (outMail ?a). \<exists>k \<in> set js2. nextm w1 \<le> k \<and> k < nextm w2 \<and> msgs w2 k = m"
      "\<forall>k \<in> set js2. k < nextm w2 \<and> msgs w2 k \<in> set (outMail ?a)"
    by (rule put_for_broker [OF w1(2) outs(2)])
  obtain ks w3 where w3: "put_all (comp_in ?ac) (appMail (mgr ?a)) w2 = Inr w3" "transit T w3 ?dc ?ac" "more_mail ?dc ?ac w2 [] ks w3"
      "length ks = length (appMail (mgr ?a))"
    by (rule put_for_app [OF w2(2) peers])
  have more: "more_mail ?dc ?ac (p_bus p) (js1 @ js2) ks w3"
    using more_mail_trans [OF more_mail_trans [OF w1(3) w2(3)] w3(3)] by simp
  have sent: "\<forall>m \<in> set (outMail ?a). \<exists>k \<in> set (js1 @ js2). msgs w3 k = m"
    using w2(4) w3(3) by (fastforce simp: more_mail_def)
  have "\<forall>k \<in> set (js1 @ js2). msgs w3 k \<in> set (op_out ops (p_disc p)) \<union> set (outMail ?a)"
    using w1(3,4) w2(3,5) w3(3) by (auto simp: more_mail_def)
  note wait = waiting_more [OF t more this]
  define p' where "p' = p\<lparr>p_bus := w3, p_disc := op_clear ops (p_disc p), p_app := ?a\<lparr>outMail := [], mgr := (mgr ?a)\<lparr>appMail := []\<rparr>\<rparr>\<rparr>"
  have st: "settle ops p = Inr p'" using w1(1) w2(1) w3(1) b1 out by (simp add: settle_def p'_def)
  have "ending {} p'" by (rule ending_more [OF e t more sent]) (simp_all add: p'_def)
  then have "prog_inv p'" using w3(2) s cleared by (auto simp: prog_inv_def saying_def p'_def)
  moreover have "quit_bound p' = quit_bound p" if "appMail (mgr ?a) = []" "up p \<Longrightarrow> ended (pmsgs p) (inbox (p_bus p))"
    by (rule quit_bound_more [OF t _ that(2), where w = w3 and js = "js1 @ js2"]) (use more w3(4) that(1) in \<open>simp_all add: p'_def\<close>)
  ultimately show ?thesis using that [OF st] wait [of p'] by (simp add: p'_def cost_def)
qed

text \<open>What a step says is settled without delaying the end.\<close>

lemma settled_good:
  assumes s: "saying p1" and inv: "prog_inv p" and run: "\<not> isRunning (p_app p) \<Longrightarrow> \<not> isRunning (p_app p1)"
    and less: "\<not> isRunning (p_app p) \<Longrightarrow> appMail (mgr (p_app p1)) = [] \<and> (up p1 \<longrightarrow> ended (pmsgs p1) (inbox (p_bus p1))) \<and>
      quit_bound p1 + cost t p1 \<le> quit_bound p"
  shows "\<exists>p'. settle ops p1 = Inr p' \<and> good_step t p p'"
proof -
  obtain p' where p': "settle ops p1 = Inr p'" "prog_inv p'" "isRunning (p_app p') = isRunning (p_app p1)" "cost t p' = cost t p1"
    "waiting p' \<subseteq> waiting p1 \<union> event_t ` (set (op_out ops (p_disc p1)) \<union> set (outMail (p_app p1)))"
    "appMail (mgr (p_app p1)) = [] \<Longrightarrow> (up p1 \<Longrightarrow> ended (pmsgs p1) (inbox (p_bus p1))) \<Longrightarrow> quit_bound p' = quit_bound p1"
    by (rule settled [OF s]) iprover
  then show ?thesis using run less by (auto simp: good_step_def)
qed

lemma broker_good:
  assumes inv: "prog_inv p" and up: "up p" and step: "broker_step (p_bus p) = Some (Inr w)"
  shows "good_step Broker_Thread p (p\<lparr>p_bus := w\<rparr>)"
proof -
  note t = prog_invD(1) [OF inv]
  obtain m where m: "inbox (p_bus p) = m # inbox w" "transit T w (p_dc p) (p_ac p)" "msgs w = pmsgs p"
    "box w (comp_in (p_dc p)) = dm p @ (if event_t (pmsgs p m) \<in> set discovery_events then [m] else [])"
    "box w (comp_in (p_ac p)) = am p @ (if event_t (pmsgs p m) \<in> set app_events then [m] else [])"
    "b_isRunning (brok w) \<longleftrightarrow> event_t (pmsgs p m) \<noteq> BVEVENTTYPE_TERMINATE_ALL"
    by (rule broker_round_transit [OF t T_typed up step])
  have ev: "BVEVENTTYPE_TERMINATE_ALL \<in> set discovery_events" "BVEVENTTYPE_TERMINATE_ALL \<in> set app_events"
    by (simp_all add: discovery_events_def app_events_def)
  have "prog_inv (p\<lparr>p_bus := w\<rparr>)"
    using inv up m ev by (auto simp: prog_inv_def saying_def ending_def ended_def)
  moreover have "quit_bound (p\<lparr>p_bus := w\<rparr>) < quit_bound p" using up m by (auto simp: quit_bound_def)
  ultimately show ?thesis by (simp add: good_step_def cost_def)
qed

lemma settle_waits:
  assumes "saying p" "settle ops p = Inr p'"
  shows "waiting p' \<subseteq> waiting p \<union> event_t ` (set (op_out ops (p_disc p)) \<union> set (outMail (p_app p)))"
  by (rule settled [OF assms(1)]) (use assms(2) in auto)

text \<open>A mailbox thread has handled a message, and what it sends is not yet in the queues.\<close>

lemma disc_mail_said:
  assumes inv: "prog_inv p" and on: "p_disc_up p"
    and step: "listen_step (op_handlers ops env) (p_dc p) (p_bus p, p_disc p) = Some (Inr (go, w, d))"
    and p1: "p1 = p\<lparr>p_bus := w, p_disc := d, p_disc_up := go\<rparr>"
  obtains m f where "saying p1" "event_t m \<in> waiting p" "T m" "op_handlers ops env (event_t m) = Some f"
    "f (data_p m) (p_disc p) = Inr (BVSTATUS_OK, d)" "op_out ops d = []" "waiting p1 \<subseteq> waiting p"
    "go \<longleftrightarrow> event_t m \<noteq> BVEVENTTYPE_TERMINATE_ALL"
    "\<not> isRunning (p_app p) \<Longrightarrow> (up p1 \<longrightarrow> ended (pmsgs p1) (inbox (p_bus p1))) \<and> quit_bound p1 + 1 \<le> quit_bound p"
proof -
  note t = prog_invD(1) [OF inv]
  then have q: "comp_in (p_ac p) \<noteq> comp_in (p_dc p)" using wired_queues [of "p_bus p" "p_dc p" "p_ac p"] by (auto simp: transit_def)
  obtain m f where m: "dm p = m # box w (comp_in (p_dc p))" "op_handlers ops env (event_t (pmsgs p m)) = Some f"
    "f (data_p (pmsgs p m)) (p_disc p) = Inr (BVSTATUS_OK, d)" "T (pmsgs p m)" "event_t (pmsgs p m) \<in> set discovery_events"
    "go \<longleftrightarrow> event_t (pmsgs p m) \<noteq> BVEVENTTYPE_TERMINATE_ALL" "transit T w (p_dc p) (p_ac p)" "brok w = brok (p_bus p)" "inbox w = inbox (p_bus p)"
    "\<forall>k. event_t (msgs w k) = event_t (pmsgs p k)" "\<forall>q. q \<noteq> comp_in (p_dc p) \<longrightarrow> box w q = box (p_bus p) q"
    by (rule mail_round_transit [OF t disjI1 [OF conjI [OF refl refl]] step])
  have d: "inv d" "op_out ops d = []" using handled [OF m(2-4)] prog_invD [OF inv] by simp_all
  have am: "box w (comp_in (p_ac p)) = am p" using m(11) q by blast
  note e = prog_invD(3) [OF inv]
  have "ending {} p1" using e on m(6,8) am by (auto simp: p1 ending_def m(1,9) ended_Cons ended_events [OF m(10)])
  then have "saying p1" using prog_invD [OF inv] m(7) d by (simp add: p1 saying_def)
  then show ?thesis
  proof (rule that [OF _ _ m(4,2,3) d(2) _ m(6)])
    show "event_t (pmsgs p m) \<in> waiting p" "waiting p1 \<subseteq> waiting p" using m(1,9,10) by (auto simp: p1 waiting_def)
  qed (use e on m(1,8-10) am in \<open>simp add: p1 ending_def ended_events [OF m(10)] quit_bound_def\<close>)
qed

lemma app_mail_said:
  assumes inv: "prog_inv p" and on: "p_app_up p"
    and step: "listen_step (console_handlers env) (p_ac p) (p_bus p, p_app p) = Some (Inr (go, w, a))"
    and p1: "p1 = p\<lparr>p_bus := w, p_app := a, p_app_up := go\<rparr>"
  obtains "saying p1" "appMail (mgr a) = []" "waiting p1 \<subseteq> waiting p" "event_t ` set (outMail a) \<subseteq> {BVEVENTTYPE_DISCOVERY_REQUEST_RESOLVE}"
    "\<not> isRunning (p_app p) \<Longrightarrow> \<not> isRunning a \<and> (up p1 \<longrightarrow> ended (pmsgs p1) (inbox (p_bus p1))) \<and> quit_bound p1 + 1 \<le> quit_bound p"
proof -
  note t = prog_invD(1) [OF inv]
  then have q: "comp_in (p_dc p) \<noteq> comp_in (p_ac p)" using wired_queues [of "p_bus p" "p_dc p" "p_ac p"] by (auto simp: transit_def)
  obtain m f where m: "am p = m # box w (comp_in (p_ac p))" "console_handlers env (event_t (pmsgs p m)) = Some f"
    "f (data_p (pmsgs p m)) (p_app p) = Inr (BVSTATUS_OK, a)" "T (pmsgs p m)" "event_t (pmsgs p m) \<in> app_mail"
    "go \<longleftrightarrow> event_t (pmsgs p m) \<noteq> BVEVENTTYPE_TERMINATE_ALL" "transit T w (p_dc p) (p_ac p)" "brok w = brok (p_bus p)" "inbox w = inbox (p_bus p)"
    "\<forall>k. event_t (msgs w k) = event_t (pmsgs p k)" "\<forall>q. q \<noteq> comp_in (p_ac p) \<longrightarrow> box w q = box (p_bus p) q"
    by (rule mail_round_transit [OF t disjI2 [OF conjI [OF refl refl]] step])
  note e = prog_invD(3) [OF inv]
  have a: "\<forall>m \<in> set (outMail a). T m" "appMail (mgr a) = []"
      "\<not> isRunning a \<longrightarrow> ioStopped a \<and> (isRunning (p_app p) \<longrightarrow> mail BVEVENTTYPE_TERMINATE_ALL \<in> set (outMail a))"
      "\<not> isRunning (p_app p) \<longrightarrow> \<not> isRunning a"
    using message_talks [OF m(2,3) T_typed [OF m(4)]] e prog_invD(5,6) [OF inv] typed_T by (auto simp: talks_def ending_def)
  have asks: "event_t ` set (outMail a) \<subseteq> {BVEVENTTYPE_DISCOVERY_REQUEST_RESOLVE}"
    using message_asks [OF m(2,3)] prog_invD(5) [OF inv] by (auto simp: grows_def)
  have dm: "box w (comp_in (p_dc p)) = dm p" using m(11) q by blast
  have "ending (set (outMail a)) p1"
    using e on m(6,8) dm a(3,4) by (auto simp add: p1 ending_def m(1,9) ended_Cons ended_events [OF m(10)])
  then have "saying p1" using prog_invD [OF inv] m(7) a(1,2) by (simp add: p1 saying_def)
  then show ?thesis
  proof (rule that [OF _ a(2) _ asks])
    show "waiting p1 \<subseteq> waiting p" using m(9,10) dm by (auto simp: p1 waiting_def)
  qed (use e on a(4) m(1,8-10) dm in \<open>simp add: p1 ending_def ended_events [OF m(10)] quit_bound_def\<close>)
qed

lemma disc_mail_good:
  assumes inv: "prog_inv p" and on: "p_disc_up p"
    and step: "listen_step (op_handlers ops env) (p_dc p) (p_bus p, p_disc p) = Some (Inr (go, w, d))"
  shows "\<exists>p'. settle ops (p\<lparr>p_bus := w, p_disc := d, p_disc_up := go\<rparr>) = Inr p' \<and> good_step Discovery_Mailbox p p'"
  by (rule disc_mail_said [OF inv on step refl], rule settled_good [OF _ inv])
    (use prog_invD(6) [OF inv] in \<open>simp_all add: cost_def\<close>)

lemma app_mail_good:
  assumes inv: "prog_inv p" and on: "p_app_up p"
    and step: "listen_step (console_handlers env) (p_ac p) (p_bus p, p_app p) = Some (Inr (go, w, a))"
  shows "\<exists>p'. settle ops (p\<lparr>p_bus := w, p_app := a, p_app_up := go\<rparr>) = Inr p' \<and> good_step App_Mailbox p p'"
  by (rule app_mail_said [OF inv on step refl], rule settled_good [OF _ inv]) (simp_all add: cost_def)

lemma said_more:
  assumes inv: "prog_inv p" and run: "isRunning (p_app p)" and a: "app_io (p_app p) (Inr a)"
  shows "saying (p\<lparr>p_app := a\<rparr>)"
proof -
  obtain ms where ms: "outMail a = ms" "\<forall>m \<in> set ms. typed m"
      "isRunning a = isRunning (p_app p) \<or> \<not> isRunning a \<and> ioStopped a \<and> mail BVEVENTTYPE_TERMINATE_ALL \<in> set ms"
    using app_io_speaks(1) [OF a] prog_invD(5) [OF inv] by auto
  have "\<forall>m \<in> set (appMail (mgr a)). from_peer m"
    using app_io_speaks(2) [OF a] prog_invD(6) [OF inv] by (auto simp: grows_def)
  moreover have "ending (set ms) (p\<lparr>p_app := a\<rparr>)" using prog_invD(3) [OF inv] ms(3) run by (auto simp: ending_def)
  ultimately show ?thesis using prog_invD [OF inv] ms(1,2) typed_T by (simp add: saying_def)
qed

lemma disc_said_more:
  assumes inv: "prog_inv p" and d: "inv d" "grows T (op_out ops (p_disc p)) (op_out ops d)"
    and p1: "p1 = p\<lparr>p_disc := d, p_worker := go\<rparr>"
  shows "saying p1"
proof -
  have "\<forall>m \<in> set (op_out ops d). T m" using d(2) prog_invD(4) [OF inv] by (auto simp: grows_def)
  moreover have "ending {} p1" using prog_invD(3) [OF inv] by (simp add: p1 ending_def)
  ultimately show ?thesis using prog_invD [OF inv] d(1) by (simp add: p1 saying_def)
qed

lemma running:
  assumes "prog_inv p" "\<not> io_stopped ops p"
  shows "isRunning (p_app p)"
  using prog_invD(3) [OF assms(1)] assms(2) by (auto simp: ending_def io_stopped_def)

lemma crash_good: "prog_inv p \<Longrightarrow> \<not> p_crashed p \<Longrightarrow> good_step t p (p\<lparr>p_crashed := True\<rparr>)"
  by (auto simp: good_step_def prog_inv_def saying_def ending_def quit_bound_def cost_def)

lemma proc_step_good:
  assumes "proc_step ops t p p'" "prog_inv p"
  shows "good_step t p p'"
  using assms
proof (induction rule: proc_step.induct)
  case (broker p w)
  then show ?case by (intro broker_good)
next
  case (disc_mail p env go w d p')
  then show ?case using disc_mail_good [of p env go w d] by auto
next
  case (app_mail p aenv go w a p')
  then show ?case using app_mail_good [of p aenv go w a] by auto
next
  case (worker p go d p')
  have "saying (p\<lparr>p_disc := d, p_worker := go\<rparr>)"
    using worked [OF worker.hyps(3)] prog_invD(2) [OF worker.prems] by (intro disc_said_more [OF worker.prems]) auto
  then have "\<exists>p'. settle ops (p\<lparr>p_disc := d, p_worker := go\<rparr>) = Inr p' \<and> good_step Worker_Thread p p'"
    by (rule settled_good [OF _ worker.prems])
      (use worker.hyps(1,2) prog_invD(3,6) [OF worker.prems] in \<open>auto simp: ending_def quit_bound_def cost_def\<close>)
  then show ?case using worker.hyps(4) by auto
next
  case (disc_loop p d p')
  have run: "isRunning (p_app p)" by (rule running [OF disc_loop.prems disc_loop.hyps(2)])
  have "saying (p\<lparr>p_disc := d\<rparr>)"
    using looped [OF disc_loop.hyps(3)] prog_invD(2) [OF disc_loop.prems]
    by (intro disc_said_more [OF disc_loop.prems, where go = "p_worker p"]) auto
  then have "\<exists>p'. settle ops (p\<lparr>p_disc := d\<rparr>) = Inr p' \<and> good_step Event_Loop p p'"
    by (rule settled_good [OF _ disc_loop.prems]) (use run in auto)
  then show ?case using disc_loop.hyps(4) by auto
next
  case (app_loop p a p')
  have run: "isRunning (p_app p)" by (rule running [OF app_loop.prems app_loop.hyps(2)])
  have "\<exists>p'. settle ops (p\<lparr>p_app := a\<rparr>) = Inr p' \<and> good_step Event_Loop p p'"
    by (rule settled_good [OF said_more [OF app_loop.prems run app_loop.hyps(3)] app_loop.prems]) (use run in auto)
  then show ?case using app_loop.hyps(4) by auto
qed (auto intro: crash_good)

lemma proc_run_good:
  assumes "proc_run ops ts p p'" "prog_inv p"
  shows "prog_inv p' \<and> (\<not> isRunning (p_app p) \<longrightarrow> \<not> isRunning (p_app p') \<and>
    quit_bound p' + length (filter (\<lambda>t. t \<noteq> Worker_Thread) ts) \<le> quit_bound p)"
  using assms
proof (induction rule: proc_run.induct)
  case (goes t p q ts r)
  have "good_step t p q" by (rule proc_step_good [OF goes.hyps(1) goes.prems])
  with goes.IH show ?case by (auto simp: good_step_def cost_def)
qed simp

lemma assemble_inv:
  assumes "assemble env d sd = Inr (Some p)" "inv d" "op_out ops d = []"
  shows "prog_inv p"
proof -
  obtain dc ac w where up: "setup_broker (se_discovery env) (se_client env) new_bus = Some (dc, ac, w)"
      and p: "p_bus p = w" "p_dc p = dc\<lparr>comp_listening := True\<rparr>" "p_ac p = ac\<lparr>comp_listening := True\<rparr>"
        "p_disc p = d" "isRunning (p_app p)" "outMail (p_app p) = []" "appMail (mgr (p_app p)) = []"
    using assms(1)
    by (auto simp: assemble_def rbind_eq_Inr BVApp_ConsoleClient_ctor_def BVTCPConnectionManager_ctor_def app_Run_def
        StartAcceptingConnections_def Accept_def new_session_def StartStdinRead_def
        split: prod.splits option.splits if_splits dest!: Render_same same_but_stdout_fields)
  have "subs_m (brok new_bus) = []" "b_isRunning (brok new_bus)" "inbox new_bus = []"
    by (simp_all add: new_bus_def BVBroker_ctor_def inbox_def tsq_list_new)
  with setup_broker_wires [OF new_bus_inv new_bus_slot, of "se_discovery env" "se_client env"] up have
    w: "bus_inv w" "comp_id dc \<noteq> comp_id ac" "attached (brok w) = {comp_id dc, comp_id ac}" "b_isRunning (brok w)" "inbox w = []"
      "\<forall>e. set (subscribers (brok w) e) =
        (if e \<in> set discovery_events then {comp_id dc} else {}) \<union> (if e \<in> set app_events then {comp_id ac} else {})"
      "connected_to (se_discovery env) dc w" "connected_to (se_client env) ac w"
    by auto
  have "wired (p_bus p) (p_dc p) (p_ac p)" using w by (simp add: p wired_def connected_to_def)
  moreover have "box w (comp_in dc) = []" "box w (comp_in ac) = []" using w(7,8) by (auto simp: connected_to_def mailbox_def box_def)
  ultimately show ?thesis
    using w(4,5) p assms(2,3) by (simp add: prog_inv_def saying_def transit_def mail_ok_def ending_def)
qed

text \<open>After the end of the application, a thread that has not ended can go on.\<close>

lemma mailbox_goes_on:
  assumes inv: "prog_inv p" and c: "c \<in> {p_dc p, p_ac p}" and t: "ended (pmsgs p) (box (p_bus p) (comp_in c))"
  obtains r where "listen_step cb c (p_bus p, s) = Some r"
proof -
  have bus: "bus_inv (p_bus p)" using prog_invD(1) [OF inv] by (simp add: transit_def wired_def)
  obtain m ms where "tsq_list (queues (p_bus p) (comp_in c)) = m # ms"
    using ended_nonempty [OF t] by (auto simp: box_def neq_Nil_conv)
  then show ?thesis using that listen_step_message [of "p_bus p" c] bus by (metis bus_inv_def)
qed

lemma disc_goes_on:
  assumes inv: "prog_inv p" and on: "p_disc_up p" "\<not> p_crashed p" and t: "ended (pmsgs p) (dm p)"
  shows "\<exists>q. proc_step ops Discovery_Mailbox p q"
proof -
  obtain r where r: "listen_step (op_handlers ops undefined) (p_dc p) (p_bus p, p_disc p) = Some r"
    by (rule mailbox_goes_on [OF inv _ t]) simp_all
  show ?thesis
  proof (cases r)
    case (Inl e)
    then show ?thesis using proc_step.disc_crash [OF on(2,1), of ops undefined e] r by blast
  next
    case (Inr x)
    then obtain go w d where "listen_step (op_handlers ops undefined) (p_dc p) (p_bus p, p_disc p) = Some (Inr (go, w, d))"
      using r by (cases x) simp
    from disc_mail_good [OF inv on(1) this] proc_step.disc_mail [OF on(2,1) this] show ?thesis by blast
  qed
qed

lemma app_goes_on:
  assumes inv: "prog_inv p" and on: "p_app_up p" "\<not> p_crashed p" and t: "ended (pmsgs p) (am p)"
  shows "\<exists>q. proc_step ops App_Mailbox p q"
proof -
  obtain r where r: "listen_step (console_handlers undefined) (p_ac p) (p_bus p, p_app p) = Some r"
    by (rule mailbox_goes_on [OF inv _ t]) simp_all
  show ?thesis
  proof (cases r)
    case (Inl e)
    then show ?thesis using proc_step.app_crash [OF on(2,1), of undefined e ops] r by blast
  next
    case (Inr x)
    then obtain go w a where "listen_step (console_handlers undefined) (p_ac p) (p_bus p, p_app p) = Some (Inr (go, w, a))"
      using r by (cases x) simp
    from app_mail_good [OF inv on(1) this] proc_step.app_mail [OF on(2,1) this] show ?thesis by blast
  qed
qed

lemma others_go_on:
  assumes inv: "prog_inv p" and quit: "\<not> isRunning (p_app p)" and more: "\<not> p_crashed p" "up p \<or> p_disc_up p \<or> p_app_up p"
  shows "\<exists>t q. t \<noteq> Worker_Thread \<and> proc_step ops t p q"
proof (cases "up p")
  case True
  have bus: "bus_inv (p_bus p)" using prog_invD(1) [OF inv] by (simp add: transit_def wired_def)
  have "inbox (p_bus p) \<noteq> []" using prog_invD(3) [OF inv] quit True ended_nonempty by (auto simp: ending_def)
  then obtain m ms where m: "inbox (p_bus p) = m # ms" by (auto simp: neq_Nil_conv)
  obtain w where "broker_step (p_bus p) = Some (Inr w)" by (rule broker_step_ok [OF bus True m])
  then show ?thesis using proc_step.broker [OF more(1) True] by blast
next
  case False
  then have "p_disc_up p \<Longrightarrow> ended (pmsgs p) (dm p)" "p_app_up p \<Longrightarrow> ended (pmsgs p) (am p)"
    using prog_invD(3) [OF inv] by (simp_all add: ending_def)
  then show ?thesis using False more disc_goes_on [OF inv] app_goes_on [OF inv] by blast
qed

lemma teardown: "prog_inv p \<Longrightarrow> \<exists>w. teardown_broker (p_dc p) (p_ac p) (p_bus p) = Some w"
  using teardown_broker_frees [of "p_bus p" "p_dc p" "p_ac p"] prog_invD(1)
  by (fastforce simp: transit_def wired_def bus_inv_def)

text \<open>The messages on which a mailbox thread can be left by an exception.\<close>

lemma head_message:
  assumes inv: "prog_inv p" and c: "c = p_dc p \<and> E = set discovery_events \<or> c = p_ac p \<and> E = app_mail"
    and step: "listen_step cb c (p_bus p, s) = Some (Inl e)"
  obtains m ms where "box (p_bus p) (comp_in c) = m # ms" "T (pmsgs p m)" "event_t (pmsgs p m) \<in> E"
    "\<forall>f s'. cb (event_t (pmsgs p m)) = Some f \<longrightarrow> f (data_p (pmsgs p m)) s \<noteq> Inr (BVSTATUS_OK, s')"
proof -
  have bus: "bus_inv (p_bus p)" and ok: "mail_ok T (nextm (p_bus p)) (pmsgs p) (inbox (p_bus p)) (dm p) (am p)"
    using prog_invD(1) [OF inv] by (simp_all add: transit_def wired_def)
  obtain m ms q where m: "box (p_bus p) (comp_in c) = m # ms"
      "Inl e = dispatch_mail cb m ((p_bus p)\<lparr>queues := (queues (p_bus p))(comp_in c := q)\<rparr>) s"
    by (rule listen_step_result [OF bus step]) blast
  moreover have "T (pmsgs p m)" "event_t (pmsgs p m) \<in> E" using ok m(1) c by (auto simp: mail_ok_def)
  moreover have "\<forall>f s'. cb (event_t (pmsgs p m)) = Some f \<longrightarrow> f (data_p (pmsgs p m)) s \<noteq> Inr (BVSTATUS_OK, s')"
    using m(2) by (auto simp: dispatch_mail_def)
  ultimately show ?thesis using that by blast
qed

lemma app_refuses:
  assumes inv: "prog_inv p" and step: "listen_step (console_handlers aenv) (p_ac p) (p_bus p, p_app p) = Some (Inl e)"
  shows "event_t (pmsgs p (hd (am p))) \<in> {BVEVENTTYPE_APP_DISCOVERY_SERVICE_RESOLVED, BVEVENTTYPE_APP_FILE_TRANSFER_BEGIN,
     BVEVENTTYPE_APP_FILE_TRANSFER_CHUNK_SENT, BVEVENTTYPE_APP_FILE_TRANSFER_END}"
proof -
  obtain m ms where m: "am p = m # ms" "T (pmsgs p m)" "event_t (pmsgs p m) \<in> app_mail"
      "\<forall>f s'. console_handlers aenv (event_t (pmsgs p m)) = Some f \<longrightarrow> f (data_p (pmsgs p m)) (p_app p) \<noteq> Inr (BVSTATUS_OK, s')"
    by (rule head_message [OF inv disjI2 [OF conjI [OF refl refl]] step])
  then obtain f where f: "console_handlers aenv (event_t (pmsgs p m)) = Some f"
    by (auto simp: app_mail_def app_events_def console_handlers_def console_callbacks_def)
  then have "event_t (pmsgs p m) \<notin> app_robust" using robust_message_handled [OF T_typed [OF m(2)] _ f] m(4) by blast
  then show ?thesis using m(1,3) by (auto simp: app_mail_def app_events_def app_robust_def)
qed

lemma mail_T: "prog_inv p \<Longrightarrow> m \<in> set (inbox (p_bus p)) \<union> set (dm p) \<union> set (am p) \<Longrightarrow> T (pmsgs p m)"
  using prog_invD(1) by (auto simp: transit_def mail_ok_def)

end

section \<open>A worker thread that ends by itself\<close>

text \<open>A worker that makes one step only cannot keep the program from ending.\<close>

locale one_shot_worker = discovery_part +
  assumes worker_once: "op_worker ops d (Inr (go, d')) \<Longrightarrow> \<not> go"
    and worker_runs: "inv d \<Longrightarrow> op_out ops d = [] \<Longrightarrow> \<exists>d'. op_worker ops d (Inr (False, d'))"
begin

lemma worker_ended: "proc_step ops Worker_Thread p p' \<Longrightarrow> \<not> p_worker p' \<or> p_crashed p'"
  by (erule proc_step.cases) (auto simp: settle_def rbind_eq_Inr dest: worker_once)

lemma closer:
  assumes "proc_step ops t p p'" "prog_inv p" "\<not> isRunning (p_app p)"
  shows "prog_inv p' \<and> \<not> isRunning (p_app p') \<and> quit_bound p' < quit_bound p"
proof -
  have "cost t p' = 1" using assms(1) worker_ended [of p p'] by (cases t) (auto simp: cost_def)
  then show ?thesis using proc_step_good [OF assms(1,2)] assms(3) by (simp add: good_step_def)
qed

lemma run_bounded:
  assumes "proc_run ops ts p p'" "prog_inv p" "\<not> isRunning (p_app p)"
  shows "prog_inv p' \<and> \<not> isRunning (p_app p') \<and> length ts + quit_bound p' \<le> quit_bound p"
  using assms
proof (induction rule: proc_run.induct)
  case (goes t p q ts r)
  from closer [OF goes.hyps(1) goes.prems] goes.IH show ?case by auto
qed simp

lemma goes_on:
  assumes inv: "prog_inv p" and quit: "\<not> isRunning (p_app p)" and more: "\<not> p_crashed p" "\<not> joined p"
  shows "\<exists>t q. proc_step ops t p q"
proof (cases "p_worker p")
  case True
  obtain d where d: "op_worker ops (p_disc p) (Inr (False, d))" using worker_runs prog_invD(2,4) [OF inv] by blast
  have "saying (p\<lparr>p_disc := d, p_worker := False\<rparr>)"
    using worked [OF d] prog_invD(2) [OF inv] by (intro disc_said_more [OF inv]) auto
  then obtain p' where "settle ops (p\<lparr>p_disc := d, p_worker := False\<rparr>) = Inr p'" by (rule settled)
  then show ?thesis using proc_step.worker [OF more(1) True d] by blast
next
  case False
  then show ?thesis using others_go_on [OF inv quit more(1)] more(2) by (auto simp: joined_def)
qed

lemma finishes:
  assumes "prog_inv p" "\<not> isRunning (p_app p)"
  shows "\<exists>ts q. proc_run ops ts p q \<and> (p_crashed q \<or> joined q)"
  using assms
proof (induction "quit_bound p" arbitrary: p rule: less_induct)
  case less
  show ?case
  proof (cases "p_crashed p \<or> joined p")
    case False
    then obtain t p1 where p1: "proc_step ops t p p1" using goes_on [OF less.prems] by blast
    from closer [OF p1 less.prems] less.hyps obtain ts q where "proc_run ops ts p1 q" "p_crashed q \<or> joined q" by blast
    with proc_run.goes [OF p1] show ?thesis by blast
  qed (use proc_run.stays in blast)
qed

end

end
