(* ===== verification/Program_Run.thy ===== *)
theory Program_Run
  imports Process
begin

text \<open>
  The program as \<open>src/main.cpp\<close> builds it on macOS: registration and discovery with Bonjour, and the process of
  \<open>Process\<close> with the discovery component of \<open>Discovery\<close>. Its worker thread only starts the browsing, so that quitting
  ends every thread.
\<close>

section \<open>The discovery component\<close>

definition bonjour_part :: "(discovery, disc_env) disc_part" where
  "bonjour_part = \<lparr>op_handlers = discovery_handlers, op_io = disc_io,
     op_worker = (\<lambda>d r. \<exists>fd ec. r = Inr (False, Browse fd ec d)), op_out = d_out, op_clear = (\<lambda>d. d\<lparr>d_out := []\<rparr>),
     op_stopped = d_stopped\<rparr>"

lemma bonjour_part_simps [simp]:
  "op_handlers bonjour_part = discovery_handlers" "op_io bonjour_part = disc_io" "op_out bonjour_part = d_out"
  "op_worker bonjour_part d r \<longleftrightarrow> (\<exists>fd ec. r = Inr (False, Browse fd ec d))" "op_clear bonjour_part d = d\<lparr>d_out := []\<rparr>"
  "op_stopped bonjour_part = d_stopped"
  by (simp_all add: bonjour_part_def)

interpretation bonjour: one_shot_worker bonjour_part typed disc_inv
proof (unfold_locales, goal_cases)
  case (2 m)
  then show ?case by (rule typed_typed_any)
next
  case (3 env m f d st d')
  then show ?case using disc_message [of env m f d st d'] typed_typed_any by auto
next
  case (4 d d')
  then show ?case using disc_io_sends [of d d'] by simp
next
  case (5 d go d')
  then show ?case using disc_step_inv [OF disc_step.browse] by (auto simp: Browse_def)
next
  case (6 d)
  then show ?case by (simp add: disc_inv_def)
qed auto

text \<open>
  \<open>main\<close> up to the event loop on macOS, without the version query and the log file. \<open>Inr None\<close> is \<open>exit (-1)\<close>.
\<close>

record main_env = run_env +
  me_browse :: int

definition main_start :: "main_env \<Rightarrow> discovery process option result" where
  "main_start env =
     (case Register (se_error env) (se_processed env) (se_replies env) False
         (BVService_ctor (se_hostname env) (str ''local.'') PORT) of
        (status, replyError, service) \<Rightarrow>
          (if status \<noteq> BVSTATUS_OK then Inr None
           else (let sd = GetHostData service in assemble env (BVDiscovery_Bonjour_ctor (me_browse env) sd) sd)))"

inductive proc_reach :: "discovery process \<Rightarrow> bool" where
  started: "main_start env = Inr (Some p) \<Longrightarrow> proc_reach p"
| stepped: "proc_reach p \<Longrightarrow> proc_step bonjour_part t p p' \<Longrightarrow> proc_reach p'"

lemma proc_reach_inv: "proc_reach p \<Longrightarrow> bonjour.prog_inv p"
proof (induction rule: proc_reach.induct)
  case (started env p)
  then obtain sd where "assemble env (BVDiscovery_Bonjour_ctor (me_browse env) sd) sd = Inr (Some p)"
    by (auto simp: main_start_def Let_def split: prod.splits if_splits)
  then show ?case
    by (rule bonjour.assemble_inv)
      (use disc_inv_ctor in \<open>auto simp: BVDiscovery_Bonjour_ctor_def Setup_def CreateConnectionContext_def\<close>)
next
  case (stepped p t p')
  then show ?case using bonjour.proc_step_good by (simp add: bonjour.good_step_def)
qed

section \<open>Properties\<close>


text \<open>C5: once the user has quit, however the threads are scheduled, they take at most \<open>quit_bound\<close> more steps; when none can take a step, an exception has ended the process or every thread that \<open>main\<close> joins has ended and the components are detached, and from everywhere this is reached.\<close>

theorem quitting_ends_program:
  assumes "proc_reach p" "\<not> isRunning (p_app p)" "proc_run bonjour_part ts p p'"
  shows "length ts \<le> quit_bound p \<and>
    ((\<exists>t q. proc_step bonjour_part t p' q) \<or> p_crashed p' \<or>
       joined p' \<and> (\<exists>w. teardown_broker (p_dc p') (p_ac p') (p_bus p') = Some w)) \<and>
    (\<exists>us q. proc_run bonjour_part us p' q \<and> (p_crashed q \<or> joined q))"
proof -
  have p': "bonjour.prog_inv p'" "\<not> isRunning (p_app p')" "length ts \<le> quit_bound p"
    using bonjour.run_bounded [OF assms(3) proc_reach_inv [OF assms(1)] assms(2)] by auto
  show ?thesis using bonjour.goes_on [OF p'(1,2)] bonjour.finishes [OF p'(1,2)] bonjour.teardown [OF p'(1)] p'(3) by blast
qed

section \<open>A concrete run\<close>

definition example_main :: main_env where
  "example_main = \<lparr>se_hostname = str ''alice'', se_error = 0, se_processed = 0, se_replies = [0], se_hard_fail = False,
     se_ec = False, se_results = [], se_sockets = [True, True, True, True, True], se_fs = example_fs,
     se_discovery = example_part, se_client = example_part, me_app = example_app_env, me_browse = 0\<rparr>"

lemma example_main_starts:
  "\<exists>p. main_start example_main = Inr (Some p) \<and> stdinArmed (p_app p) \<and> uiState (p_app p) = MainMenu \<and> \<not> io_stopped bonjour_part p \<and> \<not> p_crashed p"
proof -
  have "subs_m (brok new_bus) = []" by (simp add: new_bus_def BVBroker_ctor_def)
  with setup_broker_wires [OF new_bus_inv new_bus_slot, of example_part example_part]
  obtain dc ac w where w: "setup_broker example_part example_part new_bus = Some (dc, ac, w)" by blast
  have u: "uiState (PrintAll b) = uiState b" "ioStopped (PrintAll b) = ioStopped b" for b by simp_all
  show ?thesis
    by (simp add: main_start_def assemble_def example_main_def Register_ok BVApp_ConsoleClient_ctor_def BVTCPConnectionManager_ctor_def
        StartAcceptingConnections_def w app_Run_def Render_def StartStdinRead_def io_stopped_def u
        BVDiscovery_Bonjour_ctor_def Setup_def CreateConnectionContext_def Let_def)
qed

lemma example_quits: "\<exists>p. proc_reach p \<and> \<not> isRunning (p_app p)"
proof -
  obtain p where p: "main_start example_main = Inr (Some p)" "stdinArmed (p_app p)" "uiState (p_app p) = MainMenu"
      "\<not> io_stopped bonjour_part p" "\<not> p_crashed p"
    using example_main_starts by blast
  have r: "proc_reach p" by (rule proc_reach.started [OF p(1)])
  note inv = proc_reach_inv [OF r]
  obtain a where a: "stdin_handler example_app_env False 1 113 (p_app p) = Inr a" "\<not> isRunning a"
    using p(3) by (simp add: stdin_handler_def OnKey_def HandleMainMenuKey_def ParseConsoleActionFromKey_def tolower_def
        StopIOContext_def app_SendMessage_def Let_def)
  have io: "app_io (p_app p) (Inr a)" using app_io.key [OF p(2), of example_app_env False 1 113] a(1) by simp
  obtain p' where p': "settle bonjour_part (p\<lparr>p_app := a\<rparr>) = Inr p'"
    by (rule bonjour.settled [OF bonjour.said_more [OF inv bonjour.running [OF inv p(4)] io]])
  have "proc_reach p'" by (rule proc_reach.stepped [OF r proc_step.app_loop [OF p(5,4) io p']])
  moreover have "\<not> isRunning (p_app p')" using p' a(2) by (auto simp: settle_def rbind_eq_Inr)
  ultimately show ?thesis by blast
qed


theorem quitting_ends_program_witness:
  "\<exists>p us q. proc_reach p \<and> \<not> isRunning (p_app p) \<and> proc_run bonjour_part us p q \<and> (p_crashed q \<or> joined q)"
proof -
  obtain p where p: "proc_reach p" "\<not> isRunning (p_app p)" using example_quits by blast
  from quitting_ends_program [OF p proc_run.stays] p show ?thesis by blast
qed

end
