(* ===== verification/Avahi_Discovery.thy ===== *)
theory Avahi_Discovery
  imports Discovery
begin

unbundle bit_operations_syntax

text \<open>
  Service discovery with Avahi: the callbacks of \<open>src/avahi_api.c\<close> with the bridge that calls back into the
  component, and \<open>src/BVDiscovery_Avahi.cpp\<close> with its worker thread, which waits while browsing is paused. The C
  list and the layout of its elements are those of \<open>Discovery\<close>.
\<close>

section \<open>Data\<close>

text \<open>The events of the browser, and the resolver's answer: the address as text and the text record.\<close>

datatype browser_event = AVAHI_BROWSER_FAILURE | AVAHI_BROWSER_NEW | AVAHI_BROWSER_REMOVE | AVAHI_BROWSER_ALL_FOR_NOW | AVAHI_BROWSER_CACHE_EXHAUSTED

record avahi_reply =
  ar_event :: browser_event
  ar_name :: bytes
  ar_type :: bytes
  ar_domain :: bytes

text \<open>
  Where the worker thread is: before its first step, in its loop, in \<open>Pause\<close>, or at its end; an exception ends the program. In
  \<open>Pause\<close> it is about to test \<open>isPaused\<close> (\<open>In_Pause\<close>), has found it set and not yet begun to wait (\<open>Blocking\<close>), or waits for the
  condition variable (\<open>Waiting\<close>); \<open>OnResume\<close> does not take the mutex, so that it can come in between.
\<close>

datatype worker = Starting | In_Loop | In_Pause | Blocking | Waiting | Ended | Threw

record avahi =
  av_ll :: LinkedList_str
  av_mem :: ll_mem
  av_hostData :: BVServiceData
  av_active :: bool
  isPaused :: bool
  av_quit :: bool
  av_resolving :: "bytes list"
  av_out :: "BVMessage list"
  av_worker :: worker

section \<open>Callbacks\<close>

text \<open>\<open>OnServiceFound\<close> and \<open>OnServiceRemoved\<close>: the list goes to the application and is cleared.\<close>

definition report_list :: "BVEventType \<Rightarrow> avahi \<Rightarrow> avahi result option" where
  "report_list e d =
     lbind (ReturnListFromBrowseResults (av_ll d) (av_mem d)) (\<lambda>l.
     lbind (LinkedList_str_ClearList (av_ll d) (av_mem d)) (\<lambda>(ll, m).
       Some (Inr (d\<lparr>av_ll := ll, av_mem := m, av_out := av_out d @ [\<lparr>event_t = e, data_p = Some (Any_BrowseList l)\<rparr>]\<rparr>))))"

definition OnServiceFound :: "avahi \<Rightarrow> avahi result option" where
  "OnServiceFound = report_list BVEVENTTYPE_APP_PUBLISHED_SERVICE"

definition OnServiceRemoved :: "avahi \<Rightarrow> avahi result option" where
  "OnServiceRemoved = report_list BVEVENTTYPE_APP_DEREGISTERED_SERVICE"

definition add_service :: "avahi_reply \<Rightarrow> avahi \<Rightarrow> avahi result option" where
  "add_service r d =
     (case LinkedListElement_str_Constructor (Some (service_buff (ar_name r) (ar_type r) (ar_domain r))) None (av_mem d) of
        Inl e \<Rightarrow> Some (Inl e)
      | Inr (lle, m) \<Rightarrow>
          lbind (LinkedList_str_AddElement (av_ll d) lle m) (\<lambda>(ll, m). Some (Inr (d\<lparr>av_ll := ll, av_mem := m\<rparr>))))"

text \<open>\<open>strncmp (s, t, n) == 0\<close> for strings without zero bytes.\<close>

definition strncmp_eq :: "bytes \<Rightarrow> bytes \<Rightarrow> nat \<Rightarrow> bool" where
  "strncmp_eq s t n \<longleftrightarrow> take n s = take n t"

text \<open>
  \<open>fprintf (stderr, s)\<close> takes \<open>s\<close> for a format: it is defined only when every per cent sign is followed by another, as
  every other conversion looks for an argument that was not passed. This is \<open>Out_Of_Bounds\<close> here.
\<close>

fun format_ok :: "bytes \<Rightarrow> bool" where
  "format_ok [] \<longleftrightarrow> True"
| "format_ok (c # s) \<longleftrightarrow>
     (if c = 37 then (case s of [] \<Rightarrow> False | c' # t \<Rightarrow> c' = 37 \<and> format_ok t) else format_ok s)"

text \<open>\<open>started\<close>: whether the resolver could be created.\<close>

definition browse_callback :: "bool \<Rightarrow> avahi_reply \<Rightarrow> avahi \<Rightarrow> avahi result option" where
  "browse_callback started r d =
     (case ar_event r of
        AVAHI_BROWSER_FAILURE \<Rightarrow> Some (Inr (d\<lparr>av_quit := True\<rparr>))
      | AVAHI_BROWSER_NEW \<Rightarrow>
          lbind (add_service r d) (\<lambda>d.
          lbind (OnServiceFound d) (\<lambda>d.
            if \<not> format_ok (sd_hostname (av_hostData d)) \<or> \<not> format_ok (ar_name r) then Some (Inl Out_Of_Bounds)
            else if strncmp_eq (sd_hostname (av_hostData d)) (ar_name r) (length (ar_name r)) then Some (Inr d)
            else if started then Some (Inr (d\<lparr>av_resolving := av_resolving d @ [ar_name r]\<rparr>))
            else Some (Inr d)))
      | AVAHI_BROWSER_REMOVE \<Rightarrow> lbind (add_service r d) OnServiceRemoved
      | AVAHI_BROWSER_ALL_FOR_NOW \<Rightarrow> Some (Inr d)
      | AVAHI_BROWSER_CACHE_EXHAUSTED \<Rightarrow> Some (Inr d))"

text \<open>
  The result of a resolution, in memory that is not cleared: \<open>g\<close> is what lies behind the strings read, \<open>mem\<close> what
  the allocated fields held. Strings are copied without their terminators.
\<close>

definition copy_over :: "(nat \<Rightarrow> byte) \<Rightarrow> nat \<Rightarrow> bytes \<Rightarrow> bytes result" where
  "copy_over mem n s = (if length s > n then Inl Out_Of_Bounds else Inr (s @ map mem [length s..<n]))"

definition resolve_callback ::
  "(nat \<Rightarrow> byte) \<Rightarrow> (nat \<Rightarrow> byte) \<Rightarrow> bool \<Rightarrow> bytes \<Rightarrow> bytes \<Rightarrow> bytes \<Rightarrow> bytes \<Rightarrow> bytes \<Rightarrow> u16 \<Rightarrow> bytes \<Rightarrow> avahi \<Rightarrow> avahi result" where
  "resolve_callback g mem found name type domain host_name a port t d =
     (if \<not> found then Inr d
      else
        rbind (copy_over mem MAX_DNS_RESOLUTION_FIELD_SIZE host_name) (\<lambda>hosttarget.
        rbind (copy_over mem MAX_DNS_RESOLUTION_FIELD_SIZE a) (\<lambda>fullname.
        rbind (copy_over mem MAX_DNS_RESOLUTION_FIELD_SIZE t) (\<lambda>txtRecord.
          Inr (d\<lparr>av_out := av_out d @
            [\<lparr>event_t = BVEVENTTYPE_APP_DISCOVERY_SERVICE_RESOLVED,
              data_p = Some (Any_Resolution
                \<lparr>dr_fullname = fullname, dr_hosttarget = hosttarget, dr_port = port, dr_txtLen = word_of_nat (length t),
                 dr_txtRecord = txtRecord, dr_serviceName = c_str_read g N_BYTES_SERVNAME_MAX name,
                 dr_regType = c_str_read g N_BYTES_REGTYPE_MAX type,
                 dr_replyDomain = c_str_read g N_BYTES_REPLDOMN_MAX domain\<rparr>)\<rparr>]\<rparr>)))))"

section \<open>The component\<close>

text \<open>\<open>client\<close>, \<open>poll\<close>: whether the pointers passed are not null.\<close>

definition BVDiscovery_Avahi_ctor :: "bool \<Rightarrow> bool \<Rightarrow> BVServiceData \<Rightarrow> avahi result" where
  "BVDiscovery_Avahi_ctor client poll sd =
     (if \<not> client \<or> \<not> poll then Inl Bad_Alloc
      else Inr \<lparr>av_ll = LinkedList_str_Constructor None, av_mem = \<lparr>cells = (\<lambda>_. None), brk = 0\<rparr>, av_hostData = sd,
        av_active = False, isPaused = False, av_quit = False, av_resolving = [], av_out = [], av_worker = Starting\<rparr>)"

text \<open>Services are resolved when they are found, not on request.\<close>

definition avahi_ResolveService :: "BVServiceBrowseInstance \<Rightarrow> avahi \<Rightarrow> BVStatus \<times> avahi" where
  "avahi_ResolveService bI d = (BVSTATUS_OK, d)"

definition avahi_OnResolveRequest :: "any option \<Rightarrow> avahi \<Rightarrow> BVStatus \<times> avahi" where
  "avahi_OnResolveRequest dp d =
     (case dp of
        Some (Any_Browse bI) \<Rightarrow> avahi_ResolveService bI d
      | _ \<Rightarrow> (BVSTATUS_FATAL_ERROR, d))"

definition avahi_OnPause :: "avahi \<Rightarrow> BVStatus \<times> avahi" where
  "avahi_OnPause d = (BVSTATUS_OK, d\<lparr>isPaused := True\<rparr>)"

text \<open>The notification wakes a worker that waits, which then tests \<open>isPaused\<close> again.\<close>

definition avahi_OnResume :: "avahi \<Rightarrow> BVStatus \<times> avahi" where
  "avahi_OnResume d =
     (BVSTATUS_OK, d\<lparr>isPaused := False, av_worker := (if av_worker d = Waiting then In_Pause else av_worker d)\<rparr>)"

definition avahi_OnShutdown :: "avahi \<Rightarrow> BVStatus \<times> avahi" where
  "avahi_OnShutdown d = (BVSTATUS_OK, d\<lparr>av_active := False\<rparr>)"

text \<open>The handlers the constructor registers.\<close>

definition avahi_callbacks :: "(BVEventType \<times> (any option \<Rightarrow> avahi \<Rightarrow> (BVStatus \<times> avahi) result)) list" where
  "avahi_callbacks =
     [(BVEVENTTYPE_DISCOVERY_REQUEST_START, \<lambda>dp d. Inr (BVSTATUS_OK, d)),
      (BVEVENTTYPE_DISCOVERY_REQUEST_PAUSE, \<lambda>dp d. Inr (avahi_OnPause d)),
      (BVEVENTTYPE_DISCOVERY_REQUEST_RESUME, \<lambda>dp d. Inr (avahi_OnResume d)),
      (BVEVENTTYPE_TERMINATE_ALL, \<lambda>dp d. Inr (avahi_OnShutdown d)),
      (BVEVENTTYPE_DISCOVERY_REQUEST_SHUTDOWN, \<lambda>dp d. Inr (avahi_OnShutdown d)),
      (BVEVENTTYPE_DISCOVERY_REQUEST_RESTART, \<lambda>dp d. Inr (BVSTATUS_OK, d)),
      (BVEVENTTYPE_DISCOVERY_REQUEST_RESOLVE, \<lambda>dp d. Inr (avahi_OnResolveRequest dp d))]"

text \<open>
  What one \<open>avahi_simple_poll_iterate\<close> calls back: the browser, with whether its resolver could be created, and resolvers, with
  the memory their callback copies into and out of.
\<close>

datatype poll_event =
    Poll_Browse bool avahi_reply
  | Poll_Resolve "nat \<Rightarrow> byte" "nat \<Rightarrow> byte" bool bytes bytes bytes bytes bytes u16 bytes

definition poll_callback :: "poll_event \<Rightarrow> avahi \<Rightarrow> avahi result option" where
  "poll_callback e d =
     (case e of
        Poll_Browse ok r \<Rightarrow> browse_callback ok r d
      | Poll_Resolve g mem found name type domain host_name a port t \<Rightarrow>
          Some (resolve_callback g mem found name type domain host_name a port t d))"

fun poll_callbacks :: "poll_event list \<Rightarrow> avahi \<Rightarrow> avahi result option" where
  "poll_callbacks [] d = Some (Inr d)"
| "poll_callbacks (e # es) d = lbind (poll_callback e d) (poll_callbacks es)"

text \<open>A step of the wait for the condition variable; one that waits stays until it is woken.\<close>

definition avahi_Pause :: "avahi \<Rightarrow> avahi" where
  "avahi_Pause d =
     (case av_worker d of
        In_Pause \<Rightarrow> d\<lparr>av_worker := (if isPaused d then Blocking else In_Loop)\<rparr>
      | Blocking \<Rightarrow> d\<lparr>av_worker := Waiting\<rparr>
      | _ \<Rightarrow> d)"

text \<open>One step of the worker thread: the assignment it begins with, the test and body of its loop, or a part of \<open>Pause\<close>.\<close>

definition worker_step :: "int \<Rightarrow> poll_event list \<Rightarrow> avahi \<Rightarrow> avahi result option" where
  "worker_step status rs d =
     (case av_worker d of
        Starting \<Rightarrow> Some (Inr (d\<lparr>av_active := True, av_worker := In_Loop\<rparr>))
      | In_Loop \<Rightarrow>
          (if \<not> av_active d then Some (Inr (d\<lparr>av_worker := Ended\<rparr>))
           else if isPaused d then Some (Inr (d\<lparr>av_worker := In_Pause\<rparr>))
           else
             lbind (poll_callbacks rs d) (\<lambda>d.
               if status = -1 then Some (Inr (d\<lparr>av_worker := Threw\<rparr>)) else Some (Inr d)))
      | _ \<Rightarrow> Some (Inr (avahi_Pause d)))"

definition in_wait :: "avahi \<Rightarrow> bool" where
  "in_wait d \<longleftrightarrow> av_worker d \<in> {In_Pause, Blocking, Waiting}"

section \<open>Lemmas\<close>

lemma avahi_Pause_simps [simp]:
  "av_worker d = In_Pause \<Longrightarrow> avahi_Pause d = d\<lparr>av_worker := (if isPaused d then Blocking else In_Loop)\<rparr>"
  "av_worker d = Blocking \<Longrightarrow> avahi_Pause d = d\<lparr>av_worker := Waiting\<rparr>"
  "av_worker d \<notin> {In_Pause, Blocking} \<Longrightarrow> avahi_Pause d = d"
  by (cases "av_worker d"; simp add: avahi_Pause_def)+

definition avahi_instance :: "avahi_reply \<Rightarrow> BVServiceBrowseInstance" where
  "avahi_instance r = browse_instance \<lparr>br_flags = 0, br_error = 0, br_serviceName = ar_name r, br_regtype = ar_type r,
     br_replyDomain = ar_domain r\<rparr>"

definition avahi_strings :: "avahi_reply \<Rightarrow> bool" where
  "avahi_strings r \<longleftrightarrow> 0 \<notin> set (ar_name r) \<and> 0 \<notin> set (ar_type r) \<and> 0 \<notin> set (ar_domain r)"

lemma add_service_holds:
  assumes "ll_holds (av_ll d) (av_mem d) l" and "avahi_strings r"
  shows "\<exists>ll m. add_service r d = Some (Inr (d\<lparr>av_ll := ll, av_mem := m\<rparr>)) \<and> ll_holds ll m (l @ [avahi_instance r])"
proof -
  let ?b = "\<lparr>br_flags = 0, br_error = 0, br_serviceName = ar_name r, br_regtype = ar_type r, br_replyDomain = ar_domain r\<rparr>"
  have "c_strings ?b" using assms(2) by (simp add: c_strings_def avahi_strings_def)
  from element_added [OF assms(1) this] obtain e m1 ll' m' where
    "LinkedListElement_str_Constructor (Some (service_buff (ar_name r) (ar_type r) (ar_domain r))) None (av_mem d) = Inr (e, m1)"
    "LinkedList_str_AddElement (av_ll d) e m1 = Some (Inr (ll', m'))" "ll_holds ll' m' (l @ [avahi_instance r])"
    by (auto simp: avahi_instance_def)
  then show ?thesis by (intro exI [of _ ll'] exI [of _ m']) (simp add: add_service_def)
qed

lemma report_list_holds:
  assumes "ll_holds (av_ll d) (av_mem d) l"
  shows "\<exists>ll m. report_list e d = Some (Inr (d\<lparr>av_ll := ll, av_mem := m, av_out := av_out d @ [\<lparr>event_t = e, data_p = Some (Any_BrowseList l)\<rparr>]\<rparr>)) \<and>
    ll_holds ll m []"
  by (rule results.read_and_clear [OF assms]) (auto simp: report_list_def)

lemma new_service_told:
  assumes ll: "ll_holds (av_ll d) (av_mem d) []" and r: "avahi_strings r" "ar_event r = AVAHI_BROWSER_NEW"
    and fmt: "format_ok (sd_hostname (av_hostData d))" "format_ok (ar_name r)"
  shows "\<exists>ll m. browse_callback started r d = Some (Inr (d\<lparr>av_ll := ll, av_mem := m,
      av_out := av_out d @ [\<lparr>event_t = BVEVENTTYPE_APP_PUBLISHED_SERVICE, data_p = Some (Any_BrowseList [avahi_instance r])\<rparr>],
      av_resolving := av_resolving d @
        (if started \<and> take (length (ar_name r)) (sd_hostname (av_hostData d)) \<noteq> ar_name r then [ar_name r] else [])\<rparr>)) \<and>
    ll_holds ll m []"
proof -
  obtain ll m where a: "add_service r d = Some (Inr (d\<lparr>av_ll := ll, av_mem := m\<rparr>))" "ll_holds ll m [avahi_instance r]"
    using add_service_holds [OF ll r(1)] by auto
  obtain ll' m' where f: "report_list BVEVENTTYPE_APP_PUBLISHED_SERVICE (d\<lparr>av_ll := ll, av_mem := m\<rparr>) =
      Some (Inr (d\<lparr>av_ll := ll', av_mem := m', av_out := av_out d @ [\<lparr>event_t = BVEVENTTYPE_APP_PUBLISHED_SERVICE,
        data_p = Some (Any_BrowseList [avahi_instance r])\<rparr>]\<rparr>))" "ll_holds ll' m' []"
    using report_list_holds [of "d\<lparr>av_ll := ll, av_mem := m\<rparr>" "[avahi_instance r]" BVEVENTTYPE_APP_PUBLISHED_SERVICE] a(2) by auto
  show ?thesis
    by (intro exI [of _ ll'] exI [of _ m']) (simp add: a(1) f r(2) fmt browse_callback_def OnServiceFound_def strncmp_eq_def)
qed

lemma bad_format:
  assumes "ll_holds (av_ll d) (av_mem d) []" and "avahi_strings r" "ar_event r = AVAHI_BROWSER_NEW" and "\<not> format_ok (sd_hostname (av_hostData d)) \<or> \<not> format_ok (ar_name r)"
  shows "browse_callback started r d = Some (Inl Out_Of_Bounds)"
proof -
  obtain ll m where a: "add_service r d = Some (Inr (d\<lparr>av_ll := ll, av_mem := m\<rparr>))" "ll_holds ll m [avahi_instance r]"
    using add_service_holds [OF assms(1,2)] by auto
  obtain ll' m' where "report_list BVEVENTTYPE_APP_PUBLISHED_SERVICE (d\<lparr>av_ll := ll, av_mem := m\<rparr>) =
      Some (Inr (d\<lparr>av_ll := ll', av_mem := m', av_out := av_out d @ [\<lparr>event_t = BVEVENTTYPE_APP_PUBLISHED_SERVICE,
        data_p = Some (Any_BrowseList [avahi_instance r])\<rparr>]\<rparr>))"
    using report_list_holds [of "d\<lparr>av_ll := ll, av_mem := m\<rparr>" "[avahi_instance r]" BVEVENTTYPE_APP_PUBLISHED_SERVICE] a(2) by auto
  then show ?thesis using assms(3,4) by (auto simp: a(1) browse_callback_def OnServiceFound_def)
qed

section \<open>Runs of the worker\<close>

fun worker_steps :: "(int \<times> poll_event list) list \<Rightarrow> avahi \<Rightarrow> avahi result option" where
  "worker_steps [] d = Some (Inr d)"
| "worker_steps ((status, rs) # ss) d = lbind (worker_step status rs d) (worker_steps ss)"

section \<open>Concrete state\<close>

definition example_avahi :: "bytes \<Rightarrow> avahi" where
  "example_avahi name = \<lparr>av_ll = LinkedList_str_Constructor None, av_mem = \<lparr>cells = (\<lambda>_. None), brk = 0\<rparr>,
     av_hostData = \<lparr>sd_port = 50001, sd_hostname = name, sd_domain = str ''local.'', sd_regtype = SERVICETYPE_STR\<rparr>,
     av_active = True, isPaused = False, av_quit = False, av_resolving = [], av_out = [], av_worker = In_Loop\<rparr>"

definition example_browser :: "browser_event \<Rightarrow> bytes \<Rightarrow> avahi_reply" where
  "example_browser e n = \<lparr>ar_event = e, ar_name = n, ar_type = SERVICETYPE_STR, ar_domain = str ''local''\<rparr>"

lemma example_avahi_holds: "ll_holds (av_ll (example_avahi n)) (av_mem (example_avahi n)) []"
  by (auto simp: example_avahi_def ll_holds_def ll_rep_def LinkedList_str_Constructor_def mem_inv_def)

lemma example_browser_strings: "0 \<notin> set n \<Longrightarrow> avahi_strings (example_browser e n)"
  by (simp add: avahi_strings_def example_browser_def SERVICETYPE_STR_def str_def)

section \<open>Properties\<close>

text \<open>C35: a service the browser reports as new is published to the application, the list of results is empty again, and a resolver is started for it exactly when one can be created and the name of the service does not begin the name of this machine, provided that neither name has a per cent sign that \<open>fprintf\<close> takes for a conversion.\<close>

theorem avahi_new_service:
  assumes "ll_holds (av_ll d) (av_mem d) []" and "avahi_strings r" "ar_event r = AVAHI_BROWSER_NEW"
    and "format_ok (sd_hostname (av_hostData d))" "format_ok (ar_name r)"
  shows "\<exists>d'. browse_callback started r d = Some (Inr d') \<and> ll_holds (av_ll d') (av_mem d') [] \<and>
    av_out d' = av_out d @ [\<lparr>event_t = BVEVENTTYPE_APP_PUBLISHED_SERVICE, data_p = Some (Any_BrowseList [avahi_instance r])\<rparr>] \<and>
    av_resolving d' = av_resolving d @
      (if started \<and> \<not> (\<exists>t. sd_hostname (av_hostData d) = ar_name r @ t) then [ar_name r] else [])"
proof -
  let ?h = "sd_hostname (av_hostData d)"
  have "take (length (ar_name r)) ?h = ar_name r \<longleftrightarrow> (\<exists>t. ?h = ar_name r @ t)"
    by (metis append_eq_conv_conj)
  with new_service_told [OF assms, of started] show ?thesis by auto
qed

theorem avahi_new_service_witness:
  "\<exists>d'. browse_callback True (example_browser AVAHI_BROWSER_NEW (str ''bob'')) (example_avahi (str ''bob-laptop'')) = Some (Inr d') \<and>
     length (av_out d') = 1 \<and> av_resolving d' = []"
proof -
  have r: "avahi_strings (example_browser AVAHI_BROWSER_NEW (str ''bob''))" by (rule example_browser_strings) (simp add: str_def)
  have e: "ar_event (example_browser AVAHI_BROWSER_NEW (str ''bob'')) = AVAHI_BROWSER_NEW" by (simp add: example_browser_def)
  have p: "\<exists>t. sd_hostname (av_hostData (example_avahi (str ''bob-laptop''))) = ar_name (example_browser AVAHI_BROWSER_NEW (str ''bob'')) @ t"
    by (rule exI [of _ "str ''-laptop''"]) (simp add: example_avahi_def example_browser_def str_def)
  have f: "format_ok (sd_hostname (av_hostData (example_avahi (str ''bob-laptop''))))"
      "format_ok (ar_name (example_browser AVAHI_BROWSER_NEW (str ''bob'')))"
    by (simp_all add: example_avahi_def example_browser_def str_def)
  show ?thesis
    using avahi_new_service [OF example_avahi_holds r e f, of True] p by (auto simp: example_avahi_def)
qed

text \<open>The name of a service found on the network is used as a format string: a peer whose service name has a conversion in it makes every Linux client that finds it read arguments that were not passed.\<close>

theorem service_name_is_format:
  assumes "ll_holds (av_ll d) (av_mem d) []" and "avahi_strings r" "ar_event r = AVAHI_BROWSER_NEW" and "\<not> format_ok (ar_name r)"
  shows "browse_callback started r d = Some (Inl Out_Of_Bounds)"
  using bad_format [OF assms(1-3)] assms(4) by blast

theorem service_name_is_format_witness:
  "browse_callback True (example_browser AVAHI_BROWSER_NEW (str ''100%n'')) (example_avahi (str ''alice'')) = Some (Inl Out_Of_Bounds)"
proof -
  let ?r = "example_browser AVAHI_BROWSER_NEW (str ''100%n'')"
  have "avahi_strings ?r" by (rule example_browser_strings) (simp add: str_def)
  moreover have "ar_event ?r = AVAHI_BROWSER_NEW" "\<not> format_ok (ar_name ?r)" by (simp_all add: example_browser_def str_def)
  ultimately show ?thesis by (rule service_name_is_format [OF example_avahi_holds])
qed

text \<open>The name of a resolved host is copied without its terminator into memory that is not cleared: whatever the memory held behind it is read as a part of the name, and when it held no zero byte the read leaves the field.\<close>

theorem avahi_host_unterminated:
  assumes "length host_name < 256" "length a \<le> 256" "length t \<le> 256" and "0 \<notin> set host_name"
    and "mem (length host_name) \<noteq> 0"
  shows "\<exists>d' res. resolve_callback g mem True name type domain host_name a port t d = Inr d' \<and>
    av_out d' = av_out d @ [\<lparr>event_t = BVEVENTTYPE_APP_DISCOVERY_SERVICE_RESOLVED, data_p = Some (Any_Resolution res)\<rparr>] \<and>
    cstr (dr_hosttarget res) \<noteq> Inr host_name \<and>
    ((\<forall>i. mem i \<noteq> 0) \<longrightarrow> cstr (dr_hosttarget res) = Inl Out_Of_Bounds)"
proof -
  let ?t = "host_name @ map mem [length host_name..<256]"
  have c: "copy_over mem 256 host_name = Inr ?t" using assms(1) by (simp add: copy_over_def)
  have "[length host_name..<256] = length host_name # [Suc (length host_name)..<256]" using assms(1) by (simp add: upt_conv_Cons)
  then have t: "?t = (host_name @ [mem (length host_name)]) @ map mem [Suc (length host_name)..<256]" by simp
  have "takeWhile (\<lambda>c. c \<noteq> 0) ?t \<noteq> host_name"
  proof
    assume "takeWhile (\<lambda>c. c \<noteq> 0) ?t = host_name"
    moreover have "takeWhile (\<lambda>c. c \<noteq> 0) ?t =
        (host_name @ [mem (length host_name)]) @ takeWhile (\<lambda>c. c \<noteq> 0) (map mem [Suc (length host_name)..<256])"
      unfolding t by (rule takeWhile_append2) (use assms(4,5) in auto)
    ultimately show False by simp
  qed
  then have n: "cstr ?t \<noteq> Inr host_name" by (simp add: cstr_def)
  have o: "(\<forall>i. mem i \<noteq> 0) \<longrightarrow> cstr ?t = Inl Out_Of_Bounds" using assms(4) by (auto simp: cstr_def)
  have f: "copy_over mem 256 x = Inr (x @ map mem [length x..<256])" if "length x \<le> 256" for x using that by (simp add: copy_over_def)
  show ?thesis
    using n o assms(2,3) by (simp add: resolve_callback_def MAX_DNS_RESOLUTION_FIELD_SIZE_def c f)
qed

theorem avahi_host_unterminated_witness:
  "\<exists>d' res. resolve_callback (\<lambda>_. 0) (\<lambda>_. 7) True (str ''bob'') SERVICETYPE_STR (str ''local'') (str ''bob.local'') (str ''10.0.0.2'') 50001 []
      (example_avahi (str ''alice'')) = Inr d' \<and>
    av_out d' = [\<lparr>event_t = BVEVENTTYPE_APP_DISCOVERY_SERVICE_RESOLVED, data_p = Some (Any_Resolution res)\<rparr>] \<and>
    cstr (dr_hosttarget res) = Inl Out_Of_Bounds"
proof -
  have a: "length (str ''bob.local'') < 256" "length (str ''10.0.0.2'') \<le> 256" "length ([] :: bytes) \<le> 256" "0 \<notin> set (str ''bob.local'')"
      "(\<lambda>_. 7 :: byte) (length (str ''bob.local'')) \<noteq> 0" "av_out (example_avahi (str ''alice'')) = []"
    by (simp_all add: str_def example_avahi_def)
  show ?thesis
    using avahi_host_unterminated [OF a(1-5), of "\<lambda>_. 0" "str ''bob''" SERVICETYPE_STR "str ''local''" 50001 "example_avahi (str ''alice'')"] a(6)
    by auto
qed

lemma paused_stays: "in_wait d \<Longrightarrow> isPaused d \<Longrightarrow> \<exists>d'. worker_steps ss d = Some (Inr d') \<and> in_wait d'"
proof (induction ss arbitrary: d)
  case (Cons x ss)
  obtain status rs where x: "x = (status, rs)" by (cases x)
  obtain d1 where d1: "worker_step status rs d = Some (Inr d1)" "in_wait d1" "isPaused d1"
    using Cons.prems by (auto simp: worker_step_def in_wait_def)
  from Cons.IH [OF d1(2,3)] d1(1) show ?case by (simp add: x)
qed simp

text \<open>A shutdown while browsing is paused never ends the worker thread: it stays in its wait, which only a resume request ends.\<close>

theorem shutdown_while_paused_hangs:
  assumes "av_active d" "av_worker d = In_Loop"
  shows "\<exists>d1. worker_step status rs (snd (avahi_OnPause d)) = Some (Inr d1) \<and>
    (\<forall>ss. \<exists>d2. worker_steps ss (snd (avahi_OnShutdown d1)) = Some (Inr d2) \<and> in_wait d2) \<and>
    (\<exists>d3. worker_steps [(0, []), (0, [])] (snd (avahi_OnResume (snd (avahi_OnShutdown d1)))) = Some (Inr d3) \<and> av_worker d3 = Ended)"
proof -
  let ?d1 = "d\<lparr>isPaused := True, av_worker := In_Pause\<rparr>"
  have "\<exists>d2. worker_steps ss d1 = Some (Inr d2) \<and> in_wait d2" if "in_wait d1" "isPaused d1" for ss d1
    by (rule paused_stays [OF that])
  then have "\<exists>d2. worker_steps ss (snd (avahi_OnShutdown ?d1)) = Some (Inr d2) \<and> in_wait d2" for ss
    by (simp add: avahi_OnShutdown_def in_wait_def)
  moreover have "worker_step status rs (snd (avahi_OnPause d)) = Some (Inr ?d1)"
    using assms by (simp add: avahi_OnPause_def worker_step_def)
  ultimately show ?thesis
    by (auto simp: avahi_OnResume_def avahi_OnShutdown_def worker_step_def)
qed

theorem shutdown_while_paused_hangs_witness:
  "\<exists>d1 d2. worker_step 0 [] (snd (avahi_OnPause (example_avahi (str ''alice'')))) = Some (Inr d1) \<and>
     worker_steps [(0, []), (0, [])] (snd (avahi_OnShutdown d1)) = Some (Inr d2) \<and> in_wait d2"
proof -
  have "av_active (example_avahi (str ''alice''))" "av_worker (example_avahi (str ''alice'')) = In_Loop" by (simp_all add: example_avahi_def)
  from shutdown_while_paused_hangs [OF this, of 0 "[]"] show ?thesis by blast
qed

text \<open>A request to resume that is handled after the worker thread has found browsing paused and before it waits is lost: the worker then waits although nothing is paused, and goes on only when it is woken by another request, or for no reason.\<close>

theorem resume_before_wait_lost:
  assumes "av_worker d = In_Pause" "isPaused d"
  shows "\<exists>d1. worker_step status rs d = Some (Inr d1) \<and>
    (\<forall>x ss. \<exists>d2. worker_steps (x # ss) (snd (avahi_OnResume d1)) = Some (Inr d2) \<and> av_worker d2 = Waiting \<and> \<not> isPaused d2)"
proof -
  have "worker_steps ss d' = Some (Inr d')" if "av_worker d' = Waiting" for ss d'
    by (induction ss) (use that in \<open>auto simp: worker_step_def\<close>)
  then show ?thesis using assms by (simp add: worker_step_def avahi_OnResume_def)
qed

theorem resume_before_wait_lost_witness:
  "\<exists>d1 d2. worker_step 0 [] ((example_avahi (str ''alice''))\<lparr>isPaused := True, av_worker := In_Pause\<rparr>) = Some (Inr d1) \<and>
     worker_steps [(0, []), (0, [])] (snd (avahi_OnResume d1)) = Some (Inr d2) \<and> av_worker d2 = Waiting \<and> \<not> isPaused d2"
proof -
  let ?d = "(example_avahi (str ''alice''))\<lparr>isPaused := True, av_worker := In_Pause\<rparr>"
  have "av_worker ?d = In_Pause" "isPaused ?d" by simp_all
  from resume_before_wait_lost [OF this, of 0 "[]"] show ?thesis by blast
qed

text \<open>A shutdown request that is handled before the worker thread makes its first step is lost: the worker then browses as if there had been none, for as long as the poll works.\<close>

theorem shutdown_before_start_lost:
  assumes "BVDiscovery_Avahi_ctor True True sd = Inr d"
  shows "\<exists>d'. worker_steps (replicate (Suc n) (0, [])) (snd (avahi_OnShutdown d)) = Some (Inr d') \<and>
    av_active d' \<and> av_worker d' = In_Loop"
proof -
  define d1 where "d1 = d\<lparr>av_active := True, av_worker := In_Loop\<rparr>"
  have p: "\<not> isPaused d" "av_worker d = Starting" using assms by (auto simp: BVDiscovery_Avahi_ctor_def)
  have "worker_steps (replicate n (0, [])) d1 = Some (Inr d1)"
    by (induction n) (simp_all add: d1_def worker_step_def p)
  moreover have "worker_step 0 [] (snd (avahi_OnShutdown d)) = Some (Inr d1)"
    using p by (simp add: d1_def avahi_OnShutdown_def worker_step_def)
  ultimately show ?thesis by (simp add: d1_def)
qed

theorem shutdown_before_start_lost_witness:
  "\<exists>d d'. BVDiscovery_Avahi_ctor True True (av_hostData (example_avahi (str ''alice''))) = Inr d \<and>
     worker_steps (replicate 3 (0, [])) (snd (avahi_OnShutdown d)) = Some (Inr d') \<and> av_active d' \<and> av_worker d' = In_Loop"
proof -
  obtain d where d: "BVDiscovery_Avahi_ctor True True (av_hostData (example_avahi (str ''alice''))) = Inr d"
    by (simp add: BVDiscovery_Avahi_ctor_def)
  show ?thesis using shutdown_before_start_lost [OF d, of 2] d by (auto simp: numeral_3_eq_3)
qed

end
