(* ===== verification/Avahi_Registration.thy ===== *)
theory Avahi_Registration
  imports Discovery
begin

text \<open>
  Registration of the service with Avahi: \<open>src/BVService_Avahi.cpp\<close> and the registration callbacks of
  \<open>src/avahi_api.c\<close>. The Avahi client library is outside: what its calls return, and which state changes it reports,
  are arguments. Host name and type reach the callback as one text in a string that lives only as long as the call
  that creates the client.
\<close>

section \<open>Data\<close>

datatype client_state = AVAHI_CLIENT_S_REGISTERING | AVAHI_CLIENT_S_RUNNING | AVAHI_CLIENT_S_COLLISION
  | AVAHI_CLIENT_FAILURE | AVAHI_CLIENT_CONNECTING

datatype group_state = AVAHI_ENTRY_GROUP_UNCOMMITED | AVAHI_ENTRY_GROUP_REGISTERING | AVAHI_ENTRY_GROUP_ESTABLISHED
  | AVAHI_ENTRY_GROUP_COLLISION | AVAHI_ENTRY_GROUP_FAILURE

text \<open>A service as it is added to an entry group: name, type, domain and port.\<close>

type_synonym entry = "bytes \<times> bytes \<times> bytes \<times> int"

text \<open>
  The library: whether an entry group can be made, what adding a service and committing the group return, and
  the number of the server state \<open>AVAHI_SERVER_COLLISION\<close>.
\<close>

record avahi_lib =
  al_group_new :: bool
  al_add_service :: "entry \<Rightarrow> int"
  al_commit :: int
  al_SERVER_COLLISION :: int

text \<open>The global variables of the registration, and the service. \<open>rg_group\<close>: the entry group with its services.\<close>

record avahi_reg =
  critical_failure :: bool
  register_success :: bool
  rg_group :: "entry list option"
  rg_service :: BVService
  rg_client :: bool

section \<open>Callbacks\<close>

text \<open>\<open>strtok\<close>: the token, null if there is none, and the text it goes on with.\<close>

definition strtok :: "byte \<Rightarrow> bytes \<Rightarrow> bytes option \<times> bytes" where
  "strtok d s =
     (let s = dropWhile (\<lambda>c. c = d) s in
      if s = [] then (None, []) else (Some (takeWhile (\<lambda>c. c \<noteq> d) s), drop 1 (dropWhile (\<lambda>c. c \<noteq> d) s)))"

definition comma :: byte where "comma = 44"

definition entry_group_callback :: "group_state \<Rightarrow> avahi_reg \<Rightarrow> avahi_reg" where
  "entry_group_callback state r =
     (if state = AVAHI_ENTRY_GROUP_FAILURE then r\<lparr>critical_failure := True\<rparr> else r)"

text \<open>A failed assertion ends the program. A service is in the group when adding it returned zero.\<close>

definition create_services :: "avahi_lib \<Rightarrow> bytes \<Rightarrow> avahi_reg \<Rightarrow> avahi_reg result" where
  "create_services lib hostname_regtype r =
     (if rg_group r = None \<and> \<not> al_group_new lib then Inl Assert_Failed
      else
        (let entries = (case rg_group r of None \<Rightarrow> [] | Some es \<Rightarrow> es);
             r = r\<lparr>rg_group := Some entries\<rparr>
         in if entries \<noteq> [] then Inr r
            else
              (case strtok comma hostname_regtype of
                 (hostname, rest) \<Rightarrow>
                   (case (hostname, fst (strtok comma rest)) of
                      (Some hostname, Some regtype) \<Rightarrow>
                        (let e = (hostname, regtype, str ''local'', PORT);
                             ret = al_add_service lib e;
                             r = (if ret = 0 then r\<lparr>rg_group := Some [e]\<rparr> else r)
                         in if ret = al_SERVER_COLLISION lib then Inr r
                            else if al_commit lib < 0 then Inr r
                            else Inr (r\<lparr>register_success := True\<rparr>))
                    | _ \<Rightarrow> Inl Null_Deref))))"

text \<open>\<open>userdata\<close>: the text it points to; \<open>None\<close> when the string is gone.\<close>

definition client_callback :: "avahi_lib \<Rightarrow> bytes option \<Rightarrow> client_state \<Rightarrow> avahi_reg \<Rightarrow> avahi_reg result" where
  "client_callback lib userdata state r =
     (case state of
        AVAHI_CLIENT_S_RUNNING \<Rightarrow>
          (case userdata of None \<Rightarrow> Inl Dangling | Some ud \<Rightarrow> create_services lib ud r)
      | _ \<Rightarrow> Inr r)"

section \<open>Operations\<close>

fun client_callbacks :: "avahi_lib \<Rightarrow> bytes option \<Rightarrow> client_state list \<Rightarrow> avahi_reg \<Rightarrow> avahi_reg result" where
  "client_callbacks lib ud [] r = Inr r"
| "client_callbacks lib ud (s # ss) r = rbind (client_callback lib ud s r) (client_callbacks lib ud ss)"

text \<open>\<open>states\<close>: the changes reported while the client is created; \<open>created\<close>: whether it could be.\<close>

definition CreateAvahiClient :: "avahi_lib \<Rightarrow> client_state list \<Rightarrow> bool \<Rightarrow> avahi_reg \<Rightarrow> (BVStatus \<times> avahi_reg) result" where
  "CreateAvahiClient lib states created r =
     (let userdata = sv_hostname (rg_service r) @ [comma] @ SERVICETYPE_STR in
      rbind (client_callbacks lib (Some userdata) states r) (\<lambda>r.
        Inr (if created then BVSTATUS_OK else BVSTATUS_NOK, r\<lparr>rg_client := created\<rparr>)))"

text \<open>The constructor; \<open>None\<close> is \<open>exit (-1)\<close>, when there is no client.\<close>

definition BVService_Avahi_ctor ::
  "avahi_lib \<Rightarrow> client_state list \<Rightarrow> bool \<Rightarrow> bytes \<Rightarrow> bytes \<Rightarrow> int \<Rightarrow> avahi_reg option result" where
  "BVService_Avahi_ctor lib states created hostname domain port =
     rbind (CreateAvahiClient lib states created
         \<lparr>critical_failure = False, register_success = False, rg_group = None,
          rg_service = BVService_ctor hostname domain port, rg_client = False\<rparr>) (\<lambda>(status, r).
       Inr (if status \<noteq> BVSTATUS_OK then None else Some r))"

text \<open>What one round of the poll reports: changes of the client, then of the entry group.\<close>

definition avahi_Register ::
  "avahi_lib \<Rightarrow> client_state list \<Rightarrow> group_state list \<Rightarrow> avahi_reg \<Rightarrow> (BVStatus \<times> avahi_reg) result" where
  "avahi_Register lib cs gs r =
     rbind (client_callbacks lib None cs r) (\<lambda>r.
       (let r = fold entry_group_callback gs r in
        Inr (if register_success r then BVSTATUS_OK
             else if critical_failure r then BVSTATUS_FATAL_ERROR else BVSTATUS_NOK, r)))"

section \<open>Lemmas\<close>

lemma strtok_token:
  assumes "s \<noteq> []" and "d \<notin> set s"
  shows "strtok d (s @ d # t) = (Some s, t)" and "strtok d s = (Some s, [])"
proof -
  have w: "dropWhile (\<lambda>c. c = d) (s @ u) = s @ u" for u using assms by (cases s) auto
  have "takeWhile (\<lambda>c. c \<noteq> d) (s @ d # t) = s" "dropWhile (\<lambda>c. c \<noteq> d) (s @ d # t) = d # t"
      "takeWhile (\<lambda>c. c \<noteq> d) s = s" "dropWhile (\<lambda>c. c \<noteq> d) s = []"
    using assms(2) by (induction s) auto
  then show "strtok d (s @ d # t) = (Some s, t)" "strtok d s = (Some s, [])"
    using w [of "d # t"] w [of "[]"] assms(1)
    by (simp_all add: strtok_def del: dropWhile_eq_Nil_conv takeWhile_eq_all_conv)
qed

lemma regtype_token: "SERVICETYPE_STR \<noteq> []" "comma \<notin> set SERVICETYPE_STR"
  by (simp_all add: SERVICETYPE_STR_def comma_def str_def)

lemma create_services_host:
  assumes "h \<noteq> []" "comma \<notin> set h" "rg_group r = None" "al_group_new lib"
  shows "create_services lib (h @ [comma] @ SERVICETYPE_STR) r =
    (let e = (h, SERVICETYPE_STR, str ''local'', PORT); ret = al_add_service lib e;
         r = r\<lparr>rg_group := Some (if ret = 0 then [e] else [])\<rparr>
     in Inr (if ret = al_SERVER_COLLISION lib \<or> al_commit lib < 0 then r else r\<lparr>register_success := True\<rparr>))"
proof -
  have "strtok comma (h @ [comma] @ SERVICETYPE_STR) = (Some h, SERVICETYPE_STR)"
    using strtok_token(1) [OF assms(1,2)] by simp
  moreover have "strtok comma SERVICETYPE_STR = (Some SERVICETYPE_STR, [])"
    by (rule strtok_token(2) [OF regtype_token])
  ultimately show ?thesis using assms(3,4) by (simp add: create_services_def Let_def)
qed

lemma group_callbacks_fields [simp]:
  "register_success (fold entry_group_callback gs r) = register_success r" "rg_group (fold entry_group_callback gs r) = rg_group r"
  by (induction gs arbitrary: r) (simp_all add: entry_group_callback_def)

section \<open>Concrete library\<close>

definition example_lib :: "int \<Rightarrow> avahi_lib" where
  "example_lib ret = \<lparr>al_group_new = True, al_add_service = (\<lambda>_. ret), al_commit = 0, al_SERVER_COLLISION = 3\<rparr>"

section \<open>Properties\<close>

text \<open>A host whose daemon runs when the client is created has, after registration, exactly its own name with the program's type, domain and port in the entry group, and registration succeeds, provided that its name has no comma.\<close>

theorem avahi_registers_host:
  assumes "h \<noteq> []" "comma \<notin> set h" "al_group_new lib" "al_add_service lib (h, SERVICETYPE_STR, str ''local'', PORT) = 0"
    "al_SERVER_COLLISION lib \<noteq> 0" "0 \<le> al_commit lib"
  shows "\<exists>r r'. BVService_Avahi_ctor lib [AVAHI_CLIENT_S_RUNNING] True h domain port = Inr (Some r) \<and>
    avahi_Register lib [] gs r = Inr (BVSTATUS_OK, r') \<and> rg_group r' = Some [(h, SERVICETYPE_STR, str ''local'', PORT)]"
  using assms
  by (simp add: BVService_Avahi_ctor_def CreateAvahiClient_def client_callback_def create_services_host [simplified] BVService_ctor_def
      Let_def avahi_Register_def)

theorem avahi_registers_host_witness:
  "\<exists>r r'. BVService_Avahi_ctor (example_lib 0) [AVAHI_CLIENT_S_RUNNING] True (str ''alice'') (str ''local.'') PORT = Inr (Some r) \<and>
    avahi_Register (example_lib 0) [] [AVAHI_ENTRY_GROUP_ESTABLISHED] r = Inr (BVSTATUS_OK, r') \<and>
    rg_group r' = Some [(str ''alice'', SERVICETYPE_STR, str ''local'', PORT)]"
  by (rule avahi_registers_host) (simp_all add: example_lib_def str_def comma_def)

text \<open>A daemon that reports that it runs only after the client was created makes the callback read a string that is gone.\<close>

theorem avahi_late_running_dangles:
  assumes "AVAHI_CLIENT_S_RUNNING \<in> set cs" "AVAHI_CLIENT_S_RUNNING \<notin> set early"
  shows "\<exists>r. BVService_Avahi_ctor lib early True h domain port = Inr (Some r) \<and> avahi_Register lib cs gs r = Inl Dangling"
proof -
  have e: "client_callbacks lib ud early r = Inr r" for ud r
    using assms(2) by (induction early) (auto simp: client_callback_def split: client_state.splits)
  have "client_callbacks lib None cs r = Inl Dangling" for r
    using assms(1) by (induction cs arbitrary: r) (auto simp: client_callback_def split: client_state.splits)
  with e show ?thesis by (simp add: BVService_Avahi_ctor_def CreateAvahiClient_def avahi_Register_def Let_def)
qed

theorem avahi_late_running_dangles_witness:
  "\<exists>r. BVService_Avahi_ctor (example_lib 0) [AVAHI_CLIENT_S_REGISTERING] True (str ''alice'') (str ''local.'') PORT = Inr (Some r) \<and>
    avahi_Register (example_lib 0) [AVAHI_CLIENT_S_RUNNING] [] r = Inl Dangling"
  by (rule avahi_late_running_dangles) simp_all

text \<open>A service name that is taken is not noticed: the library returns a negative error code, which is compared with the positive number of a server state; registration reports success without the service in the group.\<close>

theorem avahi_collision_unseen:
  assumes "h \<noteq> []" "comma \<notin> set h" "al_group_new lib" "al_add_service lib (h, SERVICETYPE_STR, str ''local'', PORT) < 0"
    "0 < al_SERVER_COLLISION lib" "0 \<le> al_commit lib"
  shows "\<exists>r r'. BVService_Avahi_ctor lib [AVAHI_CLIENT_S_RUNNING] True h domain port = Inr (Some r) \<and>
    avahi_Register lib [] gs r = Inr (BVSTATUS_OK, r') \<and> rg_group r' = Some []"
  using assms
  by (simp add: BVService_Avahi_ctor_def CreateAvahiClient_def client_callback_def create_services_host [simplified] BVService_ctor_def
      Let_def avahi_Register_def)

theorem avahi_collision_unseen_witness:
  "\<exists>r r'. BVService_Avahi_ctor (example_lib (- 8)) [AVAHI_CLIENT_S_RUNNING] True (str ''alice'') (str ''local.'') PORT = Inr (Some r) \<and>
    avahi_Register (example_lib (- 8)) [] [] r = Inr (BVSTATUS_OK, r') \<and> rg_group r' = Some []"
  by (rule avahi_collision_unseen) (simp_all add: example_lib_def str_def comma_def)

end
