(* ===== verification/Program_Avahi.thy ===== *)
theory Program_Avahi
  imports Process Avahi_Discovery Avahi_Registration
begin

text \<open>
  The program as \<open>src/main.cpp\<close> builds it on Linux: registration and discovery with Avahi, and the process of
  \<open>Process\<close> with the discovery component of \<open>Avahi_Discovery\<close>. Its worker thread polls the Avahi client until it is told to
  stop, or waits while browsing is paused: quitting ends every thread unless it is paused.
\<close>

section \<open>The discovery component\<close>

definition c_strings_event :: "poll_event \<Rightarrow> bool" where
  "c_strings_event e = (case e of Poll_Browse ok r \<Rightarrow> avahi_strings r | _ \<Rightarrow> True)"

text \<open>
  The steps of the worker thread, which may also be woken from its wait for no reason. The poll is the one of the registration too: it also reports changes of the client to
  \<open>client_callback\<close>, whose text is gone by then.
\<close>

inductive avahi_work :: "avahi \<Rightarrow> (bool \<times> avahi) result \<Rightarrow> bool" where
  step: "\<forall>e \<in> set es. c_strings_event e \<Longrightarrow> worker_step status es d = Some (Inr d') \<Longrightarrow> av_worker d' \<noteq> Threw \<Longrightarrow>
    avahi_work d (Inr (av_worker d' \<noteq> Ended, d'))"
| threw: "\<forall>e \<in> set es. c_strings_event e \<Longrightarrow> worker_step status es d = Some (Inr d') \<Longrightarrow> av_worker d' = Threw \<Longrightarrow>
    avahi_work d (Inl Runtime_Error)"
| fault: "\<forall>e \<in> set es. c_strings_event e \<Longrightarrow> worker_step status es d = Some (Inl e) \<Longrightarrow> avahi_work d (Inl e)"
| woken: "av_worker d = Waiting \<Longrightarrow> avahi_work d (Inr (True, d\<lparr>av_worker := In_Pause\<rparr>))"
| client: "av_worker d = In_Loop \<Longrightarrow> av_active d \<Longrightarrow> \<not> isPaused d \<Longrightarrow> client_callback lib None state reg = Inl e \<Longrightarrow>
    avahi_work d (Inl e)"

definition avahi_part :: "(avahi, unit) disc_part" where
  "avahi_part = \<lparr>op_handlers = (\<lambda>_. map_of avahi_callbacks), op_io = (\<lambda>_ _. False), op_worker = avahi_work, op_out = av_out,
     op_clear = (\<lambda>d. d\<lparr>av_out := []\<rparr>), op_stopped = (\<lambda>_. False)\<rparr>"

lemma avahi_part_simps [simp]:
  "op_handlers avahi_part env = map_of avahi_callbacks" "\<not> op_io avahi_part d res" "op_worker avahi_part = avahi_work"
  "op_out avahi_part = av_out" "op_clear avahi_part d = d\<lparr>av_out := []\<rparr>" "\<not> op_stopped avahi_part d"
  by (simp_all add: avahi_part_def)

definition avahi_inv :: "avahi \<Rightarrow> bool" where
  "avahi_inv d \<longleftrightarrow> ll_holds (av_ll d) (av_mem d) []"

lemma avahi_inv_update [simp]:
  "avahi_inv (d\<lparr>av_out := x\<rparr>) = avahi_inv d" "avahi_inv (d\<lparr>av_worker := w\<rparr>) = avahi_inv d" "avahi_inv (d\<lparr>av_active := b\<rparr>) = avahi_inv d"
  "avahi_inv (d\<lparr>isPaused := b\<rparr>) = avahi_inv d" "avahi_inv (d\<lparr>av_quit := b\<rparr>) = avahi_inv d" "avahi_inv (d\<lparr>av_resolving := rs\<rparr>) = avahi_inv d"
  by (simp_all add: avahi_inv_def)

lemma avahi_instance_fits: "fits (avahi_instance r)"
  by (simp add: avahi_instance_def browse_instance_fits)

text \<open>What the callbacks tell the application.\<close>

definition for_app :: "BVMessage \<Rightarrow> bool" where
  "for_app m \<longleftrightarrow> typed_any m \<and> event_t m \<in> {BVEVENTTYPE_APP_PUBLISHED_SERVICE, BVEVENTTYPE_APP_DEREGISTERED_SERVICE,
     BVEVENTTYPE_APP_DISCOVERY_SERVICE_RESOLVED}"

lemma services_typed:
  "e \<in> {BVEVENTTYPE_APP_PUBLISHED_SERVICE, BVEVENTTYPE_APP_DEREGISTERED_SERVICE} \<Longrightarrow>
    for_app \<lparr>event_t = e, data_p = Some (Any_BrowseList [avahi_instance r])\<rparr>"
  by (auto simp: for_app_def typed_any_def typed_def avahi_instance_fits)

lemma removed_service_told:
  assumes ll: "ll_holds (av_ll d) (av_mem d) []" and r: "avahi_strings r" "ar_event r = AVAHI_BROWSER_REMOVE"
  shows "\<exists>ll m. browse_callback started r d = Some (Inr (d\<lparr>av_ll := ll, av_mem := m,
      av_out := av_out d @ [\<lparr>event_t = BVEVENTTYPE_APP_DEREGISTERED_SERVICE, data_p = Some (Any_BrowseList [avahi_instance r])\<rparr>]\<rparr>)) \<and>
    ll_holds ll m []"
proof -
  obtain ll m where a: "add_service r d = Some (Inr (d\<lparr>av_ll := ll, av_mem := m\<rparr>))" "ll_holds ll m [avahi_instance r]"
    using add_service_holds [OF ll r(1)] by auto
  with report_list_holds [of "d\<lparr>av_ll := ll, av_mem := m\<rparr>" "[avahi_instance r]" BVEVENTTYPE_APP_DEREGISTERED_SERVICE] r(2) show ?thesis
    by (auto simp: browse_callback_def OnServiceRemoved_def)
qed

lemma browse_callback_tells:
  assumes "avahi_strings r" "browse_callback ok r d = Some (Inr d')" "avahi_inv d"
  shows "avahi_inv d' \<and> grows for_app (av_out d) (av_out d') \<and> av_worker d' = av_worker d \<and> isPaused d' = isPaused d \<and> av_active d' = av_active d"
proof (cases "ar_event r")
  case AVAHI_BROWSER_NEW
  moreover have "format_ok (sd_hostname (av_hostData d))" "format_ok (ar_name r)"
    using bad_format [OF assms(3) [unfolded avahi_inv_def] assms(1) calculation, of ok] assms(2) by auto
  ultimately show ?thesis
    using new_service_told [OF assms(3) [unfolded avahi_inv_def] assms(1), of ok] assms(2)
    by (auto simp: avahi_inv_def services_typed)
next
  case AVAHI_BROWSER_REMOVE
  from removed_service_told [OF assms(3) [unfolded avahi_inv_def] assms(1) this, of ok] assms(2) show ?thesis
    by (auto simp: avahi_inv_def services_typed)
qed (use assms in \<open>auto simp: browse_callback_def\<close>)

lemma resolve_callback_tells:
  assumes "resolve_callback g mem found name type domain host_name a port t d = Inr d'" "avahi_inv d"
  shows "avahi_inv d' \<and> grows for_app (av_out d) (av_out d') \<and> av_worker d' = av_worker d \<and> isPaused d' = isPaused d \<and> av_active d' = av_active d"
  using assms by (auto simp: resolve_callback_def rbind_eq_Inr for_app_def typed_any_def split: if_splits)

lemma poll_callbacks_tell:
  "\<forall>e \<in> set es. c_strings_event e \<Longrightarrow> poll_callbacks es d = Some (Inr d') \<Longrightarrow> avahi_inv d \<Longrightarrow>
    avahi_inv d' \<and> grows for_app (av_out d) (av_out d') \<and> av_worker d' = av_worker d \<and> isPaused d' = isPaused d \<and> av_active d' = av_active d"
proof (induction es arbitrary: d)
  case (Cons e es)
  obtain d1 where d1: "poll_callback e d = Some (Inr d1)" "poll_callbacks es d1 = Some (Inr d')"
    using Cons.prems(2) by (auto simp: lbind_def split: option.splits sum.splits)
  have "avahi_inv d1 \<and> grows for_app (av_out d) (av_out d1) \<and> av_worker d1 = av_worker d \<and> isPaused d1 = isPaused d \<and> av_active d1 = av_active d"
    using d1(1) Cons.prems(1,3) browse_callback_tells resolve_callback_tells
    by (cases e) (auto simp: poll_callback_def c_strings_event_def)
  with Cons.IH [OF _ d1(2)] Cons.prems(1) show ?case by (auto intro: grows_trans)
qed simp

lemma avahi_work_tells:
  assumes "avahi_work d (Inr (go, d'))" "avahi_inv d"
  shows "avahi_inv d' \<and> grows for_app (av_out d) (av_out d')"
  using assms
proof (cases rule: avahi_work.cases)
  case (step es status)
  show ?thesis
  proof (cases "av_worker d = In_Loop \<and> av_active d \<and> \<not> isPaused d")
    case True
    then obtain d1 where "poll_callbacks es d = Some (Inr d1)" "d' = d1"
      using step by (auto simp: worker_step_def lbind_def split: option.splits sum.splits if_splits)
    then show ?thesis using poll_callbacks_tell [OF step(2)] assms(2) by simp
  next
    case False
    then show ?thesis using step assms(2) by (auto simp: worker_step_def split: worker.splits if_splits)
  qed
qed simp

lemma avahi_handles:
  assumes "typed_any m" "map_of avahi_callbacks (event_t m) = Some f"
  shows "\<exists>d'. f (data_p m) d = Inr (BVSTATUS_OK, d') \<and> av_ll d' = av_ll d \<and> av_mem d' = av_mem d \<and> av_out d' = av_out d \<and>
    (av_worker d' = av_worker d \<or> event_t m = BVEVENTTYPE_DISCOVERY_REQUEST_RESUME \<and> in_wait d) \<and>
    isPaused d' = (event_t m = BVEVENTTYPE_DISCOVERY_REQUEST_PAUSE \<or> isPaused d \<and> event_t m \<noteq> BVEVENTTYPE_DISCOVERY_REQUEST_RESUME) \<and>
    (av_active d' \<longrightarrow> av_active d \<and> event_t m \<noteq> BVEVENTTYPE_TERMINATE_ALL)"
  using assms
  by (auto simp: avahi_callbacks_def avahi_OnPause_def avahi_OnResume_def avahi_OnShutdown_def avahi_OnResolveRequest_def
      avahi_ResolveService_def in_wait_def typed_any_def typed_def split: if_splits)

interpretation avahi: discovery_part avahi_part typed_any avahi_inv
proof (unfold_locales, goal_cases)
  case (1 m)
  then show ?case by (rule typed_typed_any)
next
  case (3 env m f d st d')
  then obtain d1 where "f (data_p m) d = Inr (BVSTATUS_OK, d1)" "av_ll d1 = av_ll d" "av_mem d1 = av_mem d" "av_out d1 = av_out d"
    using avahi_handles [of m f d] by auto
  with 3 show ?case by (simp add: avahi_inv_def)
next
  case (5 d go d')
  then show ?case using avahi_work_tells [of d go d'] by (auto simp: grows_def for_app_def)
qed auto

section \<open>Start\<close>

text \<open>
  \<open>main\<close> up to the event loop on Linux, without the log file; \<open>le_poll\<close>: whether the poll could be made, and what the Avahi library
  answers and reports during the registration. \<open>Inr None\<close> is \<open>exit (-1)\<close>.
\<close>

record linux_env = run_env +
  le_poll :: bool
  le_lib :: avahi_lib
  le_states :: "client_state list"
  le_created :: bool
  le_changes :: "client_state list"
  le_groups :: "group_state list"

definition linux_start :: "linux_env \<Rightarrow> avahi process option result" where
  "linux_start env =
     (if \<not> le_poll env then Inr None
      else
        rbind (BVService_Avahi_ctor (le_lib env) (le_states env) (le_created env) (se_hostname env) (str ''local.'') PORT) (\<lambda>service.
          (case service of
             None \<Rightarrow> Inr None
           | Some r \<Rightarrow>
               rbind (avahi_Register (le_lib env) (le_changes env) (le_groups env) r) (\<lambda>(status, r).
                 if status \<noteq> BVSTATUS_OK then Inr None
                 else
                   (let sd = GetHostData (rg_service r) in
                    rbind (BVDiscovery_Avahi_ctor (rg_client r) (le_poll env) sd) (\<lambda>d. assemble env d sd))))))"

inductive linux_reach :: "avahi process \<Rightarrow> bool" where
  started: "linux_start env = Inr (Some p) \<Longrightarrow> linux_reach p"
| stepped: "linux_reach p \<Longrightarrow> proc_step avahi_part t p p' \<Longrightarrow> linux_reach p'"

lemma linux_reach_inv: "linux_reach p \<Longrightarrow> avahi.prog_inv p"
proof (induction rule: linux_reach.induct)
  case (started env p)
  then obtain r c d where d: "BVDiscovery_Avahi_ctor c (le_poll env) (GetHostData r) = Inr d" "assemble env d (GetHostData r) = Inr (Some p)"
    by (auto simp: linux_start_def rbind_eq_Inr Let_def split: if_splits option.splits)
  show ?case
    by (rule avahi.assemble_inv [OF d(2)])
      (use d(1) in \<open>auto simp: BVDiscovery_Avahi_ctor_def avahi_inv_def ll_holds_def ll_rep_def LinkedList_str_Constructor_def mem_inv_def
        split: if_splits\<close>)
next
  case (stepped p t p')
  then show ?case using avahi.proc_step_good by (simp add: avahi.good_step_def)
qed

section \<open>After quitting\<close>

lemma avahi_settle_silent: "av_out (p_disc p) = [] \<Longrightarrow> outMail (p_app p) = [] \<Longrightarrow> appMail (mgr (p_app p)) = [] \<Longrightarrow> settle avahi_part p = Inr p"
  by (simp add: settle_def)

lemma avahi_settle_disc: "settle avahi_part p = Inr p' \<Longrightarrow> p_disc p' = (p_disc p)\<lparr>av_out := []\<rparr> \<and> p_worker p' = p_worker p \<and>
    p_disc_up p' = p_disc_up p \<and> p_crashed p' = p_crashed p"
  by (auto simp: settle_def rbind_eq_Inr)

text \<open>A step of a thread other than the worker after the application has ended.\<close>

lemma avahi_quit_step:
  assumes step: "proc_step avahi_part t p p'" "t \<noteq> Worker_Thread" and inv: "avahi.prog_inv p" and quit: "\<not> isRunning (p_app p)"
  shows "waiting p' \<subseteq> waiting p \<union> {BVEVENTTYPE_DISCOVERY_REQUEST_RESOLVE} \<and> p_worker p' = p_worker p \<and>
    (av_worker (p_disc p') = av_worker (p_disc p) \<or> BVEVENTTYPE_DISCOVERY_REQUEST_RESUME \<in> waiting p \<and> in_wait (p_disc p)) \<and>
    (isPaused (p_disc p) \<longrightarrow> isPaused (p_disc p') \<or> BVEVENTTYPE_DISCOVERY_REQUEST_RESUME \<in> waiting p) \<and>
    (isPaused (p_disc p') \<longrightarrow> isPaused (p_disc p) \<or> BVEVENTTYPE_DISCOVERY_REQUEST_PAUSE \<in> waiting p) \<and>
    (av_active (p_disc p') \<longrightarrow> av_active (p_disc p)) \<and>
    (p_disc_up p \<longrightarrow> p_disc_up p' \<or> \<not> av_active (p_disc p'))"
  using step inv quit
proof (induction rule: proc_step.induct)
  case (broker p w)
  note t = avahi.prog_invD(1) [OF broker.prems(2)]
  show ?case by (rule broker_round_transit [OF t _ broker.hyps(2,3)]) (auto simp: waiting_def)
next
  case (disc_mail p env go w d p')
  let ?p1 = "p\<lparr>p_bus := w, p_disc := d, p_disc_up := go\<rparr>"
  obtain m f where m: "avahi.saying ?p1" "event_t m \<in> waiting p" "typed_any m" "op_handlers avahi_part env (event_t m) = Some f"
    "f (data_p m) (p_disc p) = Inr (BVSTATUS_OK, d)" "op_out avahi_part d = []" "waiting ?p1 \<subseteq> waiting p"
    "go \<longleftrightarrow> event_t m \<noteq> BVEVENTTYPE_TERMINATE_ALL"
    by (rule avahi.disc_mail_said [OF disc_mail.prems(2) disc_mail.hyps(2,3) refl])
  have "av_out d = []" "outMail (p_app p) = []" using m(6) avahi.prog_invD(5) [OF disc_mail.prems(2)] by simp_all
  then have w: "waiting p' \<subseteq> waiting p" using avahi.settle_waits [OF m(1) disc_mail.hyps(4)] m(7) by auto
  have h: "map_of avahi_callbacks (event_t m) = Some f" using m(4) by simp
  show ?case using w avahi_settle_disc [OF disc_mail.hyps(4)] avahi_handles [OF m(3) h, of "p_disc p"] m(2,5,8) by auto
next
  case (app_mail p aenv go w a p')
  let ?p1 = "p\<lparr>p_bus := w, p_app := a, p_app_up := go\<rparr>"
  have a: "avahi.saying ?p1" "waiting ?p1 \<subseteq> waiting p" "event_t ` set (outMail a) \<subseteq> {BVEVENTTYPE_DISCOVERY_REQUEST_RESOLVE}"
    by (rule avahi.app_mail_said [OF app_mail.prems(2) app_mail.hyps(2,3) refl]; assumption)+
  have "av_out (p_disc p) = []" using avahi.prog_invD(4) [OF app_mail.prems(2)] by simp
  with avahi.settle_waits [OF a(1) app_mail.hyps(4)] a(2,3) avahi_settle_disc [OF app_mail.hyps(4)] show ?case by auto
next
  case (disc_loop p d p')
  then show ?case by simp
next
  case (app_loop p a p')
  then show ?case using avahi.running by blast
qed (auto simp: waiting_def)

text \<open>Browsing is paused for good: the worker thread waits, and no request to resume is on its way.\<close>

definition stuck :: "avahi process \<Rightarrow> bool" where
  "stuck p \<longleftrightarrow> \<not> isRunning (p_app p) \<and> p_worker p \<and> in_wait (p_disc p) \<and> isPaused (p_disc p) \<and>
     BVEVENTTYPE_DISCOVERY_REQUEST_RESUME \<notin> waiting p"

text \<open>The termination is on its way to a worker thread that is in its loop, and browsing is not going to be paused.\<close>

definition closing :: "avahi process \<Rightarrow> bool" where
  "closing p \<longleftrightarrow> \<not> isRunning (p_app p) \<and> p_worker p \<and> av_worker (p_disc p) = In_Loop \<and> \<not> isPaused (p_disc p) \<and>
     (p_disc_up p \<or> \<not> av_active (p_disc p)) \<and> BVEVENTTYPE_DISCOVERY_REQUEST_PAUSE \<notin> waiting p"

lemma quit_stays:
  assumes "proc_step avahi_part t p p'" "avahi.prog_inv p" "\<not> isRunning (p_app p)"
  shows "avahi.prog_inv p' \<and> \<not> isRunning (p_app p')"
  using avahi.proc_step_good [OF assms(1,2)] assms(3) by (simp add: avahi.good_step_def)

lemma stuck_work:
  assumes "avahi_work d (Inr (go, d'))" "in_wait d" "isPaused d"
  shows "go \<and> in_wait d' \<and> isPaused d' \<and> av_out d' = av_out d"
  using assms by (cases rule: avahi_work.cases) (auto simp: in_wait_def worker_step_def)

lemma stuck_step:
  assumes "proc_step avahi_part t p p'" "avahi.prog_inv p" "stuck p"
  shows "stuck p'"
proof (cases "t = Worker_Thread")
  case True
  have out: "av_out (p_disc p) = []" "outMail (p_app p) = []" "appMail (mgr (p_app p)) = []" using avahi.prog_invD(4-6) [OF assms(2)] by simp_all
  from assms(1) True assms(3) out show ?thesis
  proof (cases rule: proc_step.cases)
    case (worker go d)
    have "go \<and> in_wait d \<and> isPaused d \<and> av_out d = []"
      using stuck_work [of "p_disc p" go d] worker(4) assms(3) out(1) by (simp add: stuck_def)
    with worker(5) out(2,3) assms(3) show ?thesis by (auto simp: stuck_def waiting_def avahi_settle_silent)
  qed (auto simp: stuck_def waiting_def)
next
  case False
  with avahi_quit_step [OF assms(1) False assms(2)] quit_stays [OF assms(1,2)] assms(3) show ?thesis
    by (auto simp: stuck_def in_wait_def)
qed

lemma stuck_run: "proc_run avahi_part ts p q \<Longrightarrow> avahi.prog_inv p \<Longrightarrow> stuck p \<Longrightarrow> stuck q"
proof (induction rule: proc_run.induct)
  case (goes t p q ts r)
  then show ?case using quit_stays [OF goes.hyps(1)] stuck_step [OF goes.hyps(1)] by (auto simp: stuck_def)
qed simp

lemma closing_work:
  assumes "avahi_work d (Inr (go, d'))" "avahi_inv d" "av_worker d = In_Loop" "\<not> isPaused d"
  shows "\<not> go \<or> av_worker d' = In_Loop \<and> \<not> isPaused d' \<and> av_active d"
  using assms
proof (cases rule: avahi_work.cases)
  case (step es status)
  then show ?thesis
    using assms(2-) poll_callbacks_tell [OF step(2), of d]
    by (auto simp: worker_step_def lbind_def split: option.splits sum.splits if_splits)
qed simp

lemma closing_step:
  assumes step: "proc_step avahi_part t p p'" and inv: "avahi.prog_inv p" and c: "closing p"
  shows "p_crashed p' \<or> closing p' \<or> \<not> p_worker p'"
proof (cases "t = Worker_Thread")
  case False
  with avahi_quit_step [OF step False inv] quit_stays [OF step inv] c show ?thesis by (auto simp: closing_def in_wait_def)
next
  case True
  from step True c show ?thesis
  proof (cases rule: proc_step.cases)
    case (worker go d)
    have w: "avahi_work (p_disc p) (Inr (go, d))" using worker(4) by simp
    have d: "avahi_inv d" "grows for_app [] (av_out d)"
      using avahi_work_tells [OF w] avahi.prog_invD(2,4) [OF inv] by auto
    let ?p1 = "p\<lparr>p_disc := d, p_worker := go\<rparr>"
    have "avahi.saying ?p1"
      by (rule avahi.disc_said_more [OF inv d(1) _ refl]) (use d(2) avahi.prog_invD(4) [OF inv] in \<open>auto simp: grows_def for_app_def\<close>)
    from avahi.settle_waits [OF this worker(5)] avahi.prog_invD(5) [OF inv]
    have "waiting p' \<subseteq> waiting p \<union> event_t ` set (av_out d)" by (simp add: waiting_def)
    moreover have "BVEVENTTYPE_DISCOVERY_REQUEST_PAUSE \<notin> event_t ` set (av_out d)" using d(2) by (auto simp: grows_def for_app_def)
    ultimately have "BVEVENTTYPE_DISCOVERY_REQUEST_PAUSE \<notin> waiting p'" using c by (auto simp: closing_def)
    with avahi_settle_disc [OF worker(5)] closing_work [OF w] avahi.prog_invD(2) [OF inv] quit_stays [OF step inv] c show ?thesis
      using worker by (auto simp: closing_def)
  qed auto
qed

text \<open>From everywhere on such a run the threads can come to their end.\<close>

lemma worker_over: "proc_step avahi_part t p p' \<Longrightarrow> \<not> p_worker p \<Longrightarrow> \<not> p_worker p'"
  by (erule proc_step.cases) (auto dest: avahi_settle_disc)

lemma crashed_stops: "p_crashed p \<Longrightarrow> \<not> proc_step avahi_part t p p'"
  by (auto elim: proc_step.cases)

lemma closing_run:
  "proc_run avahi_part ts p q \<Longrightarrow> avahi.prog_inv p \<Longrightarrow> \<not> isRunning (p_app p) \<Longrightarrow> p_crashed p \<or> closing p \<or> \<not> p_worker p \<Longrightarrow>
    p_crashed q \<or> closing q \<or> \<not> p_worker q"
proof (induction rule: proc_run.induct)
  case (goes t p q ts r)
  have "p_crashed q \<or> closing q \<or> \<not> p_worker q"
    using goes.prems(3) crashed_stops [of p t q] closing_step [OF goes.hyps(1) goes.prems(1)] worker_over [OF goes.hyps(1)] goes.hyps(1) by blast
  then show ?case using goes.IH quit_stays [OF goes.hyps(1) goes.prems(1,2)] by blast
qed

lemma closing_ends:
  assumes inv: "avahi.prog_inv p" and c: "closing p" "\<not> p_disc_up p" "\<not> p_crashed p"
  shows "proc_step avahi_part Worker_Thread p (p\<lparr>p_disc := (p_disc p)\<lparr>av_worker := Ended\<rparr>, p_worker := False\<rparr>)"
proof -
  have "worker_step 0 [] (p_disc p) = Some (Inr ((p_disc p)\<lparr>av_worker := Ended\<rparr>))" using c(1,2) by (simp add: closing_def worker_step_def)
  from avahi_work.step [OF _ this] have "avahi_work (p_disc p) (Inr (False, (p_disc p)\<lparr>av_worker := Ended\<rparr>))" by simp
  then show ?thesis
    using avahi.prog_invD(4-6) [OF inv] c(1,3)
    by (intro proc_step.worker [where go = False]) (auto simp: closing_def intro!: avahi_settle_silent)
qed

text \<open>When the mailbox thread of discovery has ended, the next step of the worker thread is its last, whatever the poll would give.\<close>

lemma closing_last_step:
  assumes inv: "avahi.prog_inv p" and c: "closing p" "\<not> p_disc_up p" and step: "proc_step avahi_part Worker_Thread p p'"
  shows "\<not> p_worker p' \<and> \<not> p_crashed p' \<and> p_bus p' = p_bus p \<and> p_disc_up p' = p_disc_up p \<and> p_app_up p' = p_app_up p"
proof -
  have d: "av_worker (p_disc p) = In_Loop" "\<not> av_active (p_disc p)" using c by (simp_all add: closing_def)
  have only: "r = Inr (False, (p_disc p)\<lparr>av_worker := Ended\<rparr>)" if "avahi_work (p_disc p) r" for r
    using that d by (cases rule: avahi_work.cases) (auto simp: worker_step_def)
  from step show ?thesis
  proof (cases rule: proc_step.cases)
    case (worker go d')
    then have "go = False" "d' = (p_disc p)\<lparr>av_worker := Ended\<rparr>" using only by auto
    with worker avahi.prog_invD(4-6) [OF inv] show ?thesis by (auto simp: avahi_settle_silent)
  next
    case (worker_crash e)
    then show ?thesis using only by auto
  qed
qed

lemma closing_progress:
  assumes inv: "avahi.prog_inv q" and quit: "\<not> isRunning (p_app q)" and c: "p_crashed q \<or> closing q \<or> \<not> p_worker q"
  shows "p_crashed q \<or> joined q \<or> (\<exists>t r. t \<noteq> Worker_Thread \<and> proc_step avahi_part t q r) \<or>
    (\<exists>r. proc_step avahi_part Worker_Thread q r) \<and>
    (\<forall>r. proc_step avahi_part Worker_Thread q r \<longrightarrow> joined r \<and> \<not> p_crashed r)"
proof (cases "p_crashed q \<or> up q \<or> p_disc_up q \<or> p_app_up q")
  case True
  then show ?thesis using avahi.others_go_on [OF inv quit] by blast
next
  case False
  then have off: "\<not> p_crashed q" "\<not> p_disc_up q" "\<not> p_app_up q" "\<not> b_isRunning (brok (p_bus q))" by auto
  show ?thesis
  proof (cases "p_worker q")
    case True
    with c off have cl: "closing q" by blast
    have "joined r \<and> \<not> p_crashed r" if "proc_step avahi_part Worker_Thread q r" for r
      using closing_last_step [OF inv cl off(2) that] off by (simp add: joined_def)
    then show ?thesis using closing_ends [OF inv cl off(2,1)] by blast
  qed (use off in \<open>simp add: joined_def\<close>)
qed

lemma closing_finishes:
  assumes "avahi.prog_inv p" "\<not> isRunning (p_app p)" "p_crashed p \<or> closing p \<or> \<not> p_worker p"
  shows "\<exists>us q. proc_run avahi_part us p q \<and> (p_crashed q \<or> joined q)"
  using assms
proof (induction "quit_bound p" arbitrary: p rule: less_induct)
  case less
  note inv = less.prems(1)
  consider "p_crashed p" | "\<not> p_crashed p" "up p \<or> p_disc_up p \<or> p_app_up p" | "\<not> p_crashed p" "\<not> up p" "\<not> p_disc_up p" "\<not> p_app_up p" by blast
  then show ?case
  proof cases
    case 2
    obtain t p1 where p1: "t \<noteq> Worker_Thread" "proc_step avahi_part t p p1" using avahi.others_go_on [OF inv less.prems(2) 2] by blast
    have q: "avahi.prog_inv p1" "\<not> isRunning (p_app p1)" "quit_bound p1 < quit_bound p"
      using avahi.proc_step_good [OF p1(2) inv] less.prems(2) p1(1) by (auto simp: avahi.good_step_def cost_def)
    have "p_crashed p1 \<or> closing p1 \<or> \<not> p_worker p1"
      using closing_run [OF proc_run.goes [OF p1(2) proc_run.stays] less.prems] .
    with less.hyps [OF q(3,1,2)] proc_run.goes [OF p1(2)] show ?thesis by blast
  next
    case 3
    show ?thesis
    proof (cases "p_worker p")
      case True
      with less.prems(3) 3 have "closing p" by blast
      from proc_run.goes [OF closing_ends [OF inv this 3(3,1)] proc_run.stays] 3 show ?thesis by (fastforce simp: joined_def)
    qed (use 3 proc_run.stays in \<open>fastforce simp: joined_def\<close>)
  qed (use proc_run.stays in blast)
qed

lemma discovery_accepts:
  assumes inv: "avahi.prog_inv p"
  shows "listen_step (map_of avahi_callbacks) (p_dc p) (p_bus p, p_disc p) \<noteq> Some (Inl e)"
proof
  assume "listen_step (map_of avahi_callbacks) (p_dc p) (p_bus p, p_disc p) = Some (Inl e)"
  then obtain m where m: "typed_any (pmsgs p m)" "event_t (pmsgs p m) \<in> set discovery_events"
      "\<forall>f d. map_of avahi_callbacks (event_t (pmsgs p m)) = Some f \<longrightarrow> f (data_p (pmsgs p m)) (p_disc p) \<noteq> Inr (BVSTATUS_OK, d)"
    by (rule avahi.head_message [OF inv disjI1 [OF conjI [OF refl refl]]])
  then obtain f where "map_of avahi_callbacks (event_t (pmsgs p m)) = Some f"
    by (auto simp: discovery_events_def avahi_callbacks_def)
  with avahi_handles [OF m(1) this, of "p_disc p"] m(3) show False by blast
qed

section \<open>Properties\<close>

text \<open>C9: over every run of the program on Linux, in any order of its threads, every waiting message has a payload of the type its receiver casts it to; the mailbox thread of discovery is never left by an exception, and that of the application only on a resolved service or in a file transfer.\<close>

theorem linux_mail_is_typed:
  assumes "linux_reach p"
  shows "(\<forall>m \<in> set (inbox (p_bus p)) \<union> set (dm p) \<union> set (am p). typed_any (pmsgs p m)) \<and>
    listen_step (map_of avahi_callbacks) (p_dc p) (p_bus p, p_disc p) \<noteq> Some (Inl e) \<and>
    (listen_step (console_handlers aenv) (p_ac p) (p_bus p, p_app p) = Some (Inl e) \<longrightarrow>
       event_t (pmsgs p (hd (am p))) \<in> {BVEVENTTYPE_APP_DISCOVERY_SERVICE_RESOLVED, BVEVENTTYPE_APP_FILE_TRANSFER_BEGIN,
         BVEVENTTYPE_APP_FILE_TRANSFER_CHUNK_SENT, BVEVENTTYPE_APP_FILE_TRANSFER_END})"
  using avahi.mail_T [OF linux_reach_inv [OF assms]] avahi.app_refuses [OF linux_reach_inv [OF assms]]
    discovery_accepts [OF linux_reach_inv [OF assms]] by blast

text \<open>C6: once the user has quit, with the worker thread of discovery in its loop, not paused and with no request to pause on its way, the other threads take at most \<open>quit_bound\<close> steps, in any order. At every moment of such a run an exception has ended the process, or every thread has ended, or one of the other threads can take a step, or the worker thread is the last: it has been told to stop, and whatever the poll gives, its next step ends it without an exception, so that \<open>main\<close> gets past joining the threads.\<close>

theorem linux_quitting_ends:
  assumes "linux_reach p" "closing p" "proc_run avahi_part ts p q"
  shows "length (filter (\<lambda>t. t \<noteq> Worker_Thread) ts) \<le> quit_bound p \<and>
    (p_crashed q \<or> joined q \<or> (\<exists>t r. t \<noteq> Worker_Thread \<and> proc_step avahi_part t q r) \<or>
     (\<exists>r. proc_step avahi_part Worker_Thread q r) \<and>
     (\<forall>r. proc_step avahi_part Worker_Thread q r \<longrightarrow> joined r \<and> \<not> p_crashed r)) \<and>
    (\<exists>us r. proc_run avahi_part us q r \<and> (p_crashed r \<or> joined r))"
proof -
  note inv = linux_reach_inv [OF assms(1)]
  have quit: "\<not> isRunning (p_app p)" using assms(2) by (simp add: closing_def)
  note q = avahi.proc_run_good [OF assms(3) inv]
  have c: "p_crashed q \<or> closing q \<or> \<not> p_worker q" using closing_run [OF assms(3) inv quit] assms(2) by blast
  have "avahi.prog_inv q" "\<not> isRunning (p_app q)" "length (filter (\<lambda>t. t \<noteq> Worker_Thread) ts) \<le> quit_bound p" using q quit by auto
  with closing_finishes [OF this(1,2) c] closing_progress [OF this(1,2) c] show ?thesis by blast
qed

text \<open>C37: once the user has quit while browsing is paused, the other threads take at most \<open>quit_bound\<close> steps, but the worker thread of discovery stays in its wait for ever, and \<open>main\<close> never gets past joining it.\<close>

theorem linux_quit_while_paused_hangs:
  assumes "linux_reach p" "stuck p" "proc_run avahi_part ts p q"
  shows "length (filter (\<lambda>t. t \<noteq> Worker_Thread) ts) \<le> quit_bound p \<and> p_worker q \<and> in_wait (p_disc q) \<and> \<not> joined q"
proof -
  note inv = linux_reach_inv [OF assms(1)]
  have "stuck q" by (rule stuck_run [OF assms(3) inv assms(2)])
  with avahi.proc_run_good [OF assms(3) inv] assms(2) show ?thesis by (auto simp: stuck_def joined_def)
qed

section \<open>Concrete runs\<close>

text \<open>A key of the main menu that sends one message.\<close>

lemma key_sends:
  assumes inv: "avahi.prog_inv p" and on: "\<not> p_crashed p" "\<not> io_stopped avahi_part p" and io: "app_io (p_app p) (Inr a)"
    and a: "outMail a = [m]" "appMail (mgr a) = []"
  obtains p' where "proc_step avahi_part Event_Loop p p'" "inbox (p_bus p') \<noteq> []" "waiting p' \<subseteq> insert (event_t m) (waiting p)"
    "p_disc p' = p_disc p" "p_app p' = a\<lparr>outMail := []\<rparr>" "p_worker p' = p_worker p" "p_disc_up p' = p_disc_up p"
    "p_crashed p' = p_crashed p" "up p' = up p"
proof -
  note said = avahi.said_more [OF inv avahi.running [OF inv on(2)] io]
  obtain p' where p': "settle avahi_part (p\<lparr>p_app := a\<rparr>) = Inr p'" by (rule avahi.settled [OF said])
  have "typed_any m" using said a(1) by (simp add: avahi.saying_def)
  then obtain js w where w: "put_all (b_inMailBox (brok (p_bus p))) [m] (p_bus p) = Inr w" "more_mail (p_dc p) (p_ac p) (p_bus p) js [] w"
      "\<forall>m' \<in> set [m]. \<exists>k \<in> set js. nextm (p_bus p) \<le> k \<and> k < nextm w \<and> msgs w k = m'"
    using put_for_broker [OF avahi.prog_invD(1) [OF inv], of "[m]"] by (metis empty_iff empty_set set_ConsD)
  have out: "comp_out (p_ac p) = b_inMailBox (brok (p_bus p))" using avahi.prog_invD(1) [OF inv] by (simp add: transit_def wired_def)
  have same: "(p_disc p)\<lparr>av_out := []\<rparr> = p_disc p" "(mgr a)\<lparr>appMail := []\<rparr> = mgr a" using avahi.prog_invD(4) [OF inv] a(2) by simp_all
  have "p' = p\<lparr>p_bus := w, p_app := a\<lparr>outMail := []\<rparr>\<rparr>"
    using p' w(1) a avahi.prog_invD(4) [OF inv] out by (auto simp: settle_def same simp del: put_all.simps(2))
  moreover have "waiting p' \<subseteq> insert (event_t m) (waiting p)"
    using avahi.settle_waits [OF said p'] avahi.prog_invD(4) [OF inv] a(1) by (simp add: waiting_def)
  moreover have "inbox w \<noteq> []" "brok w = brok (p_bus p)" using w(2,3) by (auto simp: more_mail_def)
  ultimately show ?thesis using that [OF proc_step.app_loop [OF on io p']] by simp
qed

text \<open>The program in its main menu, with \<open>w\<close> what the worker thread does and \<open>E\<close> what waits for discovery.\<close>

definition in_menu :: "worker \<Rightarrow> BVEventType set \<Rightarrow> avahi process \<Rightarrow> bool" where
  "in_menu w E p \<longleftrightarrow> linux_reach p \<and> stdinArmed (p_app p) \<and> uiState (p_app p) = MainMenu \<and> isRunning (p_app p) \<and> \<not> io_stopped avahi_part p \<and>
     \<not> p_crashed p \<and> p_worker p \<and> p_disc_up p \<and> up p \<and> av_worker (p_disc p) = w \<and> waiting p \<subseteq> E"

definition example_linux :: linux_env where
  "example_linux = \<lparr>se_hostname = str ''alice'', se_error = 0, se_processed = 0, se_replies = [], se_hard_fail = False,
     se_ec = False, se_results = [], se_sockets = [True, True, True, True, True], se_fs = example_fs,
     se_discovery = example_part, se_client = example_part, me_app = example_app_env,
     le_poll = True, le_lib = example_lib 0, le_states = [AVAHI_CLIENT_S_RUNNING], le_created = True, le_changes = [],
     le_groups = []\<rparr>"

lemma example_linux_starts: "\<exists>p. linux_start example_linux = Inr (Some p) \<and> in_menu Starting {} p \<and> \<not> isPaused (p_disc p)"
proof -
  have new: "subs_m (brok new_bus) = []" "b_isRunning (brok new_bus)" "inbox new_bus = []"
    by (simp_all add: new_bus_def BVBroker_ctor_def inbox_def tsq_list_new)
  with setup_broker_wires [OF new_bus_inv new_bus_slot, of example_part example_part]
  obtain dc ac w where w: "setup_broker example_part example_part new_bus = Some (dc, ac, w)" "b_isRunning (brok w)" "inbox w = []"
      "connected_to example_part dc w" by auto
  have u: "uiState (PrintAll b) = uiState b" "ioStopped (PrintAll b) = ioStopped b" for b by simp_all
  have dm: "box w (comp_in dc) = []" using w(4) by (auto simp: connected_to_def mailbox_def box_def)
  have h: "str ''alice'' \<noteq> []" "comma \<notin> set (str ''alice'')" by (simp_all add: str_def comma_def)
  have "\<exists>p. linux_start example_linux = Inr (Some p) \<and> stdinArmed (p_app p) \<and> uiState (p_app p) = MainMenu \<and> isRunning (p_app p) \<and>
      \<not> io_stopped avahi_part p \<and> \<not> p_crashed p \<and> p_worker p \<and> p_disc_up p \<and> up p \<and> av_worker (p_disc p) = Starting \<and>
      waiting p = {} \<and> \<not> isPaused (p_disc p)"
    using h w dm
    by (simp add: linux_start_def assemble_def example_linux_def example_lib_def BVService_Avahi_ctor_def CreateAvahiClient_def client_callback_def
        create_services_host [simplified] BVService_ctor_def Let_def avahi_Register_def BVDiscovery_Avahi_ctor_def
        BVApp_ConsoleClient_ctor_def BVTCPConnectionManager_ctor_def
        StartAcceptingConnections_def app_Run_def Render_def StartStdinRead_def io_stopped_def u waiting_def)
  then show ?thesis using linux_reach.started by (auto simp: in_menu_def)
qed

lemma menu_pause:
  assumes "in_menu w {} p"
  shows "\<exists>p'. in_menu w {BVEVENTTYPE_DISCOVERY_REQUEST_PAUSE} p' \<and> inbox (p_bus p') \<noteq> []"
proof -
  note p = assms [unfolded in_menu_def]
  have inv: "avahi.prog_inv p" using linux_reach_inv p by blast
  let ?a = "StartStdinRead (app_SendMessage (mail BVEVENTTYPE_DISCOVERY_REQUEST_PAUSE) ((p_app p)\<lparr>stdinArmed := False\<rparr>))"
  have "stdin_handler example_app_env False 1 112 (p_app p) = Inr ?a"
    using p by (simp add: stdin_handler_def OnKey_def HandleMainMenuKey_def ParseConsoleActionFromKey_def tolower_def
        app_SendMessage_def io_stopped_def Let_def)
  then have io: "app_io (p_app p) (Inr ?a)" using app_io.key [of "p_app p" example_app_env False 1 112] p by simp
  have a: "outMail ?a = [mail BVEVENTTYPE_DISCOVERY_REQUEST_PAUSE]" "appMail (mgr ?a) = []"
    using avahi.prog_invD(5,6) [OF inv] by (simp_all add: StartStdinRead_def app_SendMessage_def)
  have on: "\<not> p_crashed p" "\<not> io_stopped avahi_part p" using p by blast+
  obtain p' where p': "proc_step avahi_part Event_Loop p p'" "inbox (p_bus p') \<noteq> []"
      "waiting p' \<subseteq> insert (event_t (mail BVEVENTTYPE_DISCOVERY_REQUEST_PAUSE)) (waiting p)"
    "p_disc p' = p_disc p" "p_app p' = ?a\<lparr>outMail := []\<rparr>" "p_worker p' = p_worker p" "p_disc_up p' = p_disc_up p"
    "p_crashed p' = p_crashed p" "up p' = up p"
    by (rule key_sends [OF inv on io a])
  have "linux_reach p'" using linux_reach.stepped p'(1) p by blast
  then show ?thesis
    using p p'(2-) by (intro exI [of _ p']) (auto simp: in_menu_def io_stopped_def mail_def StartStdinRead_def app_SendMessage_def)
qed

lemma menu_quit:
  assumes "in_menu w E p"
  shows "\<exists>p'. linux_reach p' \<and> \<not> isRunning (p_app p') \<and> p_worker p' \<and> p_disc_up p' \<and> p_disc p' = p_disc p \<and>
    waiting p' \<subseteq> insert BVEVENTTYPE_TERMINATE_ALL E"
proof -
  note p = assms [unfolded in_menu_def]
  have inv: "avahi.prog_inv p" using linux_reach_inv p by blast
  let ?a = "StopIOContext ((app_SendMessage (mail BVEVENTTYPE_TERMINATE_ALL) ((p_app p)\<lparr>stdinArmed := False\<rparr>))\<lparr>isRunning := False\<rparr>)"
  have "stdin_handler example_app_env False 1 113 (p_app p) = Inr ?a"
    using p by (simp add: stdin_handler_def OnKey_def HandleMainMenuKey_def ParseConsoleActionFromKey_def tolower_def
        app_SendMessage_def StopIOContext_def io_stopped_def Let_def)
  then have io: "app_io (p_app p) (Inr ?a)" using app_io.key [of "p_app p" example_app_env False 1 113] p by simp
  have a: "outMail ?a = [mail BVEVENTTYPE_TERMINATE_ALL]" "appMail (mgr ?a) = []"
    using avahi.prog_invD(5,6) [OF inv] by (simp_all add: StopIOContext_def app_SendMessage_def)
  have on: "\<not> p_crashed p" "\<not> io_stopped avahi_part p" using p by blast+
  obtain p' where p': "proc_step avahi_part Event_Loop p p'" "inbox (p_bus p') \<noteq> []"
      "waiting p' \<subseteq> insert (event_t (mail BVEVENTTYPE_TERMINATE_ALL)) (waiting p)"
    "p_disc p' = p_disc p" "p_app p' = ?a\<lparr>outMail := []\<rparr>" "p_worker p' = p_worker p" "p_disc_up p' = p_disc_up p"
    by (rule key_sends [OF inv on io a])
  have "linux_reach p'" using linux_reach.stepped p'(1) p by blast
  then show ?thesis using p p'(2-) by (intro exI [of _ p']) (auto simp: mail_def StopIOContext_def)
qed

text \<open>A step of the worker that sends nothing.\<close>

lemma menu_work:
  assumes "in_menu w E p" and d: "worker_step 0 [] (p_disc p) = Some (Inr d)" "av_out d = []" "av_worker d \<notin> {Ended, Threw}"
  shows "in_menu (av_worker d) E (p\<lparr>p_disc := d, p_worker := True\<rparr>)"
proof -
  note p = assms(1) [unfolded in_menu_def]
  have inv: "avahi.prog_inv p" using linux_reach_inv p by blast
  have "avahi_work (p_disc p) (Inr (True, d))" using avahi_work.step [OF _ d(1)] d(3) by simp
  then have "proc_step avahi_part Worker_Thread p (p\<lparr>p_disc := d, p_worker := True\<rparr>)"
    using p avahi.prog_invD(5,6) [OF inv] d(2) by (intro proc_step.worker) (auto intro!: avahi_settle_silent)
  then show ?thesis using p linux_reach.stepped by (auto simp: in_menu_def io_stopped_def waiting_def)
qed

text \<open>A request to pause on its way to discovery, and handled.\<close>

lemma menu_broker:
  assumes "in_menu w {BVEVENTTYPE_DISCOVERY_REQUEST_PAUSE} p" "inbox (p_bus p) \<noteq> []"
  shows "\<exists>p'. in_menu w {BVEVENTTYPE_DISCOVERY_REQUEST_PAUSE} p' \<and> dm p' \<noteq> []"
proof -
  note p = assms(1) [unfolded in_menu_def]
  have inv: "avahi.prog_inv p" using linux_reach_inv p by blast
  note t = avahi.prog_invD(1) [OF inv]
  have bus: "bus_inv (p_bus p)" using t by (simp add: transit_def wired_def)
  obtain m ms where m: "inbox (p_bus p) = m # ms" using assms(2) by (auto simp: neq_Nil_conv)
  have up: "up p" using p by blast
  have ev: "event_t (pmsgs p m) = BVEVENTTYPE_DISCOVERY_REQUEST_PAUSE" using p m by (auto simp: waiting_def)
  obtain w' where w': "broker_step (p_bus p) = Some (Inr w')" by (rule broker_step_ok [OF bus up m])
  have step: "proc_step avahi_part Broker_Thread p (p\<lparr>p_bus := w'\<rparr>)" using proc_step.broker [OF _ up w'] p by blast
  show ?thesis
  proof (rule broker_round_transit [OF t _ up w'])
    fix m1
    assume r: "inbox (p_bus p) = m1 # inbox w'" "msgs w' = pmsgs p"
      "box w' (comp_in (p_dc p)) = dm p @ (if event_t (pmsgs p m1) \<in> set discovery_events then [m1] else [])"
      "b_isRunning (brok w') \<longleftrightarrow> event_t (pmsgs p m1) \<noteq> BVEVENTTYPE_TERMINATE_ALL"
    have "waiting (p\<lparr>p_bus := w'\<rparr>) \<subseteq> waiting p" using r by (auto simp: waiting_def)
    then have "in_menu w {BVEVENTTYPE_DISCOVERY_REQUEST_PAUSE} (p\<lparr>p_bus := w'\<rparr>)"
      using p linux_reach.stepped [OF _ step] r(1,4) m ev by (auto simp: in_menu_def io_stopped_def)
    moreover have "box w' (comp_in (p_dc p)) \<noteq> []" using r(1,3) m ev by (simp add: discovery_events_def)
    ultimately show ?thesis by (intro exI [of _ "p\<lparr>p_bus := w'\<rparr>"]) simp
  qed
qed

lemma menu_paused:
  assumes "in_menu w {BVEVENTTYPE_DISCOVERY_REQUEST_PAUSE} p" "dm p \<noteq> []"
  shows "\<exists>p'. in_menu w {BVEVENTTYPE_DISCOVERY_REQUEST_PAUSE} p' \<and> isPaused (p_disc p')"
proof -
  note p = assms(1) [unfolded in_menu_def]
  have inv: "avahi.prog_inv p" using linux_reach_inv p by blast
  have on: "p_disc_up p" using p by blast
  have bus: "bus_inv (p_bus p)" using avahi.prog_invD(1) [OF inv] by (simp add: transit_def wired_def)
  obtain m ms where "tsq_list (queues (p_bus p) (comp_in (p_dc p))) = m # ms" using assms(2) by (auto simp: box_def neq_Nil_conv)
  then obtain r where "listen_step (map_of avahi_callbacks) (p_dc p) (p_bus p, p_disc p) = Some r"
    using listen_step_message [of "p_bus p" "p_dc p"] bus by (metis bus_inv_def)
  then obtain go w' d where l: "listen_step (op_handlers avahi_part ()) (p_dc p) (p_bus p, p_disc p) = Some (Inr (go, w', d))"
    using discovery_accepts [OF inv] by (cases r) auto
  let ?p1 = "p\<lparr>p_bus := w', p_disc := d, p_disc_up := go\<rparr>"
  obtain m f where m: "avahi.saying ?p1" "event_t m \<in> waiting p" "typed_any m" "op_handlers avahi_part () (event_t m) = Some f"
    "f (data_p m) (p_disc p) = Inr (BVSTATUS_OK, d)" "op_out avahi_part d = []" "waiting ?p1 \<subseteq> waiting p"
    "go \<longleftrightarrow> event_t m \<noteq> BVEVENTTYPE_TERMINATE_ALL"
    by (rule avahi.disc_mail_said [OF inv on l refl])
  have ev: "event_t m = BVEVENTTYPE_DISCOVERY_REQUEST_PAUSE" using m(2) p by blast
  have h: "map_of avahi_callbacks (event_t m) = Some f" using m(4) by simp
  have d: "isPaused d" "av_worker d = av_worker (p_disc p)" using avahi_handles [OF m(3) h, of "p_disc p"] m(5) ev by auto
  have out: "av_out d = []" "outMail (p_app p) = []" "appMail (mgr (p_app p)) = []" using m(6) avahi.prog_invD(5,6) [OF inv] by simp_all
  have s: "settle avahi_part ?p1 = Inr ?p1" by (rule avahi_settle_silent) (use out in simp_all)
  have "linux_reach ?p1" using linux_reach.stepped [OF _ proc_step.disc_mail [OF _ on l s]] p by blast
  moreover have "brok w' = brok (p_bus p)"
    by (rule mail_round [of "p_bus p" "p_dc p" "p_ac p", OF _ _ l]) (use avahi.prog_invD(1) [OF inv] in \<open>simp_all add: transit_def\<close>)
  ultimately show ?thesis using p d m(7,8) ev by (intro exI [of _ ?p1]) (auto simp: in_menu_def io_stopped_def)
qed

lemma example_pauses: "\<exists>p. linux_reach p \<and> stuck p"
proof -
  obtain p0 where p0: "in_menu Starting {} p0" using example_linux_starts by blast
  obtain p1 where p1: "in_menu Starting {BVEVENTTYPE_DISCOVERY_REQUEST_PAUSE} p1" "inbox (p_bus p1) \<noteq> []" using menu_pause [OF p0] by blast
  obtain p2 where p2: "in_menu Starting {BVEVENTTYPE_DISCOVERY_REQUEST_PAUSE} p2" "dm p2 \<noteq> []" using menu_broker [OF p1] by blast
  obtain p3 where p3: "in_menu Starting {BVEVENTTYPE_DISCOVERY_REQUEST_PAUSE} p3" "isPaused (p_disc p3)" using menu_paused [OF p2] by blast
  have out: "av_out (p_disc p3) = []" "av_worker (p_disc p3) = Starting"
    using avahi.prog_invD(4) [OF linux_reach_inv] p3(1) by (auto simp: in_menu_def)
  let ?d = "(p_disc p3)\<lparr>av_active := True, av_worker := In_Loop\<rparr>"
  have p4: "in_menu In_Loop {BVEVENTTYPE_DISCOVERY_REQUEST_PAUSE} (p3\<lparr>p_disc := ?d, p_worker := True\<rparr>)"
    using menu_work [OF p3(1), of ?d] out by (simp add: worker_step_def)
  have p5: "in_menu In_Pause {BVEVENTTYPE_DISCOVERY_REQUEST_PAUSE} (p3\<lparr>p_disc := ?d\<lparr>av_worker := In_Pause\<rparr>, p_worker := True\<rparr>)"
    using menu_work [OF p4, of "?d\<lparr>av_worker := In_Pause\<rparr>"] out p3(2) by (simp add: worker_step_def)
  from menu_quit [OF p5] p3(2) show ?thesis by (auto simp: stuck_def in_wait_def)
qed

lemma example_closes: "\<exists>p. linux_reach p \<and> closing p"
proof -
  obtain p where p: "in_menu Starting {} p" "\<not> isPaused (p_disc p)" using example_linux_starts by blast
  have out: "av_out (p_disc p) = []" "av_worker (p_disc p) = Starting"
    using avahi.prog_invD(4) [OF linux_reach_inv] p(1) by (auto simp: in_menu_def)
  let ?d = "(p_disc p)\<lparr>av_active := True, av_worker := In_Loop\<rparr>"
  have "in_menu In_Loop {} (p\<lparr>p_disc := ?d, p_worker := True\<rparr>)" using menu_work [OF p(1), of ?d] out by (simp add: worker_step_def)
  from menu_quit [OF this] p(2) show ?thesis by (auto simp: closing_def)
qed

theorem linux_mail_is_typed_witness:
  "\<exists>p. linux_start example_linux = Inr (Some p) \<and> linux_reach p \<and>
     (\<forall>m \<in> set (inbox (p_bus p)) \<union> set (dm p) \<union> set (am p). typed_any (pmsgs p m))"
proof -
  obtain p where p: "linux_start example_linux = Inr (Some p)" using example_linux_starts by blast
  have r: "linux_reach p" by (rule linux_reach.started [OF p])
  from linux_mail_is_typed [OF r] p r show ?thesis by blast
qed

theorem linux_quitting_ends_witness:
  "\<exists>p us r. linux_reach p \<and> closing p \<and> proc_run avahi_part us p r \<and> (p_crashed r \<or> joined r)"
proof -
  obtain p where p: "linux_reach p" "closing p" using example_closes by blast
  from linux_quitting_ends [OF p proc_run.stays] p show ?thesis by blast
qed

theorem linux_quit_while_paused_hangs_witness:
  "\<exists>p. linux_reach p \<and> stuck p \<and> \<not> (\<exists>ts q. proc_run avahi_part ts p q \<and> joined q)"
proof -
  obtain p where p: "linux_reach p" "stuck p" using example_pauses by blast
  with linux_quit_while_paused_hangs [OF p] show ?thesis by blast
qed

end
