(* ===== verification/Handshake.thy ===== *)
theory Handshake
  imports Session_Handlers
begin

text \<open>
  The handshake of two hosts: \<open>accept_handler\<close> (BVTCPConnectionManager.hpp, \<open>Accept\<close>) says HELLO,
  \<open>OnReceiveHelloFrame\<close> answers with the machine's service name, \<open>OnReceiveHelloBackFrame\<close> files the
  session and confirms, \<open>OnReceiveConfirmEstablished\<close> ends it. Each step is a lemma about one host; the
  property puts the two state machines together over the bytes they exchange.
\<close>

section \<open>The steps\<close>

lemma listening_alt:
  "listening s \<longleftrightarrow> (\<exists>b. readBuf s = Some b \<and> length b = 138) \<and> fileReadBuf s \<noteq> None \<and> totalBytesRead s = 0 \<and>
     reads (sk s) = [\<lparr>rr_target = To_readBuf, rr_off = 0, rr_len = 138, rr_filled = False\<rparr>]"
  by (simp add: listening_def frame_req_def)

text \<open>A socket that was just connected: nothing sent, nothing received.\<close>

definition connected_sock :: "sock \<Rightarrow> bool" where
  "connected_sock k \<longleftrightarrow> rx k = [] \<and> tx k = [] \<and> reads k = [] \<and> \<not> broken k"

lemma BVTCPSession_ctor_value:
  "BVTCPSession_ctor d = Inr (d\<lparr>sstate := BVSESSIONSTATE_UNPREPARED, alive := True, readBuf := Some (zeros 138),
     fileReadBuf := Some (zeros 1), totalBytesRead := 0, totalBytesWritten := 0, writeBuf := zeros 138\<rparr>)"
  by (simp add: BVTCPSession_ctor_def ClearReadBuffer_def ClearWriteBuffer_def MESSAGE_FRAME_SIZE_BYTES_def)

text \<open>The accepting side says HELLO and listens.\<close>

lemma accept_says_hello:
  assumes t: "table_inv h" and r: "accepting h = Some r" and k: "connected_sock k"
  shows "\<exists>h'. accept_handler now False k h = Inr h' \<and> table_inv h' \<and> unfiled r h' \<and> listening (sess h' r) \<and>
    sstate (sess h' r) = BVSESSIONSTATE_UNPREPARED \<and> can_write (sess h' r) \<and> session_inv (sess h' r) \<and>
    rx (sk (sess h' r)) = [] \<and> tx (sk (sess h' r)) = msg_bytes (empty_message now CTRL_HELLO) \<and>
    sessions_m h' = sessions_m h \<and> (\<forall>n. IsSessionAlreadyPresent n h' = IsSessionAlreadyPresent n h) \<and> next_ref h' = Suc (next_ref h) \<and>
    sessionID (sess h' r) = sessionID (sess h r)"
proof -
  define h0 where "h0 = h\<lparr>accepting := None\<rparr>"
  define s1 where "s1 = (sess h0 r)\<lparr>sk := k, sstate := BVSESSIONSTATE_UNPREPARED, alive := True, readBuf := Some (zeros 138),
     fileReadBuf := Some (zeros 1), totalBytesRead := 0, totalBytesWritten := 0, writeBuf := zeros 138\<rparr>"
  define w1 where "w1 = s1\<lparr>totalBytesWritten := 0, writeBuf := msg_bytes (empty_message now CTRL_HELLO),
      sk := k\<lparr>tx := msg_bytes (empty_message now CTRL_HELLO), writes := writes k @ [(False, 138)]\<rparr>\<rparr>"
  define s2 where "s2 = w1\<lparr>origin := Some BVSESSIONORIGIN_INGOING\<rparr>"
  define s3 where "s3 = s2\<lparr>sk := (sk s2)\<lparr>reads := [\<lparr>rr_target = To_readBuf, rr_off = 0, rr_len = 138, rr_filled = False\<rparr>]\<rparr>\<rparr>"
  have c: "BVTCPSession_ctor ((sess h0 r)\<lparr>sk := k\<rparr>) = Inr s1" "s1\<lparr>sstate := BVSESSIONSTATE_UNPREPARED\<rparr> = s1"
    by (simp_all add: BVTCPSession_ctor_value s1_def)
  have w: "WriteMessageFrame (empty_message now CTRL_HELLO) s1 = Inr w1"
    using WriteMessageFrame_tx [of s1 "empty_message now CTRL_HELLO"] k by (simp add: s1_def w1_def connected_sock_def)
  have rd: "RequestReadingFrames s2 = Inr s3"
    using StartReadingFrames_queued [of s2 "zeros 138"] k
    by (simp add: s3_def s2_def w1_def s1_def connected_sock_def RequestReadingFrames_def)
  have ok: "accept_handler now False k h = Inr (Accept (set_sess r s3 h0))"
    unfolding accept_handler_def Let_def r option.case h0_def [symmetric] by (simp add: c w s2_def [symmetric] rd)
  have ref: "r < next_ref h" "r \<notin> snd ` set (sessions_m h)" using t r by (auto simp: table_inv_def unfiled_def)
  define h' where "h' = Accept (set_sess r s3 h0)"
  have h': "sess h' r = s3" "sessions_m h' = sessions_m h" "next_ref h' = Suc (next_ref h)"
      "q \<noteq> next_ref h \<Longrightarrow> q \<noteq> r \<Longrightarrow> sess h' q = sess h q" for q
    using ref by (simp_all add: h'_def Accept_def new_session_def set_sess_def h0_def)
  have inv: "session_inv s3" "listening s3" "can_write s3" "sstate s3 = BVSESSIONSTATE_UNPREPARED" "rx (sk s3) = []"
      "tx (sk s3) = msg_bytes (empty_message now CTRL_HELLO)" "sessionID s3 = sessionID (sess h r)"
      "n_serviceName (nodeData s3) = serviceName_of h r"
    using k by (simp_all add: s3_def s2_def w1_def s1_def listening_alt session_inv_def req_fits_def can_write_def connected_sock_def
        h0_def serviceName_of_def)
  have sn: "serviceName_of h' q = serviceName_of h q" if "(x, q) \<in> set (sessions_m h)" for x q
  proof -
    have "q < next_ref h" using t that by (auto simp: table_inv_def host_inv_def om.entries_find)
    then show ?thesis using h' inv by (cases "q = r") (auto simp: serviceName_of_def)
  qed
  have "IsSessionAlreadyPresent n h' = IsSessionAlreadyPresent n h" for n
    unfolding IsSessionAlreadyPresent_def h'(2) list_ex_iff by (rule bex_cong) (auto dest: sn)
  moreover have "table_inv h'" using accepted_table [OF t ok] by (simp add: h'_def)
  ultimately show ?thesis using ok h' inv ref by (auto simp: h'_def [symmetric] unfiled_def)
qed

text \<open>The dialing side files the session and listens.\<close>

lemma connect_listens:
  assumes t: "table_inv h" and r: "r \<in> set (dialing h)" and small: "next_ref h \<le> 65536"
    and new: "\<not> IsSessionAlreadyPresent (serviceName_of h r) h" and k: "connected_sock k"
  shows "\<exists>h'. ConnectHandler False ep k r h = Inr h' \<and> table_inv h' \<and> listening (sess h' r) \<and>
    sstate (sess h' r) = BVSESSIONSTATE_UNPREPARED \<and> can_write (sess h' r) \<and> rx (sk (sess h' r)) = [] \<and> tx (sk (sess h' r)) = [] \<and>
    GetSessionIDFromServiceName (serviceName_of h r) h' = Some (sessionID (sess h r)) \<and>
    map_of (sessions_m h') (sessionID (sess h r)) = Some r \<and>
    thisMachineServiceName (sess h' r) = thisMachineServiceName (sess h r) \<and> serviceName_of h' r = serviceName_of h r"
proof -
  have u: "unfiled r h" "host_inv h" "r < next_ref h" using t r by (auto simp: table_inv_def unfiled_def)
  obtain h' where h': "ConnectHandler False ep k r h = Inr h'" "map_of (sessions_m h') (sessionID (sess h r)) = Some r"
      "GetSessionIDFromServiceName (serviceName_of h r) h' = Some (sessionID (sess h r))"
    using ConnectHandler_ok [OF u(2,3) new unfiled_fresh [OF t u(1) small], of k ep] k by (auto simp: connected_sock_def)
  have t': "table_inv h'" using connected_table [OF t small r _ h'(1)] k by (simp add: connected_sock_def)
  define h1 where "h1 = h\<lparr>dialing := remove1 r (dialing h)\<rparr>"
  define s1 where "s1 = (sess h r)\<lparr>sk := k, nodeData := (nodeData (sess h r))\<lparr>n_ep := ep\<rparr>,
     sstate := BVSESSIONSTATE_UNPREPARED, alive := True, readBuf := Some (zeros 138),
     fileReadBuf := Some (zeros 1), totalBytesRead := 0, totalBytesWritten := 0, writeBuf := zeros 138\<rparr>"
  define s2 where "s2 = (set_node_id (current_id h) s1)\<lparr>sstate := BVSESSIONSTATE_UNPREPARED, origin := Some BVSESSIONORIGIN_OUTGOING\<rparr>"
  define s3 where "s3 = s2\<lparr>sk := (sk s2)\<lparr>reads := [\<lparr>rr_target = To_readBuf, rr_off = 0, rr_len = 138, rr_filled = False\<rparr>]\<rparr>\<rparr>"
  have rd: "RequestReadingFrames s2 = Inr s3"
    using StartReadingFrames_queued [of s2 "zeros 138"] k
    by (simp add: s3_def s2_def s1_def set_node_id_def connected_sock_def RequestReadingFrames_def)
  have comm: "StartCommunicationSessionWithNode h1 = Inr (BVSTATUS_OK, current_id h, h1\<lparr>current_id := word_of_nat (unat (current_id h) mod 255 + 1)\<rparr>)"
    using StartCommunication_ok [of h1] u(2) by (simp add: h1_def)
  have c: "BVTCPSession_ctor ((sess h1 r)\<lparr>sk := k, nodeData := (nodeData (sess h1 r))\<lparr>n_ep := ep\<rparr>\<rparr>) = Inr s1"
    by (simp add: BVTCPSession_ctor_value s1_def h1_def)
  have "\<not> IsSessionAlreadyPresent (serviceName_of h1 r) h1" using new by (simp add: h1_def)
  then have "sess h' r = s3"
    using h'(1) rd unfolding ConnectHandler_def Let_def h1_def [symmetric]
    by (auto simp: c comm s2_def [symmetric] with_sess_def set_sess_def)
  moreover have "listening s3" "can_write s3" "sstate s3 = BVSESSIONSTATE_UNPREPARED" "rx (sk s3) = []" "tx (sk s3) = []"
      "thisMachineServiceName s3 = thisMachineServiceName (sess h r)" "n_serviceName (nodeData s3) = serviceName_of h r"
    using k by (simp_all add: s3_def s2_def s1_def listening_alt can_write_def connected_sock_def set_node_id_def serviceName_of_def)
  ultimately show ?thesis using h' t' by (auto simp: serviceName_of_def)
qed

text \<open>The accepting side learns the peer's name, files the session under it and confirms.\<close>

lemma helloback_step:
  assumes t: "table_inv h" "next_ref h \<le> 65536" and u: "unfiled r h" and l: "listening (sess h r)"
    and st: "sstate (sess h r) = BVSESSIONSTATE_UNPREPARED" and w: "can_write (sess h r)" "session_inv (sess h r)"
    and new: "\<not> IsSessionAlreadyPresent name h" and n: "length name \<le> 128"
    and pl: "m_payload m = name @ pad" "length (m_payload m) = 128"
      "m_header m = \<lparr>mh_dataLen = word_of_nat (length name), mh_timestamp = ts, mh_msgType = CTRL_HELLOBACK\<rparr>"
    and rx: "rx (sk (sess h r)) = msg_bytes m"
  shows "\<exists>h'. io_read_step env r h = Inr h' \<and> host_inv h' \<and> listening (sess h' r) \<and> rx (sk (sess h' r)) = [] \<and>
    sstate (sess h' r) = BVSESSIONSTATE_ESTABLISHED \<and> serviceName_of h' r = name \<and>
    GetSessionIDFromServiceName name h' = Some (sessionID (sess h r)) \<and> map_of (sessions_m h') (sessionID (sess h r)) = Some r \<and>
    tx (sk (sess h' r)) = tx (sk (sess h r)) @ msg_bytes (empty_message (e_now env) CTRL_CONFIRM_ESTABLISHED)"
proof -
  let ?f = "msg_bytes m"
  let ?s = "got_frame ?f [] (sess h r)"
  define h1 where "h1 = set_sess r ?s h"
  have len: "length ?f = 138" using pl(2) by simp
  have hdr: "GetMsgHeader (Some ?f) = Inr (m_header m)" using GetMsgHeader_msg_bytes [of m "[]"] by simp
  have dl: "unat (mh_dataLen (m_header m)) = length name"
    using n pl(3) by (simp add: unat_of_nat take_bit_nat_eq_self)
  have h1: "sess h1 r = ?s" "sessions_m h1 = sessions_m h" "next_ref h1 = next_ref h" by (simp_all add: h1_def set_sess_def)
  have t1: "table_inv h1"
    unfolding h1_def by (rule table_inv_set_sess [OF t(1)]) simp_all
  have u1: "unfiled r h1" using u h1 by (simp add: unfiled_def)
  have new1: "\<not> IsSessionAlreadyPresent name h1"
    using new by (auto simp: IsSessionAlreadyPresent_def list_ex_iff h1_def set_sess_def serviceName_of_def split: if_splits)
  have s1: "session_inv ?s" "can_write ?s" "sstate ?s \<noteq> BVSESSIONSTATE_CLOSED"
    using w l st len by (auto simp: session_inv_def can_write_def listening_def)
  have inv1: "host_inv h1" "r < next_ref h1" using t1 u1 by (simp_all add: table_inv_def unfiled_def)
  have sm: "next_ref h1 \<le> 65536" using t(2) h1 by simp
  have sid: "sessionID (sess h1 r) = sessionID (sess h r)" "totalBytesRead (sess h1 r) = 0" "reads (sk (sess h1 r)) = []"
      "rx (sk (sess h1 r)) = []" "tx (sk (sess h1 r)) = tx (sk (sess h r))"
    using l by (simp_all add: h1(1) listening_def)
  obtain h2 where h2: "HandleSessionIdentification (e_now env) name r h1 = Inr h2" "host_inv h2" "session_inv (sess h2 r)"
      "map_of (sessions_m h2) (sessionID (sess h r)) = Some r" "GetSessionIDFromServiceName name h2 = Some (sessionID (sess h r))"
      "serviceName_of h2 r = name" "sstate (sess h2 r) = BVSESSIONSTATE_ESTABLISHED"
      "tx (sk (sess h2 r)) = tx (sk (sess h r)) @ msg_bytes (empty_message (e_now env) CTRL_CONFIRM_ESTABLISHED)"
      "reads (sk (sess h2 r)) = [frame_req]" "rx (sk (sess h2 r)) = []" "totalBytesRead (sess h2 r) = 0"
    using HandleSessionIdentification_new [OF inv1 new1 unfiled_fresh [OF t1 u1 sm], of "e_now env"] s1 sid
    by (auto simp: h1(1) frame_req_def)
  obtain b where b: "readBuf (sess h2 r) = Some b" "length b = 138" "fileReadBuf (sess h2 r) \<noteq> None"
    using h2(3,7) by (auto simp: session_inv_def)
  define h3 where "h3 = set_sess r ((sess h2 r)\<lparr>readBuf := Some (zeros 138), totalBytesRead := 0\<rparr>) h2"
  have fin: "finish_frame r h2 = Inr h3"
    using ClearReadBuffer_ok [OF b(1,2)] h2(7) by (simp add: finish_frame_def with_sess_def h3_def)
  have "OnReceiveHelloBackFrame env r h1 = Inr h2"
    using hdr pl dl n h2(1) h1(1)
    by (simp add: OnReceiveHelloBackFrame_def GetPayloadPtr_def drop_header_msg_bytes)
  then have io: "io_read_step env r h = Inr h3"
    using io_frame [OF l _ len hdr, of "[]" env] rx st pl(3) fin by (simp add: h1_def msgtype_defs)
  have "host_inv h3" unfolding h3_def by (rule host_inv_set_sess [OF h2(2)]) simp_all
  then show ?thesis
    using io h2 b by (auto simp: h3_def listening_def serviceName_of_def GetSessionIDFromServiceName_def set_sess_def)
qed

section \<open>Two hosts\<close>

text \<open>Bytes arriving on a session change nothing of the table.\<close>

lemma arrive_session [simp]:
  "session_inv (s\<lparr>sk := (sk s)\<lparr>rx := d\<rparr>\<rparr>) = session_inv s" "can_write (s\<lparr>sk := (sk s)\<lparr>rx := d\<rparr>\<rparr>) = can_write s"
  by (auto simp: session_inv_def can_write_def req_fits_def split: read_target.splits)

lemma arrive_table [simp]:
  "next_ref (arrive d r h) = next_ref h" "unfiled q (arrive d r h) = unfiled q h"
  "IsSessionAlreadyPresent n (arrive d r h) = IsSessionAlreadyPresent n h"
  by (auto simp: arrive_def unfiled_def IsSessionAlreadyPresent_def serviceName_of_def set_sess_def list_ex_iff split: if_splits)

lemma arrive_table_inv: "table_inv h \<Longrightarrow> table_inv (arrive d r h)"
  unfolding arrive_def by (rule table_inv_set_sess) simp_all

lemma helloback_parts:
  assumes "length (e_garbage env) = 128" "length name \<le> 128"
  shows "m_payload (helloback env name) = name @ drop (length name) (e_garbage env)" "length (m_payload (helloback env name)) = 128"
    "m_header (helloback env name) = \<lparr>mh_dataLen = word_of_nat (length name), mh_timestamp = e_now env, mh_msgType = CTRL_HELLOBACK\<rparr>"
  using assms by (auto simp: helloback_def)

text \<open>C3: when a host that is accepting gets the connection of a host that is dialing, the three frames HELLO, HELLOBACK and CONFIRM go through and both sessions end up established, waiting for the next frame, and filed under the name of the other side.\<close>

theorem connection_establishes:
  assumes a: "host_reach True ha" "next_ref ha < 65536" "accepting ha = Some ra" "\<not> IsSessionAlreadyPresent nameB ha"
    and b: "host_reach True hb" "next_ref hb \<le> 65536" "rb \<in> set (dialing hb)"
      "\<not> IsSessionAlreadyPresent (serviceName_of hb rb) hb" "thisMachineServiceName (sess hb rb) = nameB" "length nameB \<le> 128"
    and k: "connected_sock ka" "connected_sock kb" and g: "length (e_garbage envB) = 128"
  shows "\<exists>ha1 hb1 hb2 ha2 hb3 hello helloback confirm.
    accept_handler now False ka ha = Inr ha1 \<and> tx (sk (sess ha1 ra)) = hello \<and>
    ConnectHandler False ep kb rb hb = Inr hb1 \<and>
    io_read_step envB rb (arrive hello rb hb1) = Inr hb2 \<and> tx (sk (sess hb2 rb)) = helloback \<and>
    io_read_step envA ra (arrive helloback ra ha1) = Inr ha2 \<and> tx (sk (sess ha2 ra)) = hello @ confirm \<and>
    io_read_step envB rb (arrive confirm rb hb2) = Inr hb3 \<and>
    sstate (sess ha2 ra) = BVSESSIONSTATE_ESTABLISHED \<and> sstate (sess hb3 rb) = BVSESSIONSTATE_ESTABLISHED \<and>
    listening (sess ha2 ra) \<and> listening (sess hb3 rb) \<and>
    GetSessionIDFromServiceName nameB ha2 = Some (sessionID (sess ha ra)) \<and>
    GetSessionIDFromServiceName (serviceName_of hb rb) hb3 = Some (sessionID (sess hb rb))"
proof -
  obtain ha1 where ha1: "accept_handler now False ka ha = Inr ha1" "table_inv ha1" "unfiled ra ha1" "listening (sess ha1 ra)"
      "sstate (sess ha1 ra) = BVSESSIONSTATE_UNPREPARED" "can_write (sess ha1 ra)" "session_inv (sess ha1 ra)"
      "rx (sk (sess ha1 ra)) = []" "tx (sk (sess ha1 ra)) = msg_bytes (empty_message now CTRL_HELLO)"
      "\<not> IsSessionAlreadyPresent nameB ha1" "next_ref ha1 \<le> 65536" "sessionID (sess ha1 ra) = sessionID (sess ha ra)"
    using accept_says_hello [OF host_reach_table [OF a(1)] a(3) k(1), of now] a(2,4) by auto
  obtain hb1 where hb1: "ConnectHandler False ep kb rb hb = Inr hb1" "listening (sess hb1 rb)"
      "sstate (sess hb1 rb) = BVSESSIONSTATE_UNPREPARED" "can_write (sess hb1 rb)" "rx (sk (sess hb1 rb)) = []" "tx (sk (sess hb1 rb)) = []"
      "GetSessionIDFromServiceName (serviceName_of hb rb) hb1 = Some (sessionID (sess hb rb))"
      "thisMachineServiceName (sess hb1 rb) = nameB"
    using connect_listens [OF host_reach_table [OF b(1)] b(3,2,4) k(2), of ep] b(5) by auto
  let ?hello = "msg_bytes (empty_message now CTRL_HELLO)" and ?hback = "msg_bytes (helloback envB nameB)"
    and ?conf = "msg_bytes (empty_message (e_now envA) CTRL_CONFIRM_ESTABLISHED)"
  let ?b1 = "arrive ?hello rb hb1"
  obtain s2 where s2: "io_read_step envB rb ?b1 = Inr (set_sess rb s2 ?b1)" "listening s2" "rx (sk s2) = []"
      "tx (sk s2) = ?hback" "same_peer (sess ?b1 rb) s2"
    using hello_step [of ?b1 rb "[]" envB now] hb1 g b(6) by (auto simp: can_write_def)
  define hb2 where "hb2 = set_sess rb s2 ?b1"
  have hb2: "tx (sk (sess hb2 rb)) = ?hback" using s2(4) by (simp add: hb2_def)
  let ?a1 = "arrive ?hback ra ha1"
  obtain ha2 where ha2: "io_read_step envA ra ?a1 = Inr ha2" "listening (sess ha2 ra)" "sstate (sess ha2 ra) = BVSESSIONSTATE_ESTABLISHED"
      "GetSessionIDFromServiceName nameB ha2 = Some (sessionID (sess ha ra))" "tx (sk (sess ha2 ra)) = ?hello @ ?conf"
    using helloback_step [of ?a1 ra nameB "helloback envB nameB" _ _ envA, OF _ _ _ _ _ _ _ _ b(6) helloback_parts [OF g b(6)]] ha1
    by (auto intro: arrive_table_inv)
  obtain s3 where s3: "io_read_step envB rb (arrive ?conf rb hb2) = Inr (set_sess rb s3 (arrive ?conf rb hb2))" "listening s3"
      "sstate s3 = BVSESSIONSTATE_ESTABLISHED" "nodeData s3 = nodeData s2"
    using confirm_step [of "arrive ?conf rb hb2" rb "[]" "e_now envA" envB] s2 hb1 by (auto simp: hb2_def same_peer_def)
  define hb3 where "hb3 = set_sess rb s3 (arrive ?conf rb hb2)"
  have id: "GetSessionIDFromServiceName (serviceName_of hb rb) hb3 = Some (sessionID (sess hb rb))"
    using hb1(7) by (simp add: hb3_def hb2_def GetSessionIDFromServiceName_def arrive_def set_sess_def)
  have hb3: "sess hb3 rb = s3" by (simp add: hb3_def)
  have end_b: "listening (sess hb3 rb)" "sstate (sess hb3 rb) = BVSESSIONSTATE_ESTABLISHED"
    unfolding hb3 by (rule s3(2), rule s3(3))
  show ?thesis
    by (intro exI conjI; (rule ha1(1,9) hb1(1) s2(1) [folded hb2_def] hb2 ha2 s3(1) [folded hb3_def] id end_b))
qed

lemma example_accepting:
  "\<exists>h. host_reach True h \<and> accepting h = Some 0 \<and> sessions_m h = [] \<and> next_ref h < 65536"
proof -
  let ?h = "example_created (str ''bob'')"
  let ?h1 = "Accept ?h"
  have f: "next_ref ?h = 0" "sessions_m ?h = []" "accepting ?h = None"
    by (simp_all add: example_created_def BVTCPConnectionManager_ctor_def example_service_def BVNode_results_def)
  have s: "StartAcceptingConnections [True] ?h = Inr (BVSTATUS_OK, ?h1)" by (simp add: StartAcceptingConnections_def)
  have "host_reach True ?h1" by (rule stepped [OF example_created_reach _ listen [OF f(3) s]]) (simp add: f)
  then show ?thesis using f by (auto simp: Accept_def new_session_def)
qed

theorem connection_establishes_witness:
  "\<exists>ha1 hb1 hb2 ha2 hb3 hello helloback confirm.
     io_read_step example_env 0 (arrive hello 0 hb1) = Inr hb2 \<and> io_read_step example_env 0 (arrive helloback 0 ha1) = Inr ha2 \<and>
     io_read_step example_env 0 (arrive confirm 0 hb2) = Inr hb3 \<and>
     sstate (sess ha2 0) = BVSESSIONSTATE_ESTABLISHED \<and> sstate (sess hb3 0) = BVSESSIONSTATE_ESTABLISHED"
proof -
  obtain hb where hb: "host_reach True hb" "next_ref hb \<le> 65536" "0 \<in> set (dialing hb)" "\<not> IsSessionAlreadyPresent (serviceName_of hb 0) hb"
      "thisMachineServiceName (sess hb 0) = str ''alice''"
    using example_dialing [of True] by (auto simp: IsSessionAlreadyPresent_def)
  obtain ha where ha: "host_reach True ha" "next_ref ha < 65536" "accepting ha = Some 0" "\<not> IsSessionAlreadyPresent (str ''alice'') ha"
    using example_accepting by (auto simp: IsSessionAlreadyPresent_def)
  have k: "connected_sock example_sock" "length (str ''alice'') \<le> 128" "length (e_garbage example_env) = 128"
    by (simp_all add: connected_sock_def example_sock_def str_def example_env_def)
  show ?thesis
    using connection_establishes [OF ha hb k(2) k(1) k(1) k(3), of 5 "([], 0)" example_env] by blast
qed

end
