(* ===== verification/Terminal.thy ===== *)
theory Terminal
  imports Common_Types
begin

unbundle bit_operations_syntax

text \<open>
  The terminal of the console client, class \<open>BVTerminal\<close> of \<open>include/BVApp_ConsoleClient.hpp\<close>: the attributes of the
  device, which the mode changes and prompts set and give back. The bits and indices of \<open>termios.h\<close> and what the
  system calls answer are arguments. Input is the text up to its end.
\<close>

section \<open>Data\<close>

record termios =
  c_lflag :: u32
  c_cc :: "nat \<Rightarrow> byte"

text \<open>The device: its attributes, what its calls answer, the input not yet read and the output.\<close>

record tty =
  t_attr :: termios
  t_isatty :: bool
  t_get_ok :: bool
  t_set_ok :: "termios \<Rightarrow> bool"
  t_flush_ok :: bool
  t_in :: bytes
  t_out :: bytes

record termios_h =
  ICANON :: u32
  ECHO :: u32
  VMIN :: nat
  VTIME :: nat

record terminal =
  originalTerminal :: termios
  currentTerminal :: termios
  isInitialized :: bool

datatype InputMode = Canonical | NonCanonical

record Config =
  cfg_mode :: InputMode
  cfg_echo :: bool
  cfg_vmin :: byte
  cfg_vtime :: byte

section \<open>Operations\<close>

definition tcsetattr :: "termios \<Rightarrow> tty \<Rightarrow> bool \<times> tty" where
  "tcsetattr t d = (if t_set_ok d t then (True, d\<lparr>t_attr := t\<rparr>) else (False, d))"

definition BVTerminal_ctor :: "tty \<Rightarrow> terminal result" where
  "BVTerminal_ctor d =
     (if \<not> t_isatty d then Inl Runtime_Error
      else if \<not> t_get_ok d then Inl Runtime_Error
      else Inr \<lparr>originalTerminal = t_attr d, currentTerminal = t_attr d, isInitialized = True\<rparr>)"

definition EnsureInitialized :: "terminal \<Rightarrow> unit result" where
  "EnsureInitialized t = (if \<not> isInitialized t then Inl Runtime_Error else Inr ())"

definition configured :: "termios_h \<Rightarrow> Config \<Rightarrow> termios \<Rightarrow> termios" where
  "configured th cfg t =
     (let t = (if cfg_mode cfg = Canonical then t\<lparr>c_lflag := c_lflag t OR ICANON th\<rparr>
          else t\<lparr>c_lflag := c_lflag t AND NOT (ICANON th),
                 c_cc := (c_cc t)(VMIN th := cfg_vmin cfg, VTIME th := cfg_vtime cfg)\<rparr>)
      in if cfg_echo cfg then t\<lparr>c_lflag := c_lflag t OR ECHO th\<rparr> else t\<lparr>c_lflag := c_lflag t AND NOT (ECHO th)\<rparr>)"

text \<open>An exception leaves the terminal and the device as they are then; they are returned with it.\<close>

definition Apply :: "termios_h \<Rightarrow> Config \<Rightarrow> terminal \<times> tty \<Rightarrow> cpp_error option \<times> terminal \<times> tty" where
  "Apply th cfg = (\<lambda>(b, d).
     case EnsureInitialized b of
       Inl e \<Rightarrow> (Some e, b, d)
     | Inr _ \<Rightarrow>
         (let t = configured th cfg (originalTerminal b) in
          case tcsetattr t d of
            (False, d) \<Rightarrow> (Some Runtime_Error, b, d)
          | (True, d) \<Rightarrow> (None, b\<lparr>currentTerminal := t\<rparr>, d)))"

definition SetCanonicalMode :: "termios_h \<Rightarrow> bool \<Rightarrow> terminal \<times> tty \<Rightarrow> cpp_error option \<times> terminal \<times> tty" where
  "SetCanonicalMode th echo = Apply th \<lparr>cfg_mode = Canonical, cfg_echo = echo, cfg_vmin = 1, cfg_vtime = 0\<rparr>"

definition SetNonCanonicalMode ::
  "termios_h \<Rightarrow> bool \<Rightarrow> byte \<Rightarrow> byte \<Rightarrow> terminal \<times> tty \<Rightarrow> cpp_error option \<times> terminal \<times> tty" where
  "SetNonCanonicalMode th echo vmin vtime =
     Apply th \<lparr>cfg_mode = NonCanonical, cfg_echo = echo, cfg_vmin = vmin, cfg_vtime = vtime\<rparr>"

definition Restore :: "terminal \<Rightarrow> tty \<Rightarrow> tty" where
  "Restore b d = (if isInitialized b then snd (tcsetattr (originalTerminal b) d) else d)"

definition FlushInput :: "terminal \<Rightarrow> tty \<Rightarrow> tty result" where
  "FlushInput b d =
     rbind (EnsureInitialized b) (\<lambda>_. if t_flush_ok d then Inr (d\<lparr>t_in := []\<rparr>) else Inl Runtime_Error)"

definition ReadChar :: "terminal \<Rightarrow> tty \<Rightarrow> (byte \<times> tty) result" where
  "ReadChar b d =
     rbind (EnsureInitialized b) (\<lambda>_.
       case t_in d of [] \<Rightarrow> Inl Runtime_Error | c # cs \<Rightarrow> Inr (c, d\<lparr>t_in := cs\<rparr>))"

text \<open>\<open>std::getline\<close> and \<open>std::cin.ignore (max, '\\n')\<close>: a line is read if there is any character.\<close>

definition newline :: byte where "newline = 10"

definition skip_line :: "bytes \<Rightarrow> bytes" where
  "skip_line s = drop 1 (dropWhile (\<lambda>c. c \<noteq> newline) s)"

definition getline :: "tty \<Rightarrow> bytes option \<times> tty" where
  "getline d =
     (if t_in d = [] then (None, d)
      else (Some (takeWhile (\<lambda>c. c \<noteq> newline) (t_in d)), d\<lparr>t_in := skip_line (t_in d)\<rparr>))"

definition ReadLine :: "terminal \<Rightarrow> tty \<Rightarrow> (bytes \<times> tty) result" where
  "ReadLine b d =
     rbind (EnsureInitialized b) (\<lambda>_.
       case getline d of (None, d) \<Rightarrow> Inl Runtime_Error | (Some line, d) \<Rightarrow> Inr (line, d))"

text \<open>The guard: the attributes it found, and the device in canonical mode; its destructor.\<close>

definition TerminalModeGuard :: "termios_h \<Rightarrow> tty \<Rightarrow> cpp_error option \<times> termios \<times> tty" where
  "TerminalModeGuard th d =
     (if \<not> t_get_ok d then (Some Runtime_Error, t_attr d, d)
      else
        (let original = t_attr d;
             canonical = original\<lparr>c_lflag := c_lflag original OR ICANON th OR ECHO th\<rparr>
         in case tcsetattr canonical d of
              (False, d) \<Rightarrow> (Some Runtime_Error, original, d)
            | (True, d) \<Rightarrow> (None, original, d)))"

definition guard_dtor :: "termios \<Rightarrow> tty \<Rightarrow> tty" where
  "guard_dtor original d = snd (tcsetattr original d)"

text \<open>The answer or the exception, and the device when the guard is gone.\<close>

definition GetStringFromSTDIN :: "termios_h \<Rightarrow> bytes \<Rightarrow> terminal \<Rightarrow> tty \<Rightarrow> bytes result \<times> tty" where
  "GetStringFromSTDIN th prompt b d =
     (case EnsureInitialized b of
        Inl e \<Rightarrow> (Inl e, d)
      | Inr _ \<Rightarrow>
          (case TerminalModeGuard th d of
             (Some e, original, d) \<Rightarrow> (Inl e, d)
           | (None, original, d) \<Rightarrow>
               (let d = d\<lparr>t_out := t_out d @ prompt, t_in := skip_line (t_in d)\<rparr> in
                case getline d of
                  (None, d) \<Rightarrow> (Inr [], guard_dtor original d)
                | (Some s, d) \<Rightarrow> (Inr s, guard_dtor original d))))"

definition PromptLine :: "termios_h \<Rightarrow> bytes \<Rightarrow> terminal \<Rightarrow> tty \<Rightarrow> bytes result \<times> tty" where
  "PromptLine th prompt b d =
     (case EnsureInitialized b of
        Inl e \<Rightarrow> (Inl e, d)
      | Inr _ \<Rightarrow>
          (case TerminalModeGuard th d of
             (Some e, original, d) \<Rightarrow> (Inl e, d)
           | (None, original, d) \<Rightarrow>
               (let d = d\<lparr>t_out := t_out d @ prompt\<rparr>;
                    d = (if t_in d \<noteq> [] \<and> hd (t_in d) = newline then d\<lparr>t_in := skip_line (t_in d)\<rparr> else d)
                in case getline d of
                     (None, d) \<Rightarrow> (Inl Runtime_Error, guard_dtor original d)
                   | (Some s, d) \<Rightarrow> (Inr s, guard_dtor original d))))"

section \<open>Uses of a terminal\<close>

text \<open>What its user does between construction and destruction, exceptions being caught there.\<close>

datatype terminal_use = Use_Mode Config | Use_Prompt bytes | Use_Get bytes | Use_Restore

definition terminal_step :: "termios_h \<Rightarrow> terminal_use \<Rightarrow> terminal \<times> tty \<Rightarrow> terminal \<times> tty" where
  "terminal_step th u = (\<lambda>(b, d).
     case u of
       Use_Mode cfg \<Rightarrow> snd (Apply th cfg (b, d))
     | Use_Prompt p \<Rightarrow> (b, snd (PromptLine th p b d))
     | Use_Get p \<Rightarrow> (b, snd (GetStringFromSTDIN th p b d))
     | Use_Restore \<Rightarrow> (b, Restore b d))"

section \<open>Lemmas\<close>

lemma prompt_attr:
  assumes "t_set_ok d (t_attr d)"
  shows "t_attr (snd (PromptLine th p b d)) = t_attr d" "t_attr (snd (GetStringFromSTDIN th p b d)) = t_attr d"
  using assms
  by (auto simp: PromptLine_def GetStringFromSTDIN_def EnsureInitialized_def TerminalModeGuard_def guard_dtor_def tcsetattr_def getline_def Let_def)

lemma prompt_answers:
  "t_set_ok (snd (PromptLine th p b d)) = t_set_ok d" "t_set_ok (snd (GetStringFromSTDIN th p b d)) = t_set_ok d"
  by (auto simp: PromptLine_def GetStringFromSTDIN_def EnsureInitialized_def TerminalModeGuard_def guard_dtor_def tcsetattr_def getline_def Let_def)

lemma Apply_keeps:
  "originalTerminal (fst (snd (Apply th cfg (b, d)))) = originalTerminal b" "isInitialized (fst (snd (Apply th cfg (b, d)))) = isInitialized b"
  "t_set_ok (snd (snd (Apply th cfg (b, d)))) = t_set_ok d"
  by (auto simp: Apply_def EnsureInitialized_def tcsetattr_def Let_def)

lemma terminal_step_keeps [simp]:
  "originalTerminal (fst (terminal_step th u s)) = originalTerminal (fst s)" "isInitialized (fst (terminal_step th u s)) = isInitialized (fst s)"
  "t_set_ok (snd (terminal_step th u s)) = t_set_ok (snd s)"
  by (induction s) (auto simp: terminal_step_def Restore_def tcsetattr_def Apply_keeps prompt_answers split: terminal_use.splits)

lemma terminal_steps_keep [simp]:
  "originalTerminal (fst (fold (terminal_step th) us s)) = originalTerminal (fst s)"
  "isInitialized (fst (fold (terminal_step th) us s)) = isInitialized (fst s)"
  "t_set_ok (snd (fold (terminal_step th) us s)) = t_set_ok (snd s)"
  by (induction us arbitrary: s) simp_all

section \<open>A concrete terminal\<close>

definition example_termios_h :: termios_h where
  "example_termios_h = \<lparr>ICANON = 2, ECHO = 8, VMIN = 6, VTIME = 5\<rparr>"

definition example_tty :: tty where
  "example_tty = \<lparr>t_attr = \<lparr>c_lflag = 0x8A3B, c_cc = (\<lambda>_. 0)\<rparr>, t_isatty = True, t_get_ok = True, t_set_ok = (\<lambda>_. True), t_flush_ok = True,
     t_in = [104, 105, 10, 121, 111, 10], t_out = []\<rparr>"

section \<open>Properties\<close>

text \<open>C36: whatever modes are set and prompts are made in between, with or without success, restoring the terminal gives the device the attributes it had when the terminal was constructed, provided that the device accepts them.\<close>

theorem terminal_restored:
  assumes "BVTerminal_ctor d = Inr b" "t_set_ok d (t_attr d)" "fold (terminal_step th) us (b, d) = (b', d')"
  shows "t_attr (Restore b' d') = t_attr d"
proof -
  have "originalTerminal b = t_attr d" "isInitialized b" using assms(1) by (auto simp: BVTerminal_ctor_def split: if_splits)
  with terminal_steps_keep [of th us "(b, d)"] assms(2,3) show ?thesis by (simp add: Restore_def tcsetattr_def)
qed

theorem terminal_restored_witness:
  "\<exists>b b' d'. BVTerminal_ctor example_tty = Inr b \<and>
     fold (terminal_step example_termios_h)
       [Use_Mode \<lparr>cfg_mode = NonCanonical, cfg_echo = False, cfg_vmin = 1, cfg_vtime = 0\<rparr>, Use_Prompt [62]] (b, example_tty) = (b', d') \<and>
     t_attr (Restore b' d') = t_attr example_tty"
proof -
  obtain b where b: "BVTerminal_ctor example_tty = Inr b" by (simp add: BVTerminal_ctor_def example_tty_def)
  obtain b' d' where s: "fold (terminal_step example_termios_h)
       [Use_Mode \<lparr>cfg_mode = NonCanonical, cfg_echo = False, cfg_vmin = 1, cfg_vtime = 0\<rparr>, Use_Prompt [62]] (b, example_tty) = (b', d')"
    by fastforce
  have "t_set_ok example_tty (t_attr example_tty)" by (simp add: example_tty_def)
  from terminal_restored [OF b this s] b s show ?thesis by blast
qed

text \<open>The mode of the console client clears exactly the bits of canonical input and echo, sets the two control characters, and leaves every other bit and character as the terminal was found.\<close>

theorem raw_mode_exact:
  assumes "isInitialized b" "t_set_ok d (configured th \<lparr>cfg_mode = NonCanonical, cfg_echo = False, cfg_vmin = v, cfg_vtime = w\<rparr> (originalTerminal b))"
  shows "\<exists>b' d'. SetNonCanonicalMode th False v w (b, d) = (None, b', d') \<and> currentTerminal b' = t_attr d' \<and>
    (\<forall>n. bit (c_lflag (t_attr d')) n \<longleftrightarrow> bit (c_lflag (originalTerminal b)) n \<and> \<not> bit (ICANON th OR ECHO th) n) \<and>
    c_cc (t_attr d') = (c_cc (originalTerminal b))(VMIN th := v, VTIME th := w)"
  using assms
  by (simp add: SetNonCanonicalMode_def Apply_def EnsureInitialized_def tcsetattr_def configured_def Let_def)
     (auto simp: bit_simps dest: bit_imp_le_length)

theorem raw_mode_exact_witness:
  "\<exists>b' d'. SetNonCanonicalMode example_termios_h False 1 0
      (\<lparr>originalTerminal = t_attr example_tty, currentTerminal = t_attr example_tty, isInitialized = True\<rparr>, example_tty) = (None, b', d') \<and>
    \<not> bit (c_lflag (t_attr d')) 1 \<and> \<not> bit (c_lflag (t_attr d')) 3"
proof -
  let ?b = "\<lparr>originalTerminal = t_attr example_tty, currentTerminal = t_attr example_tty, isInitialized = True\<rparr>"
  have a: "isInitialized ?b" "t_set_ok example_tty (configured example_termios_h \<lparr>cfg_mode = NonCanonical, cfg_echo = False, cfg_vmin = 1, cfg_vtime = 0\<rparr>
      (originalTerminal ?b))"
    by (simp_all add: example_tty_def)
  have "bit (ICANON example_termios_h OR ECHO example_termios_h) 1" "bit (ICANON example_termios_h OR ECHO example_termios_h) 3"
    by (simp_all add: example_termios_h_def)
  with raw_mode_exact [OF a] show ?thesis by auto
qed

text \<open>The first line of the input is thrown away, and the second is the answer, while the other prompt throws away an empty line only.\<close>

theorem get_string_skips_line:
  assumes "isInitialized b" "t_get_ok d" "\<And>t. t_set_ok d t" "t_in d = l1 @ newline # l2 @ newline # rest"
    "newline \<notin> set l1" "newline \<notin> set l2" "l1 \<noteq> []"
  shows "fst (GetStringFromSTDIN th p b d) = Inr l2" "fst (PromptLine th p b d) = Inr l1"
proof -
  have d: "dropWhile (\<lambda>c. c \<noteq> newline) (l @ newline # r) = newline # r" "takeWhile (\<lambda>c. c \<noteq> newline) (l @ newline # r) = l"
    if "newline \<notin> set l" for l r using that by (induction l) auto
  have h: "hd (l1 @ newline # l2 @ newline # rest) \<noteq> newline" using assms(5,7) by (cases l1) auto
  show "fst (GetStringFromSTDIN th p b d) = Inr l2"
    using assms by (simp add: GetStringFromSTDIN_def EnsureInitialized_def TerminalModeGuard_def tcsetattr_def getline_def skip_line_def Let_def d)
  show "fst (PromptLine th p b d) = Inr l1"
    using assms h by (simp add: PromptLine_def EnsureInitialized_def TerminalModeGuard_def tcsetattr_def getline_def skip_line_def Let_def d)
qed

end
