(* ===== verification/Session_Safety.thy ===== *)
theory Session_Safety
  imports Session_Handlers
begin

text \<open>
  Which bytes from a peer an established session survives. A session is well formed when its buffers have the sizes
  its outstanding read needs and at most one read is outstanding. A socket may perform a read inside the call that starts it
  when the bytes are there already; the peer is then taken to send no more than the outstanding read asks for before it is
  handled (what happens otherwise is in \<open>Session_Handlers\<close>). Progress and preservation: a read that completes
  a harmless frame, or any file chunk, returns and leaves the session well formed, or an exception leaves it; the frames
  that make it read outside its buffers are exactly described.
\<close>

section \<open>Well-formed sessions\<close>

text \<open>Undefined behaviour and failed assertions, as against exceptions.\<close>

definition faulty :: "cpp_error \<Rightarrow> bool" where
  "faulty e \<longleftrightarrow> e \<in> {Out_Of_Bounds, Null_Deref, Dangling, Assert_Failed}"

definition session_wf :: "session \<Rightarrow> bool" where
  "session_wf s \<longleftrightarrow>
     sstate s = BVSESSIONSTATE_ESTABLISHED \<and> totalBytesRead s = 0 \<and>
     (\<exists>b. readBuf s = Some b \<and> length b = 138) \<and> fileReadBuf s \<noteq> None \<and>
     (reads (sk s) = [] \<or> reads (sk s) = [frame_req] \<or>
      (\<exists>n b. reads (sk s) = [chunk_req n False] \<and> fileReadBuf s = Some b \<and> length b = unat (s_csize s) + 21 \<and> n \<le> length b))"

text \<open>
  The pace of a peer: where the socket performs reads at once, no more bytes are there than the outstanding read asks for.
  In such a session a read that completes leaves nothing behind it (\<open>quiet\<close>).
\<close>

definition in_pace :: "session \<Rightarrow> bool" where
  "in_pace s \<longleftrightarrow> (speculative (sk s) \<longrightarrow> (\<forall>q \<in> set (reads (sk s)). length (rx (sk s)) \<le> rr_len q))"

definition quiet :: "session \<Rightarrow> bool" where
  "quiet s \<longleftrightarrow> \<not> speculative (sk s) \<or> rx (sk s) = []"

definition session_ok :: "session \<Rightarrow> bool" where
  "session_ok s \<longleftrightarrow> session_wf s \<and> in_pace s"

definition file_types :: "u8 set" where
  "file_types = {REG_FILE_TRANSFER_BEGIN, REG_FILE_OFFER, REG_FILE_ACCEPT, REG_FILE_REJECT}"

text \<open>
  A frame is harmless when a chat text is not announced longer than the payload, when it is not a chat and a file
  frame at once, and when the names of an offer or of the begin of a transfer end inside the frame.
\<close>

definition harmless :: "bytes \<Rightarrow> bool" where
  "harmless f \<longleftrightarrow>
     (f ! 9 = REG_CHATMESSAGE \<longrightarrow> f ! 0 \<le> 128 \<and> f ! 12 \<notin> file_types) \<and>
     (f ! 12 \<in> {REG_FILE_TRANSFER_BEGIN, REG_FILE_OFFER} \<longrightarrow> 0 \<in> set (drop 21 f))"

text \<open>The message frame the next read completes, if any.\<close>

definition due_frame :: "session \<Rightarrow> bytes option" where
  "due_frame s = (if reads (sk s) = [frame_req] \<and> 138 \<le> length (rx (sk s)) then Some (take 138 (rx (sk s))) else None)"

text \<open>
  What happens to one session: bytes arrive in pace, reads complete with harmless frames or with any file chunk,
  messages are written and their writes complete.
\<close>

inductive session_run :: "env \<Rightarrow> nat \<Rightarrow> host \<Rightarrow> host \<Rightarrow> bool" for env :: env and r :: nat and h0 :: host where
  start: "session_run env r h0 h0"
| arrival: "session_run env r h0 h \<Longrightarrow> in_pace (sess (arrive d r h) r) \<Longrightarrow> session_run env r h0 (arrive d r h)"
| completion: "session_run env r h0 h \<Longrightarrow> (\<forall>f. due_frame (sess h r) = Some f \<longrightarrow> harmless f) \<Longrightarrow>
    io_read_step env r h = Inr h' \<Longrightarrow> session_run env r h0 h'"
| writing: "session_run env r h0 h \<Longrightarrow> WriteMessageFrame m (sess h r) = Inr s \<Longrightarrow> session_run env r h0 (set_sess r s h)"
| written: "session_run env r h0 h \<Longrightarrow> session_run env r h0 (io_write_step r h)"

section \<open>The write side\<close>

lemma session_wf_cong:
  assumes "session_wf s" "sstate s' = sstate s" "totalBytesRead s' = totalBytesRead s"
    "readBuf s' = readBuf s" "fileReadBuf s' = fileReadBuf s" "reads (sk s') = reads (sk s)" "s_csize s' = s_csize s"
  shows "session_wf s'"
  using assms by (simp add: session_wf_def)

lemma session_ok_cong:
  assumes "session_ok s" "sstate s' = sstate s" "totalBytesRead s' = totalBytesRead s" "readBuf s' = readBuf s"
    "fileReadBuf s' = fileReadBuf s" "s_csize s' = s_csize s"
    "reads (sk s') = reads (sk s)" "speculative (sk s') = speculative (sk s)" "rx (sk s') = rx (sk s)"
  shows "session_ok s'"
  using assms session_wf_cong [of s s'] by (simp add: session_ok_def in_pace_def)

lemma quiet_ok: "session_wf s \<Longrightarrow> quiet s \<Longrightarrow> session_ok s"
  by (auto simp: session_ok_def in_pace_def quiet_def)

lemma WriteMessageFrame_session_ok: "session_ok s \<Longrightarrow> WriteMessageFrame m s = Inr s' \<Longrightarrow> session_ok s'"
  by (auto simp: WriteMessageFrame_def async_write_def Let_def intro: session_ok_cong split: if_splits)

lemma io_write_step_ok:
  assumes "session_ok (sess h r)"
  shows "session_ok (sess (io_write_step r h) r)"
  using assms
  by (auto simp: io_write_step_def WriteMessageFrameCallback_def ClearWriteBuffer_def async_write_def Let_def
      intro: session_ok_cong split: list.splits)

lemma arrive_wf: "session_wf (sess h r) \<Longrightarrow> session_wf (sess (arrive d r h) r)"
  by (simp add: arrive_def session_wf_def)

section \<open>Reads started by the handlers\<close>

lemma StartReadingFrames_wf:
  assumes "readBuf s = Some b" "length b = 138" "totalBytesRead s = 0" "reads (sk s) = []" "quiet s"
  shows "StartReadingFrames s = Inr (s\<lparr>sk := (sk s)\<lparr>reads := [frame_req]\<rparr>\<rparr>)"
  using assms by (auto simp: StartReadingFrames_def async_read_def fill_read_def frame_req_def MESSAGE_FRAME_SIZE_BYTES_def quiet_def Let_def)

text \<open>The 32-bit size of a read never exceeds the 64-bit size of the buffer, also when it wraps around.\<close>

lemma chunk_len_le: "unat (c + word_of_nat FILE_HEADER_SIZE_BYTES :: u32) \<le> unat c + 21"
  by (simp add: FILE_HEADER_SIZE_BYTES_def unat_word_ariths)

lemma StartReadingChunks_wf:
  assumes "fileReadBuf s = Some b" "totalBytesRead s = 0" "reads (sk s) = []" "quiet s"
  obtains rs where "StartReadingChunks (c + word_of_nat FILE_HEADER_SIZE_BYTES) s = Inr (s\<lparr>sk := (sk s)\<lparr>reads := rs\<rparr>\<rparr>)"
    "rs = [] \<or> (\<exists>n. rs = [chunk_req n False] \<and> n \<le> unat c + 21)"
proof (cases "unat (c + word_of_nat FILE_HEADER_SIZE_BYTES :: u32) = 0")
  case True
  have "s\<lparr>sk := (sk s)\<lparr>reads := []\<rparr>\<rparr> = s" using assms(3) by simp
  with True assms that [of "[]"] show ?thesis by (simp add: StartReadingChunks_def)
next
  case False
  with assms chunk_len_le [of c] that [of "[chunk_req (unat (c + word_of_nat FILE_HEADER_SIZE_BYTES :: u32)) False]"] show ?thesis
    by (auto simp: StartReadingChunks_def async_read_def fill_read_def chunk_req_def Let_def quiet_def)
qed

section \<open>Progress and preservation\<close>

text \<open>The session while the callback of a message frame runs.\<close>

definition handling :: "bytes \<Rightarrow> session \<Rightarrow> bool" where
  "handling f s \<longleftrightarrow> readBuf s = Some f \<and> length f = 138 \<and> totalBytesRead s = 0 \<and> reads (sk s) = [] \<and>
     fileReadBuf s \<noteq> None \<and> sstate s = BVSESSIONSTATE_ESTABLISHED"

lemma rearmed_wf:
  assumes "handling f s" "quiet s"
  shows "StartReadingFrames s = Inr (s\<lparr>sk := (sk s)\<lparr>reads := [frame_req]\<rparr>\<rparr>)" "session_ok (s\<lparr>sk := (sk s)\<lparr>reads := [frame_req]\<rparr>\<rparr>)"
  using assms StartReadingFrames_wf [of s f] by (auto simp: handling_def session_wf_def quiet_def intro: quiet_ok)

lemma handling_ok: "handling f s \<Longrightarrow> session_ok s"
  by (auto simp: handling_def session_wf_def session_ok_def in_pace_def)

lemma finish_frame_ok:
  assumes "session_ok (sess h r)"
  shows "\<exists>h'. finish_frame r h = Inr h' \<and> session_ok (sess h' r)"
  using assms by (auto simp: finish_frame_def with_sess_def ClearReadBuffer_def session_wf_def session_ok_def in_pace_def
      MESSAGE_FRAME_SIZE_BYTES_def)

lemma frame_headers:
  assumes "length f = 138"
  obtains mh fh where "GetMsgHeader (Some f) = Inr mh" "mh_msgType mh = f ! 9" "mh_dataLen mh = f ! 0"
    "GetFileHeader (Some f) = Inr fh" "fh_msgType fh = f ! 12"
  using assms that by (auto simp: GetMsgHeader_def GetFileHeader_def HEADER_SIZE_BYTES_def FILE_HEADER_SIZE_BYTES_def)

lemma put_mail_sess [simp]: "sess (PutMessageIntoAppMailbox m h) = sess h"
  by (simp add: PutMessageIntoAppMailbox_def)

lemma chat_frame_wf:
  assumes "handling f (sess h r)" "quiet (sess h r)" "f ! 9 = REG_CHATMESSAGE" "f ! 0 \<le> 128"
  shows "\<exists>h'. OnReceiveChatMessageFrame r h = Inr h' \<and> session_ok (sess h' r) \<and> readBuf (sess h' r) = Some f"
proof -
  have f: "readBuf (sess h r) = Some f" "length f = 138" using assms(1) by (simp_all add: handling_def)
  obtain mh where mh: "GetMsgHeader (Some f) = Inr mh" "mh_msgType mh = f ! 9" "mh_dataLen mh = f ! 0"
    using frame_headers [OF f(2)] by blast
  have "unat (f ! 0) \<le> 128" using assms(4) by (simp add: word_le_nat_alt)
  with f mh assms(3) rearmed_wf [OF assms(1,2)] show ?thesis
    by (simp add: OnReceiveChatMessageFrame_def GetPayloadPtr_def HEADER_SIZE_BYTES_def with_sess_def)
qed

lemma begin_frame_wf:
  assumes "handling f (sess h r)" "quiet (sess h r)" "0 \<in> set (drop 21 f)" "f ! 12 = REG_FILE_TRANSFER_BEGIN"
  shows "\<exists>h'. OnReceiveFileTransferBegin r h = Inr h' \<and> session_ok (sess h' r)"
proof -
  let ?s = "sess h r"
  have f: "readBuf ?s = Some f" "length f = 138" using assms(1) by (simp_all add: handling_def)
  obtain fh where fh: "GetFileHeader (Some f) = Inr fh" "fh_msgType fh = f ! 12" using frame_headers [OF f(2)] by blast
  obtain p where p: "GetFileData_str (Some f) = Inr p" using assms(3) by (simp add: GetFileData_str_def FILE_HEADER_SIZE_BYTES_def)
  define cs where "cs = metadata_csize (fh_metadata fh)"
  define s1 where "s1 = ?s\<lparr>s_csize := cs, s_fsize := metadata_fsize (fh_metadata fh), readBuf := Some (zeros 138), totalBytesRead := 0,
      fileReadBuf := Some (zeros (unat cs + 21)), totalBytesRead := 0\<rparr>"
  have "reads (sk s1) = []" "quiet s1" "fileReadBuf s1 = Some (zeros (unat cs + 21))" "totalBytesRead s1 = 0"
    using assms(1,2) by (simp_all add: s1_def handling_def quiet_def)
  then obtain rs where rs: "StartReadingChunks (cs + word_of_nat FILE_HEADER_SIZE_BYTES) s1 = Inr (s1\<lparr>sk := (sk s1)\<lparr>reads := rs\<rparr>\<rparr>)"
      "rs = [] \<or> (\<exists>n. rs = [chunk_req n False] \<and> n \<le> unat cs + 21)"
    by (metis StartReadingChunks_wf)
  have "session_ok (s1\<lparr>sk := (sk s1)\<lparr>reads := rs\<rparr>\<rparr>)"
    by (rule quiet_ok) (use rs(2) assms(1,2) in \<open>auto simp: session_wf_def s1_def handling_def quiet_def\<close>)
  then show ?thesis
    using f fh p assms(4) rs(1)
    by (simp add: OnReceiveFileTransferBegin_def Let_def with_sess_def cs_def [symmetric] ClearReadBuffer_def MESSAGE_FRAME_SIZE_BYTES_def
        FILE_HEADER_SIZE_BYTES_def s1_def)
qed

lemma signal_keeps_sess:
  "case SignalFileTransfer fs key a h of Inl e \<Rightarrow> \<not> faulty e | Inr h' \<Rightarrow> sess h' = sess h"
  by (auto simp: SignalFileTransfer_def RemoveFileTransferContext_def faulty_def Let_def split: option.splits prod.splits)

text \<open>A result without undefined behaviour, after which the session is well formed and in pace.\<close>

definition safe_result :: "nat \<Rightarrow> host result \<Rightarrow> bool" where
  "safe_result r x \<longleftrightarrow> (case x of Inl e \<Rightarrow> \<not> faulty e | Inr h \<Rightarrow> session_ok (sess h r))"

lemma answer_frame_safe:
  assumes "handling f (sess h r)" "quiet (sess h r)"
  shows "safe_result r (rbind (SignalFileTransfer fs key a h) (with_sess r StartReadingFrames))"
proof (cases "SignalFileTransfer fs key a h")
  case (Inl e)
  then show ?thesis using signal_keeps_sess [where fs = fs and key = key and a = a and h = h] by (simp add: safe_result_def)
next
  case (Inr h')
  then have "sess h' = sess h" using signal_keeps_sess [where fs = fs and key = key and a = a and h = h] by simp
  then show ?thesis using Inr rearmed_wf [OF assms] by (simp add: safe_result_def with_sess_def)
qed

lemma offer_frame_safe:
  assumes "handling f (sess h r)" "quiet (sess h r)" "0 \<in> set (drop 21 f)"
  shows "safe_result r (rbind (OnReceiveFileOffer r h) (with_sess r StartReadingFrames))"
proof -
  have f: "readBuf (sess h r) = Some f" "length f = 138" using assms(1) by (simp_all add: handling_def)
  obtain fh where fh: "GetFileHeader (Some f) = Inr fh" using frame_headers [OF f(2)] by blast
  obtain p where p: "GetFileData_str (Some f) = Inr p" using assms(3) by (simp add: GetFileData_str_def FILE_HEADER_SIZE_BYTES_def)
  show ?thesis
    using f fh p rearmed_wf [OF assms(1,2)] by (simp add: OnReceiveFileOffer_def with_sess_def safe_result_def)
qed

text \<open>One frame of an established session, handled and the buffer cleared.\<close>

definition handle_frame :: "env \<Rightarrow> nat \<Rightarrow> host \<Rightarrow> host result" where
  "handle_frame env r h = rbind (OnReceiveStandardFrame env r h) (\<lambda>(early, h). if early then Inr h else finish_frame r h)"

lemma handle_frame_safe:
  assumes h: "handling f (sess h r)" "quiet (sess h r)" and f: "harmless f"
  shows "safe_result r (handle_frame env r h)"
proof -
  have b: "readBuf (sess h r) = Some f" "length f = 138" using h(1) by (simp_all add: handling_def)
  obtain mh fh where hd: "GetMsgHeader (Some f) = Inr mh" "mh_msgType mh = f ! 9" "GetFileHeader (Some f) = Inr fh" "fh_msgType fh = f ! 12"
    using frame_headers [OF b(2)] by blast
  have unknown: "safe_result r (finish_frame r h')" if "session_ok (sess h' r)" for h'
    using finish_frame_ok [OF that] by (auto simp: safe_result_def)
  show ?thesis
  proof (cases "f ! 9 = REG_CHATMESSAGE")
    case True
    with f have c: "f ! 0 \<le> 128" "f ! 12 \<notin> file_types" by (auto simp: harmless_def)
    obtain h' where "OnReceiveChatMessageFrame r h = Inr h'" "session_ok (sess h' r)" "readBuf (sess h' r) = Some f"
      using chat_frame_wf [OF h True c(1)] by blast
    with b hd True c(2) unknown [of h'] show ?thesis by (simp add: handle_frame_def OnReceiveStandardFrame_def file_types_def)
  next
    case False
    consider "f ! 12 = REG_FILE_TRANSFER_BEGIN" | "f ! 12 = REG_FILE_OFFER" | "f ! 12 = REG_FILE_ACCEPT" | "f ! 12 = REG_FILE_REJECT"
      | "f ! 12 \<notin> file_types" by (auto simp: file_types_def)
    then show ?thesis
    proof cases
      case 1
      then show ?thesis
        using b hd False f begin_frame_wf [OF h _ 1]
        by (auto simp: handle_frame_def OnReceiveStandardFrame_def harmless_def safe_result_def)
    next
      case 2
      then have "safe_result r (rbind (OnReceiveFileOffer r h) (with_sess r StartReadingFrames))"
        using f by (intro offer_frame_safe [OF h]) (simp add: harmless_def)
      then show ?thesis
        using b hd False 2 by (simp add: handle_frame_def OnReceiveStandardFrame_def msgtype_defs rbind_assoc rbind_Inr)
    next
      case 3
      then show ?thesis
        using b hd False answer_frame_safe [OF h, of "e_fs env" "fh_correlationKey fh" True]
        by (simp add: handle_frame_def OnReceiveStandardFrame_def msgtype_defs rbind_assoc rbind_Inr)
    next
      case 4
      then show ?thesis
        using b hd False answer_frame_safe [OF h, of "e_fs env" "fh_correlationKey fh" False]
        by (simp add: handle_frame_def OnReceiveStandardFrame_def msgtype_defs rbind_assoc rbind_Inr)
    next
      case 5
      then show ?thesis
        using b hd False unknown [OF handling_ok [OF h(1)]] by (simp add: handle_frame_def OnReceiveStandardFrame_def file_types_def)
    qed
  qed
qed

lemma due_frame_step:
  assumes "session_wf (sess h r)" "due_frame (sess h r) = Some f"
  shows "\<exists>s. io_read_step env r h = handle_frame env r (set_sess r s h) \<and> handling f s \<and> (in_pace (sess h r) \<longrightarrow> quiet s)"
proof -
  let ?s = "sess h r"
  have d: "reads (sk ?s) = [frame_req]" "f = take 138 (rx (sk ?s))" "138 \<le> length (rx (sk ?s))"
    using assms(2) by (auto simp: due_frame_def split: if_splits)
  have l: "listening ?s" using assms(1) d(1) by (auto simp: session_wf_def listening_def frame_req_def chunk_req_def)
  have rx: "rx (sk ?s) = f @ drop 138 (rx (sk ?s))" and len: "length f = 138" using d(2,3) by simp_all
  obtain mh where mh: "GetMsgHeader (Some f) = Inr mh" using frame_headers [OF len] by blast
  have "in_pace ?s \<longrightarrow> quiet (got_frame f (drop 138 (rx (sk ?s))) ?s)"
    using d(1) by (auto simp: in_pace_def quiet_def frame_req_def)
  moreover have "handling f (got_frame f (drop 138 (rx (sk ?s))) ?s)" using assms(1) len by (auto simp: handling_def session_wf_def)
  moreover have "io_read_step env r h = handle_frame env r (set_sess r (got_frame f (drop 138 (rx (sk ?s))) ?s) h)"
    using io_frame [OF l rx len mh, of env] assms(1) by (simp add: handle_frame_def session_wf_def)
  ultimately show ?thesis by blast
qed

lemma chunk_handlers_return:
  assumes "fileReadBuf (sess h r) = Some c" "length c = unat (s_csize (sess h r)) + 21"
  shows "\<exists>h'. OnReceiveFileTransferEnd r h = Inr h' \<and> sess h' r = sess h r" "\<exists>h'. OnReceiveFileChunkSent r h = Inr h' \<and> sess h' r = sess h r"
proof -
  obtain hdr where hdr: "GetFileHeader (Some c) = Inr hdr" using assms(2) by (simp add: GetFileHeader_def FILE_HEADER_SIZE_BYTES_def)
  have data: "GetFileData (Some c) (unat (s_csize (sess h r))) = Inr (take (unat (s_csize (sess h r))) (drop 21 c))"
    using assms(2) by (simp add: GetFileData_def FILE_HEADER_SIZE_BYTES_def)
  show "\<exists>h'. OnReceiveFileTransferEnd r h = Inr h' \<and> sess h' r = sess h r"
    using hdr data assms(1) by (cases "fh_msgType hdr = REG_FILE_TRANSFER_END") (simp_all add: OnReceiveFileTransferEnd_def Let_def)
  show "\<exists>h'. OnReceiveFileChunkSent r h = Inr h' \<and> sess h' r = sess h r"
    using hdr data assms(1) by (cases "fh_msgType hdr = REG_FILE_TRANSFER_CHUNK_SENT") (simp_all add: OnReceiveFileChunkSent_def Let_def)
qed

lemma chunk_callback_safe:
  assumes s: "sstate (sess h r) = BVSESSIONSTATE_ESTABLISHED" "quiet (sess h r)" "readBuf (sess h r) = Some b" "length b = 138"
    "reads (sk (sess h r)) = []" "fileReadBuf (sess h r) = Some c" "length c = unat (s_csize (sess h r)) + 21"
  shows "safe_result r (ReadFileChunkCallback False n r h)"
proof -
  let ?s = "(sess h r)\<lparr>totalBytesRead := totalBytesRead (sess h r) + n\<rparr>"
  let ?h = "set_sess r ?s h"
  obtain hdr where hdr: "GetFileHeader (Some c) = Inr hdr" using s(7) by (simp add: GetFileHeader_def FILE_HEADER_SIZE_BYTES_def)
  obtain h1 h2 where h1: "OnReceiveFileTransferEnd r ?h = Inr h1" "sess h1 r = ?s"
      and h2: "OnReceiveFileChunkSent r ?h = Inr h2" "sess h2 r = ?s"
    using chunk_handlers_return [of ?h r c] s(6,7) by auto
  let ?e = "?s\<lparr>fileReadBuf := Some (zeros 1), readBuf := Some (zeros 138), totalBytesRead := 0\<rparr>"
  have e: "StartReadingFrames ?e = Inr (?e\<lparr>sk := (sk ?e)\<lparr>reads := [frame_req]\<rparr>\<rparr>)" by (rule StartReadingFrames_wf [where b = "zeros 138"]) (use s in \<open>simp_all add: quiet_def\<close>)
  have we: "session_ok (?e\<lparr>sk := (sk ?e)\<lparr>reads := [frame_req]\<rparr>\<rparr>)"
    by (rule quiet_ok) (use s in \<open>simp_all add: session_wf_def quiet_def\<close>)
  let ?z = "zeros (unat (s_csize (sess h r)) + 21)"
  let ?c = "?s\<lparr>totalBytesRead := 0, fileReadBuf := Some ?z\<rparr>"
  have z: "fileReadBuf ?c = Some ?z" "totalBytesRead ?c = 0" "reads (sk ?c) = []" "quiet ?c" using s by (simp_all add: quiet_def)
  obtain rs where rs: "StartReadingChunks (s_csize (sess h r) + word_of_nat FILE_HEADER_SIZE_BYTES) ?c = Inr (?c\<lparr>sk := (sk ?c)\<lparr>reads := rs\<rparr>\<rparr>)"
      "rs = [] \<or> (\<exists>n. rs = [chunk_req n False] \<and> n \<le> unat (s_csize (sess h r)) + 21)"
    by (rule StartReadingChunks_wf [OF z])
  have wc: "session_ok (?c\<lparr>sk := (sk ?c)\<lparr>reads := rs\<rparr>\<rparr>)"
    by (rule quiet_ok) (use s rs(2) in \<open>auto simp: session_wf_def quiet_def\<close>)
  have again: "with_sess r (\<lambda>s. case fileReadBuf s of None \<Rightarrow> Inl Null_Deref | Some b \<Rightarrow>
      if length b < unat (s_csize s) + FILE_HEADER_SIZE_BYTES then Inl Out_Of_Bounds
      else StartReadingChunks (s_csize s + word_of_nat FILE_HEADER_SIZE_BYTES)
        (s\<lparr>totalBytesRead := 0, fileReadBuf := Some (zeros (unat (s_csize s) + FILE_HEADER_SIZE_BYTES) @
           drop (unat (s_csize s) + FILE_HEADER_SIZE_BYTES) b)\<rparr>)) h' = Inr (set_sess r (?c\<lparr>sk := (sk ?c)\<lparr>reads := rs\<rparr>\<rparr>) h')"
    if "sess h' r = ?s" for h'
    using that s(6,7) rs(1) by (simp add: with_sess_def FILE_HEADER_SIZE_BYTES_def)
  consider "fh_msgType hdr = REG_FILE_TRANSFER_END" | "fh_msgType hdr = REG_FILE_TRANSFER_CHUNK_SENT"
    | "fh_msgType hdr \<noteq> REG_FILE_TRANSFER_END" "fh_msgType hdr \<noteq> REG_FILE_TRANSFER_CHUNK_SENT" by blast
  then show ?thesis
  proof cases
    case 1
    then show ?thesis
      using s hdr h1 e we
      by (simp add: ReadFileChunkCallback_def Let_def safe_result_def with_sess_def ClearFileBuffer_def ClearReadBuffer_def MESSAGE_FRAME_SIZE_BYTES_def)
  next
    case 2
    then show ?thesis
      using s(6) hdr h2(1) again [OF h2(2)] wc by (simp add: ReadFileChunkCallback_def Let_def safe_result_def msgtype_defs)
  next
    case 3
    then show ?thesis
      using s(6) hdr again [of ?h] wc by (simp add: ReadFileChunkCallback_def Let_def safe_result_def)
  qed
qed

lemma io_read_step_safe:
  assumes ok: "session_ok (sess h r)" and due: "\<forall>f. due_frame (sess h r) = Some f \<longrightarrow> harmless f"
  shows "safe_result r (io_read_step env r h)"
proof (cases "due_frame (sess h r)")
  case (Some f)
  obtain s where "io_read_step env r h = handle_frame env r (set_sess r s h)" "handling f s" "quiet s"
    using due_frame_step [OF _ Some] ok by (auto simp: session_ok_def)
  with due Some handle_frame_safe [of f "set_sess r s h" r env] show ?thesis by simp
next
  case None
  let ?s = "sess h r"
  have wf: "session_wf ?s" using ok by (simp add: session_ok_def)
  have stay: "safe_result r (io_read_step env r h)" if "fill_read ?s = Inr ?s" "reads (sk ?s) = [] \<or> (\<exists>q. reads (sk ?s) = [q] \<and> \<not> rr_filled q)"
    using that ok by (auto simp: io_read_step_def safe_result_def)
  consider "reads (sk ?s) = []" | "reads (sk ?s) = [frame_req]" "length (rx (sk ?s)) < 138"
    | n b where "reads (sk ?s) = [chunk_req n False]" "fileReadBuf ?s = Some b" "length b = unat (s_csize ?s) + 21" "n \<le> length b"
    using wf None by (fastforce simp: session_wf_def due_frame_def split: if_splits)
  then show ?thesis
  proof cases
    case 1
    then show ?thesis by (intro stay) (simp_all add: fill_read_def)
  next
    case 2
    then show ?thesis by (intro stay) (simp_all add: fill_read_def frame_req_def)
  next
    case (3 n b)
    show ?thesis
    proof (cases "length (rx (sk ?s)) < n")
      case True
      with 3 show ?thesis by (intro stay) (simp_all add: fill_read_def chunk_req_def)
    next
      case False
      let ?d = "take n (rx (sk ?s))"
      let ?t = "?s\<lparr>fileReadBuf := Some (memcpy_at b 0 ?d), sk := (sk ?s)\<lparr>rx := drop n (rx (sk ?s)), reads := []\<rparr>\<rparr>"
      have step: "io_read_step env r h = ReadFileChunkCallback False n r (set_sess r ?t h)"
        using 3 False by (simp add: io_read_step_def fill_read_def chunk_req_def)
      obtain c where c: "readBuf ?s = Some c" "length c = 138" using wf by (auto simp: session_wf_def)
      have q: "quiet ?t" using ok 3 by (auto simp: session_ok_def in_pace_def quiet_def chunk_req_def)
      show ?thesis unfolding step
        by (rule chunk_callback_safe [of "set_sess r ?t h" r c "memcpy_at b 0 ?d"]) (use wf c 3 False q in \<open>simp_all add: session_wf_def\<close>)
    qed
  qed
qed

lemma session_run_ok:
  assumes "session_run env r h0 h" "session_ok (sess h0 r)"
  shows "session_ok (sess h r)"
  using assms
proof (induction rule: session_run.induct)
  case (completion h h')
  then show ?case using io_read_step_safe [of h r env] by (simp add: safe_result_def)
next
  case (writing h m s)
  then show ?case using WriteMessageFrame_session_ok by simp
next
  case (arrival h d)
  then show ?case using arrive_wf [of h r d] by (simp add: session_ok_def)
qed (simp_all add: io_write_step_ok)

section \<open>Frames the program writes\<close>

lemma chat_harmless: "plain_chat m \<Longrightarrow> harmless (msg_bytes m)"
proof -
  assume m: "plain_chat m"
  have "mh_dataLen (m_header m) \<le> 128" using m by (simp add: plain_chat_def word_le_nat_alt)
  moreover have "msg_bytes m ! 0 = mh_dataLen (m_header m)" "msg_bytes m ! 9 = mh_msgType (m_header m)"
    by (simp_all add: msg_bytes_def nth_append)
  ultimately show ?thesis
    using m msg_bytes_12 [of m "m_payload m"] by (auto simp: harmless_def plain_chat_def file_types_def)
qed

lemma file_frame_bytes:
  "file_frame c n ! 12 = fh_msgType (fc_header c)" "drop 21 (file_frame c n) = take n (fc_payload c) @ zeros (n - length (fc_payload c))"
  by (simp_all add: file_frame_layout file_header_bytes_def nth_append)

lemma named_frame_harmless:
  assumes "name_fits service fname" "not_chat_time (fh_timestamp hdr)"
  shows "harmless (file_frame \<lparr>fc_header = hdr, fc_payload = begin_payload service fname\<rparr> 117)"
proof -
  have "length (service @ str ''|'' @ fname) < 117" using assms(1) by (auto simp: name_fits_def str_def)
  then have "0 \<in> set (take 117 (begin_payload service fname))" by (simp add: begin_payload_def)
  then show ?thesis using assms(2) by (auto simp: harmless_def file_frame_bytes file_frame_byte_9 not_chat_time_def)
qed

lemma control_frame_harmless:
  assumes "not_chat_time now" "t \<in> {REG_FILE_ACCEPT, REG_FILE_REJECT}"
  shows "harmless (control_frame now key t)"
  using assms by (auto simp: harmless_def control_frame_def file_frame_bytes file_frame_byte_9 not_chat_time_def ConstructFileHeader_def msgtype_defs)

section \<open>Properties\<close>

lemma example_ok: "session_ok (example_session (str ''alice'') (str ''bob''))"
  using example_listening [of "str ''alice''" "str ''bob''"] by (auto simp: session_ok_def session_wf_def listening_def in_pace_def)



text \<open>C40: the frames that are not harmless make the session read outside its buffer: a chat text announced longer than the 128 bytes of the payload, and an offer or begin of a transfer whose names are not ended in the frame.\<close>

theorem hostile_frame_overreads:
  assumes "session_wf (sess h r)" "due_frame (sess h r) = Some f"
    "f ! 9 = REG_CHATMESSAGE \<and> 128 < f ! 0 \<or>
     f ! 9 \<noteq> REG_CHATMESSAGE \<and> f ! 12 \<in> {REG_FILE_TRANSFER_BEGIN, REG_FILE_OFFER} \<and> 0 \<notin> set (drop 21 f)"
  shows "io_read_step env r h = Inl Out_Of_Bounds"
proof -
  obtain s where s: "io_read_step env r h = handle_frame env r (set_sess r s h)" "handling f s" using due_frame_step [OF assms(1,2)] by blast
  have b: "readBuf s = Some f" "length f = 138" using s(2) by (simp_all add: handling_def)
  obtain mh fh where hd: "GetMsgHeader (Some f) = Inr mh" "mh_msgType mh = f ! 9" "mh_dataLen mh = f ! 0"
      "GetFileHeader (Some f) = Inr fh" "fh_msgType fh = f ! 12"
    using frame_headers [OF b(2)] by blast
  from assms(3) show ?thesis
  proof
    assume c: "f ! 9 = REG_CHATMESSAGE \<and> 128 < f ! 0"
    then have "\<not> unat (f ! 0) \<le> 128" by (simp add: word_less_nat_alt)
    with c b hd s(1) show ?thesis
      by (simp add: handle_frame_def OnReceiveStandardFrame_def OnReceiveChatMessageFrame_def GetPayloadPtr_def HEADER_SIZE_BYTES_def)
  next
    assume c: "f ! 9 \<noteq> REG_CHATMESSAGE \<and> f ! 12 \<in> {REG_FILE_TRANSFER_BEGIN, REG_FILE_OFFER} \<and> 0 \<notin> set (drop 21 f)"
    then have "GetFileData_str (Some f) = Inl Out_Of_Bounds" by (simp add: GetFileData_str_def FILE_HEADER_SIZE_BYTES_def)
    with c b hd s(1) show ?thesis
      by (auto simp: handle_frame_def OnReceiveStandardFrame_def OnReceiveFileTransferBegin_def OnReceiveFileOffer_def msgtype_defs)
  qed
qed

theorem hostile_frame_overreads_witness:
  "io_read_step example_env 0 (arrive ([200] @ zeros 8 @ [REG_CHATMESSAGE] @ zeros 128) 0 example_host) = Inl Out_Of_Bounds"
proof -
  let ?f = "[200] @ zeros 8 @ [REG_CHATMESSAGE] @ zeros 128"
  have wf: "session_wf (sess (arrive ?f 0 example_host) 0)"
    by (rule arrive_wf) (use example_ok in \<open>simp add: example_host_session session_ok_def\<close>)
  have "length ?f = 138" "?f ! 9 = REG_CHATMESSAGE \<and> 128 < ?f ! 0" by (simp_all add: nth_append)
  moreover from this(1) have "due_frame (sess (arrive ?f 0 example_host) 0) = Some ?f"
    using example_listening [of "str ''alice''" "str ''bob''"] by (simp add: due_frame_def example_host_session listening_def)
  ultimately show ?thesis using hostile_frame_overreads [OF wf] by blast
qed

text \<open>Every frame that the program itself writes to an established session is harmless: plain chat messages, offers and begins of transfers whose names fit, and answers, provided that the sixth byte of the time stamp of a file frame is not the code of a chat message.\<close>

theorem own_frames_harmless:
  assumes "plain_chat m" "name_fits service fname" "not_chat_time now"
  shows "harmless (msg_bytes m)" "harmless (offer_frame now key fsize service fname)" "harmless (control_frame now key REG_FILE_ACCEPT)"
  using assms by (simp_all add: chat_harmless offer_frame_def named_frame_harmless control_frame_harmless ConstructFileHeader_def)

end
