(* ===== verification/Transfer_Interleaving.thy ===== *)
theory Transfer_Interleaving
  imports Session_Safety
begin

text \<open>
  The worker thread of a file transfer beside the other threads of the host. \<open>worker_iteration\<close> is
  one turn of the loop of \<open>LaunchFileTransfer\<close> (\<open>include/BVFileTransferContext.hpp\<close>), and a schedule
  mixes such turns with the operations of the connection manager that write to the same session:
  chat messages, offers, answers, and the completion of writes. A write puts a whole frame on the
  connection at once. The receiver is the session of \<open>Session_Handlers\<close>.
\<close>

section \<open>One iteration of the worker\<close>

definition worker_iteration :: "(nat \<Rightarrow> u64) \<Rightarrow> u32 \<Rightarrow> nat \<times> host \<Rightarrow> nat \<times> host" where
  "worker_iteration clk key st =
     (case st of (k, h) \<Rightarrow>
       (case map_of (fileTransferContext_m h) key of
          None \<Rightarrow> st
        | Some (c, r) \<Rightarrow>
            (if \<not> ft_open c \<or> \<not> ft_isRunning c then st
             else if \<not> ft_good c then (Suc k, h)
             else
               (case TransferNextChunk (clk k) c (sess h r) of
                  (c', s', p) \<Rightarrow>
                    (Suc k, (case p of None \<Rightarrow> id | Some x \<Rightarrow> note_progress x)
                       (set_sess r s' (h\<lparr>fileTransferContext_m := omap_put key (c', r) (fileTransferContext_m h)\<rparr>)))))))"

datatype sender_op =
    Run_Worker
  | Send_Chat BVTCPMessage
  | Offer_File u64 bytes
  | Answer_Offer u64 u32 bool
  | Write_Done

text \<open>The operations of the threads of a host on the session \<open>r\<close>, filed as \<open>sid\<close>, with the peer \<open>peer\<close>.\<close>

fun sender_step :: "(nat \<Rightarrow> u64) \<Rightarrow> fsys \<Rightarrow> u32 \<Rightarrow> u16 \<Rightarrow> bytes \<Rightarrow> nat \<Rightarrow> sender_op \<Rightarrow> nat \<times> host \<Rightarrow> (nat \<times> host) result" where
  "sender_step clk fs key sid peer r Run_Worker st = Inr (worker_iteration clk key st)"
| "sender_step clk fs key sid peer r (Send_Chat m) (k, h) = rbind (SendDataToNode m sid h) (\<lambda>(_, h). Inr (k, h))"
| "sender_step clk fs key sid peer r (Offer_File now p) (k, h) =
     rbind (InitiateFileTransferWithSession now fs sid p h) (\<lambda>(_, h). Inr (k, h))"
| "sender_step clk fs key sid peer r (Answer_Offer now key' a) (k, h) = Inr (k, RespondToFileOffer now peer key' a h)"
| "sender_step clk fs key sid peer r Write_Done (k, h) = Inr (k, io_write_step r h)"

fun sender_run :: "(nat \<Rightarrow> u64) \<Rightarrow> fsys \<Rightarrow> u32 \<Rightarrow> u16 \<Rightarrow> bytes \<Rightarrow> nat \<Rightarrow> sender_op list \<Rightarrow> nat \<times> host \<Rightarrow> (nat \<times> host) result" where
  "sender_run clk fs key sid peer r [] st = Inr st"
| "sender_run clk fs key sid peer r (x # xs) st =
     rbind (sender_step clk fs key sid peer r x st) (sender_run clk fs key sid peer r xs)"

section \<open>What should be on the wire\<close>

definition transfer_frames :: "(nat \<Rightarrow> u64) \<Rightarrow> u32 \<Rightarrow> bytes \<Rightarrow> bytes \<Rightarrow> bytes \<Rightarrow> bytes list" where
  "transfer_frames clk key service fname content =
     (let fs = word_of_nat (length content); cs = DetermineChunkSize fs in
      begin_frame (clk 0) key cs fs service fname # data_frames clk 1 key (unat cs) content)"

definition announced_size :: "fsys \<Rightarrow> bytes \<Rightarrow> u32" where
  "announced_size fs p = (case fs_files fs p of Some c \<Rightarrow> word_of_nat (length c) | None \<Rightarrow> - 1)"

text \<open>The frames of the other operations; \<open>n\<close> is the key of the next offer.\<close>

fun other_frames :: "fsys \<Rightarrow> bytes \<Rightarrow> u32 \<Rightarrow> sender_op list \<Rightarrow> bytes list" where
  "other_frames fs service n [] = []"
| "other_frames fs service n (Send_Chat m # xs) = msg_bytes m # other_frames fs service n xs"
| "other_frames fs service n (Offer_File now p # xs) =
     offer_frame now n (announced_size fs p) service (path_filename p) # other_frames fs service (n + 1) xs"
| "other_frames fs service n (Answer_Offer now key a # xs) =
     control_frame now key (if a then REG_FILE_ACCEPT else REG_FILE_REJECT) # other_frames fs service n xs"
| "other_frames fs service n (_ # xs) = other_frames fs service n xs"

text \<open>The frames in the order in which a schedule writes them: \<open>ws\<close> of the worker, \<open>os\<close> of the rest.\<close>

fun wire_frames :: "sender_op list \<Rightarrow> bytes list \<Rightarrow> bytes list \<Rightarrow> bytes list" where
  "wire_frames [] ws os = []"
| "wire_frames (Run_Worker # xs) ws os = (case ws of [] \<Rightarrow> wire_frames xs [] os | w # ws \<Rightarrow> w # wire_frames xs ws os)"
| "wire_frames (Write_Done # xs) ws os = wire_frames xs ws os"
| "wire_frames (_ # xs) ws os = (case os of [] \<Rightarrow> wire_frames xs ws [] | f # os \<Rightarrow> f # wire_frames xs ws os)"

definition worker_turns :: "sender_op list \<Rightarrow> nat" where
  "worker_turns xs = length (filter (\<lambda>x. x = Run_Worker) xs)"

lemma worker_turns_simps [simp]:
  "worker_turns [] = 0" "worker_turns (Run_Worker # xs) = Suc (worker_turns xs)"
  "worker_turns (Send_Chat m # xs) = worker_turns xs" "worker_turns (Offer_File now p # xs) = worker_turns xs"
  "worker_turns (Answer_Offer now key a # xs) = worker_turns xs" "worker_turns (Write_Done # xs) = worker_turns xs"
  "worker_turns (replicate j Run_Worker @ xs) = j + worker_turns xs"
  by (simp_all add: worker_turns_def)

lemma wire_frames_shuffle:
  "wire_frames xs ws (other_frames fs service n xs) \<in> shuffles (take (worker_turns xs) ws) (other_frames fs service n xs)"
proof (induction xs arbitrary: n ws)
  case (Cons x xs)
  from Cons [of "tl ws" n] Cons [of ws] show ?case
    by (cases x; cases ws) (auto intro: Cons_in_shuffles_leftI Cons_in_shuffles_rightI)
qed simp

section \<open>The worker among the others\<close>

text \<open>The frames that a transfer has still to write after \<open>k\<close> iterations of its loop.\<close>

inductive to_send :: "(nat \<Rightarrow> u64) \<Rightarrow> bytes \<Rightarrow> nat \<Rightarrow> ftctx \<Rightarrow> bytes list \<Rightarrow> bool" for clk service where
  ended: "\<not> ft_isRunning c \<Longrightarrow> to_send clk service k c []"
| chunks: "sending c len rest \<Longrightarrow> ft_open c \<Longrightarrow>
    to_send clk service k c (data_frames clk k (ft_ftcid c) (unat (ft_csize c)) rest)"
| first: "content \<noteq> [] \<Longrightarrow> length content + unat (DetermineChunkSize (word_of_nat (length content))) < 2 ^ 32 \<Longrightarrow>
    to_send clk service 0 (BVFileTransferContext_ctor True content fname key)
      (transfer_frames clk key service fname content)"

inductive_cases to_send_NilE: "to_send clk service k c []"

lemma data_frames_not_Nil: "sending c len rest \<Longrightarrow> data_frames clk k key (unat (ft_csize c)) rest \<noteq> []"
  by (subst data_frames.simps) (simp add: sending_def)

lemma to_send_Nil: "to_send clk service k c [] \<Longrightarrow> \<not> ft_isRunning c"
  by (erule to_send_NilE) (auto simp: transfer_frames_def Let_def dest: data_frames_not_Nil [of _ _ _ clk k "ft_ftcid c"])

lemma TransferNextChunk_open: "ft_open (fst (TransferNextChunk now c s)) = ft_open c"
  by (simp add: TransferNextChunk_def Let_def)

lemma to_send_Cons:
  assumes todo: "to_send clk service k c (f # fs)" and s: "\<not> broken (sk s)" "thisMachineServiceName s = service"
  shows "ft_open c \<and> ft_isRunning c \<and> ft_good c \<and>
    (\<exists>c' p. TransferNextChunk (clk k) c s = (c', s\<lparr>sk := (sk s)\<lparr>tx := tx (sk s) @ f\<rparr>\<rparr>, p) \<and> to_send clk service (Suc k) c' fs)"
  using todo
proof cases
  case (chunks len rest)
  note 1 = chunks
  let ?n = "unat (ft_csize c)"
  have run: "ft_isRunning c" "ft_good c" "rest \<noteq> []" "0 < ?n" using 1(2) by (simp_all add: sending_def)
  have f: "f = data_frame (clk k) (ft_ftcid c) ?n (if length rest \<le> ?n then REG_FILE_TRANSFER_END else REG_FILE_TRANSFER_CHUNK_SENT) rest"
      "fs = data_frames clk (Suc k) (ft_ftcid c) ?n (drop ?n rest)"
    using 1(1) data_frames_Cons [OF run(4,3), of clk k "ft_ftcid c"] by simp_all
  obtain c' p where c': "TransferNextChunk (clk k) c s = (c', s\<lparr>sk := (sk s)\<lparr>tx := tx (sk s) @ f\<rparr>\<rparr>, p)"
      "ft_ftcid c' = ft_ftcid c" "ft_csize c' = ft_csize c"
      "if length rest \<le> ?n then \<not> ft_isRunning c' else sending c' len (drop ?n rest)"
    using TransferNextChunk_data [OF 1(2) s(1), of "clk k"] unfolding f(1) [symmetric] by (auto split: if_splits)
  have "ft_open c'" using TransferNextChunk_open [of "clk k" c s] c'(1) 1(3) by simp
  then have "to_send clk service (Suc k) c' fs"
    using c'(2-4) to_send.ended [of c' clk service "Suc k"] to_send.chunks [of c' len "drop ?n rest" clk service "Suc k"]
    by (cases "length rest \<le> ?n") (simp_all add: f(2))
  with run(1,2) 1(3) c'(1) show ?thesis by blast
next
  case (first content fname key)
  note 2 = first
  let ?c = "c\<lparr>ft_state := FILETRANSFERSTATE_ONGOING\<rparr>"
  have f: "f = begin_frame (clk 0) key (DetermineChunkSize (word_of_nat (length content))) (word_of_nat (length content)) service fname"
      "fs = data_frames clk 1 (ft_ftcid ?c) (unat (ft_csize ?c)) content"
    using 2 by (simp_all add: transfer_frames_def Let_def BVFileTransferContext_ctor_def)
  have c: "ft_open c" "ft_isRunning c" "ft_good c" unfolding 2(2) by (simp_all add: BVFileTransferContext_ctor_def Let_def)
  have "sending ?c (length content) content" using sending_after_begin [OF 2(4,5)] 2(2) by simp
  then have "to_send clk service 1 ?c fs" unfolding f(2) by (rule to_send.chunks) (simp add: c(1))
  moreover have "TransferNextChunk (clk k) c s = (?c, s\<lparr>sk := (sk s)\<lparr>tx := tx (sk s) @ f\<rparr>\<rparr>, None)"
    using TransferNextChunk_begin [OF s(1), of "clk 0" True content fname key] 2(1,2) s(2) f(1) by simp
  ultimately show ?thesis using c 2(1) by auto
qed

text \<open>A session on which nothing but whole message frames is being written.\<close>

definition writing_frames :: "session \<Rightarrow> bool" where
  "writing_frames s \<longleftrightarrow>
     can_write s \<and> sstate s \<noteq> BVSESSIONSTATE_CLOSED \<and> totalBytesWritten s = 0 \<and> (\<forall>w \<in> set (writes (sk s)). w = (False, 138))"

text \<open>The host between two operations: \<open>n\<close> is the key of its next offer, \<open>ws\<close> what the worker has still to write.\<close>

definition sender_ready :: "(nat \<Rightarrow> u64) \<Rightarrow> bytes \<Rightarrow> u32 \<Rightarrow> u16 \<Rightarrow> bytes \<Rightarrow> nat \<Rightarrow> u32 \<Rightarrow> bytes list \<Rightarrow> nat \<times> host \<Rightarrow> bool" where
  "sender_ready clk service key sid peer r n ws st \<longleftrightarrow>
     (case st of (k, h) \<Rightarrow>
        map_of (sessions_m h) sid = Some r \<and> GetSessionIDFromServiceName peer h = Some sid \<and> ftcid h = n \<and>
        writing_frames (sess h r) \<and> thisMachineServiceName (sess h r) = service \<and>
        (\<exists>c. map_of (fileTransferContext_m h) key = Some (c, r) \<and> to_send clk service k c ws))"

lemma writing_frames_simps [simp]:
  "writing_frames (s\<lparr>sk := (sk s)\<lparr>tx := d\<rparr>\<rparr>) = writing_frames s"
  by (simp add: writing_frames_def can_write_def)

lemma chat_write:
  assumes "writing_frames s" "length (m_payload m) = 128"
  shows "\<exists>s'. WriteMessageFrame m s = Inr s' \<and> tx (sk s') = tx (sk s) @ msg_bytes m \<and> writing_frames s' \<and>
    thisMachineServiceName s' = thisMachineServiceName s"
  using assms WriteMessageFrame_tx [of s m] by (auto simp: writing_frames_def can_write_def)

lemma write_done:
  assumes "writing_frames (sess h r)"
  shows "\<exists>s'. io_write_step r h = set_sess r s' h \<and> tx (sk s') = tx (sk (sess h r)) \<and> writing_frames s' \<and>
    thisMachineServiceName s' = thisMachineServiceName (sess h r)"
proof (cases "writes (sk (sess h r))")
  case Nil
  then show ?thesis using assms by (intro exI [of _ "sess h r"]) (simp add: io_write_step_def)
next
  case (Cons w ws)
  then have "w = (False, 138)" using assms by (simp add: writing_frames_def)
  with Cons assms show ?thesis
    by (intro exI [of _ "(sess h r)\<lparr>sk := (sk (sess h r))\<lparr>writes := ws\<rparr>, totalBytesWritten := 0, writeBuf := zeros 138\<rparr>"])
      (auto simp: io_write_step_def WriteMessageFrameCallback_def ClearWriteBuffer_def MESSAGE_FRAME_SIZE_BYTES_def
        writing_frames_def can_write_def)
qed

lemma offer_write:
  assumes "writing_frames s"
  shows "SendFileOffer now key fsize name s = s\<lparr>sk := (sk s)\<lparr>tx := tx (sk s) @ offer_frame now key fsize (thisMachineServiceName s) name\<rparr>\<rparr>"
  using assms by (simp add: SendFileOffer_def WriteFileChunkSync_tx writing_frames_def can_write_def offer_frame_def
      begin_payload_def ConstructFileChunk_def MESSAGE_FRAME_SIZE_BYTES_def FILE_HEADER_SIZE_BYTES_def)

lemma answer_write:
  assumes "writing_frames s"
  shows "SendFileControl now key t s = s\<lparr>sk := (sk s)\<lparr>tx := tx (sk s) @ control_frame now key t\<rparr>\<rparr>"
  using assms by (simp add: SendFileControl_def WriteFileChunkSync_tx writing_frames_def can_write_def control_frame_def
      ConstructFileChunk_def MESSAGE_FRAME_SIZE_BYTES_def FILE_HEADER_SIZE_BYTES_def)

lemma note_progress_frame [simp]:
  "sessions_m (note_progress p h) = sessions_m h" "ftcid (note_progress p h) = ftcid h" "sess (note_progress p h) = sess h"
  "fileTransferContext_m (note_progress p h) = fileTransferContext_m h" "service_sessionid_m (note_progress p h) = service_sessionid_m h"
  by (simp_all add: note_progress_def split: prod.splits)

lemma worker_iteration_writes:
  assumes ready: "sender_ready clk service key sid peer r n ws (k, h)"
  shows "\<exists>k' h'. worker_iteration clk key (k, h) = (k', h') \<and>
    tx (sk (sess h' r)) = tx (sk (sess h r)) @ concat (take 1 ws) \<and> sender_ready clk service key sid peer r n (drop 1 ws) (k', h')"
proof -
  obtain c where c: "map_of (fileTransferContext_m h) key = Some (c, r)" "to_send clk service k c ws"
    using ready by (auto simp: sender_ready_def)
  show ?thesis
  proof (cases ws)
    case Nil
    then have "\<not> ft_isRunning c" using c(2) to_send_Nil by simp
    then have "worker_iteration clk key (k, h) = (k, h)" using c(1) by (simp add: worker_iteration_def)
    with ready Nil show ?thesis by simp
  next
    case (Cons f fs)
    let ?s = "(sess h r)\<lparr>sk := (sk (sess h r))\<lparr>tx := tx (sk (sess h r)) @ f\<rparr>\<rparr>"
    have "\<not> broken (sk (sess h r))" "thisMachineServiceName (sess h r) = service"
      using ready by (simp_all add: sender_ready_def writing_frames_def can_write_def)
    from to_send_Cons [OF c(2) [unfolded Cons] this] obtain c' p where c': "ft_open c" "ft_isRunning c" "ft_good c"
        "TransferNextChunk (clk k) c (sess h r) = (c', ?s, p)" "to_send clk service (Suc k) c' fs"
      by blast
    define h' where "h' = (case p of None \<Rightarrow> id | Some x \<Rightarrow> note_progress x)
        (set_sess r ?s (h\<lparr>fileTransferContext_m := omap_put key (c', r) (fileTransferContext_m h)\<rparr>))"
    have h': "sess h' r = ?s" "map_of (fileTransferContext_m h') key = Some (c', r)" "sessions_m h' = sessions_m h"
        "service_sessionid_m h' = service_sessionid_m h" "ftcid h' = ftcid h"
      by (simp_all add: h'_def set_sess_def split: option.splits)
    have "worker_iteration clk key (k, h) = (Suc k, h')"
      using c(1) c'(1-4) by (simp add: worker_iteration_def h'_def)
    moreover have "sender_ready clk service key sid peer r n fs (Suc k, h')"
      using ready c'(5) h' by (simp add: sender_ready_def GetSessionIDFromServiceName_def)
    ultimately show ?thesis using h'(1) Cons by simp
  qed
qed

lemma set_sess_tables [simp]:
  "ftcid (set_sess r s h) = ftcid h" "fileTransferContext_m (set_sess r s h) = fileTransferContext_m h"
  "service_sessionid_m (set_sess r s h) = service_sessionid_m h"
  by (simp_all add: set_sess_def)

text \<open>A change of the session alone.\<close>

lemma sender_ready_sess:
  assumes "sender_ready clk service key sid peer r n ws (k, h)" "writing_frames s"
    "thisMachineServiceName s = thisMachineServiceName (sess h r)"
  shows "sender_ready clk service key sid peer r n ws (k, set_sess r s h)"
  using assms by (simp add: sender_ready_def GetSessionIDFromServiceName_def)

definition whole_chats :: "sender_op list \<Rightarrow> bool" where
  "whole_chats xs \<longleftrightarrow> (\<forall>m. Send_Chat m \<in> set xs \<longrightarrow> length (m_payload m) = 128)"

lemma sender_step_writes:
  assumes ready: "sender_ready clk service key sid peer r n ws (k, h)" and chat: "whole_chats [x]"
  shows "\<exists>k' h' n' d. sender_step clk fs key sid peer r x (k, h) = Inr (k', h') \<and> tx (sk (sess h' r)) = tx (sk (sess h r)) @ d \<and>
    sender_ready clk service key sid peer r n' (drop (worker_turns [x]) ws) (k', h') \<and>
    (\<forall>xs. concat (wire_frames (x # xs) ws (other_frames fs service n (x # xs))) =
       d @ concat (wire_frames xs (drop (worker_turns [x]) ws) (other_frames fs service n' xs)))"
proof -
  have h: "map_of (sessions_m h) sid = Some r" "GetSessionIDFromServiceName peer h = Some sid" "ftcid h = n"
      "writing_frames (sess h r)" "thisMachineServiceName (sess h r) = service"
    using ready by (simp_all add: sender_ready_def)
  note same = sender_ready_sess [OF ready]
  show ?thesis
  proof (cases x)
    case Run_Worker
    from worker_iteration_writes [OF ready] show ?thesis
      unfolding Run_Worker by (fastforce simp: take_Suc drop_Suc split: list.splits)
  next
    case (Send_Chat m)
    have "length (m_payload m) = 128" using chat Send_Chat by (simp add: whole_chats_def)
    from chat_write [OF h(4) this] obtain s' where "WriteMessageFrame m (sess h r) = Inr s'"
        "tx (sk s') = tx (sk (sess h r)) @ msg_bytes m" "writing_frames s'" "thisMachineServiceName s' = thisMachineServiceName (sess h r)"
      by blast
    with same [OF this(3,4)] h(1) show ?thesis
      unfolding Send_Chat by (auto simp: SendDataToNode_def with_sess_def intro!: exI [of _ n])
  next
    case (Offer_File now p)
    let ?s = "(sess h r)\<lparr>sk := (sk (sess h r))\<lparr>tx := tx (sk (sess h r)) @
      offer_frame now n (announced_size fs p) service (path_filename p)\<rparr>\<rparr>"
    let ?h = "set_sess r ?s (h\<lparr>ftcid := n + 1, pendingOutgoing_m := omap_put n (sid, p) (pendingOutgoing_m h)\<rparr>)"
    have "InitiateFileTransferWithSession now fs sid p h = Inr (BVSTATUS_OK, ?h)"
      using h offer_write [OF h(4)]
      by (simp add: InitiateFileTransferWithSession_def Let_def announced_size_def set_sess_def split: option.splits)
    moreover have "sender_ready clk service key sid peer r (n + 1) ws (k, ?h)"
      using ready by (simp add: sender_ready_def GetSessionIDFromServiceName_def)
    ultimately show ?thesis
      unfolding Offer_File by (intro exI [of _ k] exI [of _ ?h] exI [of _ "n + 1"]) simp
  next
    case (Answer_Offer now key' a)
    let ?t = "if a then REG_FILE_ACCEPT else REG_FILE_REJECT"
    let ?s = "(sess h r)\<lparr>sk := (sk (sess h r))\<lparr>tx := tx (sk (sess h r)) @ control_frame now key' ?t\<rparr>\<rparr>"
    have "RespondToFileOffer now peer key' a h = set_sess r ?s h"
      using h answer_write [OF h(4)] by (simp add: RespondToFileOffer_def)
    with same [of ?s] h(4) show ?thesis
      unfolding Answer_Offer by (intro exI [of _ k] exI [of _ "set_sess r ?s h"] exI [of _ n]) simp
  next
    case Write_Done
    from write_done [OF h(4)] obtain s' where "io_write_step r h = set_sess r s' h" "tx (sk s') = tx (sk (sess h r))"
        "writing_frames s'" "thisMachineServiceName s' = thisMachineServiceName (sess h r)" by blast
    with same [OF this(3,4)] show ?thesis
      unfolding Write_Done by (auto intro!: exI [of _ n])
  qed
qed

lemma whole_chats_Cons: "whole_chats (x # xs) \<longleftrightarrow> whole_chats [x] \<and> whole_chats xs"
  by (auto simp: whole_chats_def)

lemma worker_turns_Cons: "worker_turns (x # xs) = worker_turns [x] + worker_turns xs"
  by (simp add: worker_turns_def)

lemma sender_run_writes:
  assumes "sender_ready clk service key sid peer r n ws (k, h)" and "whole_chats xs"
  shows "\<exists>k' h' n'. sender_run clk fs key sid peer r xs (k, h) = Inr (k', h') \<and>
    tx (sk (sess h' r)) = tx (sk (sess h r)) @ concat (wire_frames xs ws (other_frames fs service n xs)) \<and>
    sender_ready clk service key sid peer r n' (drop (worker_turns xs) ws) (k', h')"
  using assms
proof (induction xs arbitrary: k h n ws)
  case Nil
  then show ?case by auto
next
  case (Cons x xs)
  have wc: "whole_chats [x]" "whole_chats xs" using Cons.prems(2) whole_chats_Cons by blast+
  from sender_step_writes [OF Cons.prems(1) wc(1), of fs] obtain k1 h1 n1 d where 1:
      "sender_step clk fs key sid peer r x (k, h) = Inr (k1, h1)" "tx (sk (sess h1 r)) = tx (sk (sess h r)) @ d"
      "sender_ready clk service key sid peer r n1 (drop (worker_turns [x]) ws) (k1, h1)"
      "concat (wire_frames (x # xs) ws (other_frames fs service n (x # xs))) =
         d @ concat (wire_frames xs (drop (worker_turns [x]) ws) (other_frames fs service n1 xs))"
    by blast
  from Cons.IH [OF 1(3) wc(2)] show ?case
    using 1(1,2,4) by (auto simp: worker_turns_Cons [of x xs] add.commute)
qed

section \<open>The steps of the worker are its loop\<close>

lemma sender_run_workers:
  "sender_run clk fs key sid peer r (replicate n Run_Worker) st = Inr ((worker_iteration clk key ^^ n) st)"
  by (induction n arbitrary: st) (simp_all add: funpow_swap1)

text \<open>The host with the context and the session of a transfer replaced.\<close>

definition put_transfer :: "u32 \<Rightarrow> nat \<Rightarrow> ftctx \<Rightarrow> session \<Rightarrow> host \<Rightarrow> host" where
  "put_transfer key r c s h = set_sess r s (h\<lparr>fileTransferContext_m := omap_put key (c, r) (fileTransferContext_m h)\<rparr>)"

lemma put_transfer_simps [simp]:
  "sess (put_transfer key r c s h) r = s" "map_of (fileTransferContext_m (put_transfer key r c s h)) key = Some (c, r)"
  "put_transfer key r c' s' (put_transfer key r c s h) = put_transfer key r c' s' h"
  "put_transfer key r c s (note_progress p h) = note_progress p (put_transfer key r c s h)"
  by (simp_all add: put_transfer_def set_sess_def omap_put_again note_progress_def split: prod.splits)

lemma put_transfer_same:
  "omap_inv (fileTransferContext_m h) \<Longrightarrow> map_of (fileTransferContext_m h) key = Some (c, r) \<Longrightarrow> put_transfer key r c (sess h r) h = h"
  by (simp add: put_transfer_def set_sess_def omap_put_same)

lemma put_transfer_fold: "put_transfer key r c s (fold note_progress ps h) = fold note_progress ps (put_transfer key r c s h)"
  by (induction ps arbitrary: h) simp_all

lemma worker_iteration_step:
  assumes "map_of (fileTransferContext_m h) key = Some (c, r)" "ft_open c" "ft_isRunning c" "ft_good c"
    and "TransferNextChunk (clk k) c (sess h r) = (c', s', p)"
  shows "worker_iteration clk key (k, h) = (Suc k, fold note_progress (case p of None \<Rightarrow> [] | Some x \<Rightarrow> [x]) (put_transfer key r c' s' h))"
  using assms by (simp add: worker_iteration_def put_transfer_def split: option.splits)

text \<open>\<open>n\<close> iterations from the context \<open>c\<close> and the session \<open>s\<close> lead to \<open>c'\<close> and \<open>s'\<close>, reporting \<open>qs\<close>.\<close>

definition iterates_to :: "(nat \<Rightarrow> u64) \<Rightarrow> u32 \<Rightarrow> nat \<Rightarrow> nat \<Rightarrow> ftctx \<Rightarrow> session \<Rightarrow> progress list \<Rightarrow> ftctx \<Rightarrow> session \<Rightarrow> bool" where
  "iterates_to clk key r k c s qs c' s' \<longleftrightarrow>
     (\<exists>n k'. \<forall>h. ft_open c \<longrightarrow> omap_inv (fileTransferContext_m h) \<longrightarrow> map_of (fileTransferContext_m h) key = Some (c, r) \<longrightarrow>
        sess h r = s \<longrightarrow>
        (worker_iteration clk key ^^ n) (k, h) = (k', fold note_progress qs (put_transfer key r c' s' h)))"

lemma iterates_to_refl: "iterates_to clk key r k c s [] c s"
  unfolding iterates_to_def by (intro exI [of _ 0] exI [of _ k]) (auto simp: put_transfer_same)

lemma iterates_to_spin:
  assumes "ft_isRunning c" "\<not> ft_good c" and "iterates_to clk key r (Suc k) c s qs c' s'"
  shows "iterates_to clk key r k c s qs c' s'"
proof -
  have "worker_iteration clk key (k, h) = (Suc k, h)" if "map_of (fileTransferContext_m h) key = Some (c, r)" "ft_open c" for h
    using that assms(1,2) by (simp add: worker_iteration_def)
  moreover obtain n k' where "\<forall>h. ft_open c \<longrightarrow> omap_inv (fileTransferContext_m h) \<longrightarrow> map_of (fileTransferContext_m h) key = Some (c, r) \<longrightarrow>
      sess h r = s \<longrightarrow> (worker_iteration clk key ^^ n) (Suc k, h) = (k', fold note_progress qs (put_transfer key r c' s' h))"
    using assms(3) unfolding iterates_to_def by blast
  ultimately show ?thesis
    unfolding iterates_to_def by (intro exI [of _ "Suc n"] exI [of _ k']) (simp add: funpow_swap1)
qed

lemma iterates_to_go:
  assumes go: "ft_isRunning c" "ft_good c" and t: "TransferNextChunk (clk k) c s = (c1, s1, p)"
    and rest: "iterates_to clk key r (Suc k) c1 s1 qs c' s'"
  shows "iterates_to clk key r k c s ((case p of None \<Rightarrow> [] | Some x \<Rightarrow> [x]) @ qs) c' s'"
proof -
  let ?p = "case p of None \<Rightarrow> [] | Some x \<Rightarrow> [x]"
  obtain n k' where n: "\<And>h. ft_open c1 \<Longrightarrow> omap_inv (fileTransferContext_m h) \<Longrightarrow>
      map_of (fileTransferContext_m h) key = Some (c1, r) \<Longrightarrow> sess h r = s1 \<Longrightarrow>
      (worker_iteration clk key ^^ n) (Suc k, h) = (k', fold note_progress qs (put_transfer key r c' s' h))"
    using rest unfolding iterates_to_def by blast
  have op: "ft_open c1 = ft_open c" using TransferNextChunk_open [of "clk k" c s] t by simp
  have "(worker_iteration clk key ^^ Suc n) (k, h) = (k', fold note_progress (?p @ qs) (put_transfer key r c' s' h))"
    if h: "ft_open c" "omap_inv (fileTransferContext_m h)" "map_of (fileTransferContext_m h) key = Some (c, r)" "sess h r = s" for h
  proof -
    let ?h = "fold note_progress ?p (put_transfer key r c1 s1 h)"
    have "worker_iteration clk key (k, h) = (Suc k, ?h)"
      using worker_iteration_step [OF h(3,1) go] t h(4) by simp
    moreover have "omap_inv (fileTransferContext_m ?h)" "map_of (fileTransferContext_m ?h) key = Some (c1, r)" "sess ?h r = s1"
      using h(2) by (cases p; simp add: put_transfer_def set_sess_def)+
    ultimately show ?thesis
      using n [of ?h] h(1) op by (simp add: funpow_swap1 put_transfer_fold)
  qed
  then show ?thesis unfolding iterates_to_def by blast
qed

lemma transfer_loop_steps:
  assumes "transfer_loop clk k c s ps = Some (c', s', ps')"
  shows "\<exists>qs. iterates_to clk key r k c s qs c' s' \<and> ps' = ps @ qs"
proof -
  have "\<exists>qs. iterates_to clk key r k c s qs (fst res) (fst (snd res)) \<and> snd (snd res) = ps @ qs"
    if "transfer_loop clk k c s ps = Some res" for res
  proof (rule transfer_loop.raw_induct [where P = "\<lambda>clk k c s ps res. \<exists>qs. iterates_to clk key r k c s qs (fst res) (fst (snd res)) \<and>
      snd (snd res) = ps @ qs", OF _ that], goal_cases)
    case (1 f clk k c s ps res)
    note IH = 1(1) and eq = 1(2)
    consider (over) "\<not> ft_isRunning c" | (spin) "ft_isRunning c" "\<not> ft_good c" | (go) "ft_isRunning c" "ft_good c" by blast
    then show ?case
    proof cases
      case over
      then show ?thesis using eq iterates_to_refl by fastforce
    next
      case spin
      with IH [of clk "Suc k" c s ps res] eq iterates_to_spin [OF spin] show ?thesis by auto
    next
      case go
      obtain c1 s1 p where t: "TransferNextChunk (clk k) c s = (c1, s1, p)" by (cases "TransferNextChunk (clk k) c s")
      have "f clk (Suc k) c1 s1 (ps @ (case p of None \<Rightarrow> [] | Some x \<Rightarrow> [x])) = Some res" using eq go t by (cases p) simp_all
      from IH [OF this] iterates_to_go [of c clk k s c1 s1 p, OF go t] show ?thesis by (metis append.assoc)
    qed
  qed
  from this [OF assms] show ?thesis by simp
qed

section \<open>Frames that get between the chunks\<close>

lemma data_frame_rest: "set (drop 21 (data_frame now key n t xs)) \<subseteq> insert 0 (set xs)"
  by (auto simp: data_frame_def file_frame_layout zeros_def dest: in_set_takeD in_set_dropD)

lemma data_frames_elems:
  "f \<in> set (data_frames clk k key n xs) \<Longrightarrow> length f = n + 21 \<and> set (drop 21 f) \<subseteq> insert 0 (set xs)"
proof (induction clk k key n xs rule: data_frames.induct)
  case (1 clk k key n xs)
  then have ne: "n \<noteq> 0" "xs \<noteq> []" by (subst (asm) (2) data_frames.simps, auto split: if_splits)+
  then consider t where "f = data_frame (clk k) key n t xs" | "f \<in> set (data_frames clk (Suc k) key n (drop n xs))"
    using "1.prems" by (auto simp: data_frames_Cons)
  then show ?case
  proof cases
    case 1
    then show ?thesis using data_frame_rest data_frame_parts(1) by simp
  next
    case 2
    with "1.IH" ne show ?thesis using set_drop_subset [of n xs] by auto
  qed
qed

lemma data_frames_drop: "drop j (data_frames clk k key n xs) = data_frames clk (k + j) key n (drop (j * n) xs)"
proof (induction j arbitrary: k xs)
  case (Suc j)
  show ?case
  proof (cases "n = 0 \<or> xs = []")
    case True
    then show ?thesis by (auto simp: data_frames.simps [of clk _ key n])
  next
    case False
    then show ?thesis using Suc [of "Suc k" "drop n xs"] by (simp add: data_frames_Cons add.commute)
  qed
qed simp

lemma length_data_frames_pos: "j < length (data_frames clk k key n xs) \<Longrightarrow> 0 < n \<and> j * n < length xs"
  using data_frames_drop [of j clk k key n xs] data_frames.simps [of clk "k + j" key n "drop (j * n) xs"]
  by (auto split: if_splits simp: not_le)

lemma shifted_blocks_foreign:
  assumes f: "length f = 138" "f ! 12 \<notin> B" and n: "138 < n + 21" "126 \<le> n"
    and fs: "\<forall>x \<in> set fs. length x = n + 21 \<and> set (drop 21 x) \<subseteq> A" and A: "A \<inter> B = {}"
    and i: "Suc i * (n + 21) \<le> length (f @ concat fs)"
  shows "(f @ concat fs) ! (i * (n + 21) + 12) \<notin> B"
proof (cases i)
  case 0
  then show ?thesis using f by (simp add: nth_append)
next
  case (Suc j)
  have len: "length (concat fs) = length fs * (n + 21)" by (rule length_concat_uniform) (use fs in blast)
  have "Suc (Suc j) * (n + 21) \<le> 138 + length fs * (n + 21)" using i len f(1) Suc by (simp only: length_append)
  then have "Suc (Suc j) * (n + 21) < Suc (length fs) * (n + 21)"
    using n(1) unfolding mult_Suc [of "length fs"] by linarith
  then have j: "j < length fs" by (simp only: mult_less_cancel2) simp
  have pos: "i * (n + 21) + 12 = 138 + (j * (n + 21) + (n - 105))" using Suc n by simp
  have "(f @ concat fs) ! (i * (n + 21) + 12) = concat fs ! (j * (n + 21) + (n - 105))"
    unfolding pos nth_append by (simp add: f(1))
  also have "\<dots> = fs ! j ! (n - 105)"
    by (rule nth_concat_uniform) (use fs j in auto)
  also have "\<dots> = drop 21 (fs ! j) ! (n - 126)"
    using fs j n(2) by simp
  also have "\<dots> \<in> set (drop 21 (fs ! j))" by (rule nth_mem) (use fs j n(2) in simp)
  finally show ?thesis using fs j A by (meson disjoint_iff nth_mem subsetD)
qed

text \<open>The receiver's side of the chunks that come before the foreign frame.\<close>

lemma receive_some_chunks:
  assumes "chunk_stream (unat cs + 21) (concat (take j (data_frames clk k key (unat cs) xs)) @ rest) (sess h r)"
    and "s_csize (sess h r) = cs" "unat cs + 21 < 2 ^ 32" "j < length (data_frames clk k key (unat cs) xs)"
  shows "\<exists>h'. io_reads j env r h = Inr h' \<and> appMail h' = appMail h @ take j (chunk_mails key cs (s_fsize (sess h r)) xs) \<and>
    chunk_stream (unat cs + 21) rest (sess h' r) \<and> same_peer (sess h r) (sess h' r)"
  using assms
proof (induction j arbitrary: h k xs)
  case 0
  then show ?case by (auto simp: same_peer_def)
next
  case (Suc j)
  let ?n = "unat cs" and ?t = "data_frames clk (Suc k) key (unat cs) (drop (unat cs) xs)"
  have n: "0 < ?n" "\<not> length xs \<le> ?n" using length_data_frames_pos [OF Suc.prems(4)] by auto
  note long = long_data [OF n]
  have "chunk_stream (?n + 21) (data_frame (clk k) key ?n REG_FILE_TRANSFER_CHUNK_SENT xs @ concat (take j ?t) @ rest) (sess h r)"
    using Suc.prems(1) long(1) by simp
  then obtain h1 where h1: "io_read_step env r h = Inr h1" "chunk_stream (?n + 21) (concat (take j ?t) @ rest) (sess h1 r)"
      "same_peer (sess h r) (sess h1 r)"
      "appMail h1 = appMail h @ [file_mail BVEVENTTYPE_APP_FILE_TRANSFER_CHUNK_SENT key cs (s_fsize (sess h r))
        (take ?n xs @ zeros (?n - length xs))]"
    by (rule chunk_received [OF _ Suc.prems(2,3)])
  have "\<exists>h'. io_reads j env r h1 = Inr h' \<and> appMail h' = appMail h1 @ take j (chunk_mails key cs (s_fsize (sess h1 r)) (drop ?n xs)) \<and>
      chunk_stream (?n + 21) rest (sess h' r) \<and> same_peer (sess h1 r) (sess h' r)"
    by (rule Suc.IH) (use Suc.prems(2-4) long(1) h1(2,3) in \<open>simp_all add: same_peer_def\<close>)
  with h1 long Suc.prems(2) show ?case by (auto simp: same_peer_def)
qed

text \<open>A block that is read as a chunk but has another type is dropped.\<close>

lemma foreign_block_step:
  assumes st: "chunk_stream (unat cs + 21) (f @ rest) (sess h r)" and f: "length f = unat cs + 21"
    and cs: "s_csize (sess h r) = cs" "unat cs + 21 < 2 ^ 32"
    and t: "f ! 12 \<noteq> REG_FILE_TRANSFER_CHUNK_SENT" "f ! 12 \<noteq> REG_FILE_TRANSFER_END"
  shows "\<exists>s'. io_read_step env r h = Inr (set_sess r s' h) \<and> chunk_stream (unat cs + 21) rest s' \<and> same_peer (sess h r) s'"
proof -
  obtain header where hd: "GetFileHeader (Some f) = Inr header" "fh_msgType header = f ! 12"
    using f by (simp add: GetFileHeader_def FILE_HEADER_SIZE_BYTES_def)
  have "fh_msgType header \<noteq> REG_FILE_TRANSFER_CHUNK_SENT" "fh_msgType header \<noteq> REG_FILE_TRANSFER_END"
    using t unfolding hd(2) by blast+
  then show ?thesis by (intro next_chunk [OF st f cs hd(1)]) simp_all
qed

lemma chunk_stream_waits:
  assumes "chunk_stream n strm (sess h r)" "length strm < n"
  shows "io_read_step env r h = Inr h"
  using assms by (auto simp: chunk_stream_def io_read_step_def fill_read_def chunk_req_def)

lemma foreign_blocks:
  assumes "chunk_stream n strm (sess h r)" "s_csize (sess h r) = cs" "n = unat cs + 21" "n < 2 ^ 32"
    and "\<And>i. Suc i * n \<le> length strm \<Longrightarrow> strm ! (i * n + 12) \<notin> {REG_FILE_TRANSFER_CHUNK_SENT, REG_FILE_TRANSFER_END}"
  shows "\<exists>h' j. io_reads N env r h = Inr h' \<and> appMail h' = appMail h \<and> chunk_stream n (drop (j * n) strm) (sess h' r)"
  using assms
proof (induction N arbitrary: h strm)
  case 0
  then show ?case by (auto intro!: exI [of _ 0])
next
  case (Suc N)
  note prems = Suc.prems
  show ?case
  proof (cases "length strm < n")
    case True
    with Suc.IH [OF prems] chunk_stream_waits [OF prems(1)] show ?thesis by simp
  next
    case False
    define f where "f = take n strm"
    have f: "length f = unat cs + 21" "chunk_stream (unat cs + 21) (f @ drop n strm) (sess h r)"
      using False prems(1,3) by (simp_all add: f_def)
    have "f ! 12 \<notin> {REG_FILE_TRANSFER_CHUNK_SENT, REG_FILE_TRANSFER_END}"
      using prems(3) prems(5) [of 0] False by (simp add: f_def)
    then obtain s' where s': "io_read_step env r h = Inr (set_sess r s' h)" "chunk_stream n (drop n strm) s'" "same_peer (sess h r) s'"
      using foreign_block_step [OF f(2,1) prems(2)] prems(3,4) by auto
    have "\<exists>h' j. io_reads N env r (set_sess r s' h) = Inr h' \<and> appMail h' = appMail (set_sess r s' h) \<and>
        chunk_stream n (drop (j * n) (drop n strm)) (sess h' r)"
    proof (rule Suc.IH)
      fix i assume i: "Suc i * n \<le> length (drop n strm)"
      then have "Suc (Suc i) * n \<le> length strm" using False by simp
      from prems(5) [OF this] show "drop n strm ! (i * n + 12) \<notin> {REG_FILE_TRANSFER_CHUNK_SENT, REG_FILE_TRANSFER_END}"
        using False by (simp add: add.assoc)
    qed (use s' prems in \<open>simp_all add: same_peer_def\<close>)
    then obtain h' j where "io_reads N env r (set_sess r s' h) = Inr h'" "appMail h' = appMail h"
        "chunk_stream n (drop (Suc j * n) strm) (sess h' r)"
      by (auto simp: add.commute)
    with s'(1) show ?thesis by (intro exI [of _ h'] exI [of _ "Suc j"]) simp
  qed
qed

section \<open>A frame in the middle of a transfer\<close>

text \<open>Operations that write a frame whose byte 12 is not the type of a chunk.\<close>

fun intrudes :: "sender_op \<Rightarrow> bool" where
  "intrudes (Send_Chat m) \<longleftrightarrow>
     length (m_payload m) = 128 \<and> m_payload m ! 2 \<notin> {REG_FILE_TRANSFER_CHUNK_SENT, REG_FILE_TRANSFER_END}"
| "intrudes (Offer_File now p) \<longleftrightarrow> True"
| "intrudes (Answer_Offer now key a) \<longleftrightarrow> True"
| "intrudes _ \<longleftrightarrow> False"

lemma intruding_frame:
  assumes "intrudes x"
  shows "\<exists>f. other_frames fs service n [x] = [f] \<and>
    length f = 138 \<and> f ! 12 \<notin> {REG_FILE_TRANSFER_CHUNK_SENT, REG_FILE_TRANSFER_END}"
proof (cases x)
  case (Send_Chat m)
  then show ?thesis using assms msg_bytes_12 [OF refl, of m] by simp
qed (use assms in \<open>auto simp: offer_frame_def control_frame_def file_frame_bytes ConstructFileHeader_def msgtype_defs\<close>)

lemma worker_frames_only:
  "other_frames fs service n (replicate j Run_Worker @ xs) = other_frames fs service n xs"
  "wire_frames (replicate j Run_Worker @ xs) ws os = take j ws @ wire_frames xs (drop j ws) os"
proof -
  show "other_frames fs service n (replicate j Run_Worker @ xs) = other_frames fs service n xs"
    by (induction j) simp_all
  show "wire_frames (replicate j Run_Worker @ xs) ws os = take j ws @ wire_frames xs (drop j ws) os"
    by (induction j arbitrary: ws) (simp_all split: list.split)
qed

lemma wire_frames_intruded:
  assumes "intrudes x" "other_frames fs service n [x] = [f]"
  shows "wire_frames (replicate j Run_Worker @ x # replicate i Run_Worker) ws
      (other_frames fs service n (replicate j Run_Worker @ x # replicate i Run_Worker)) =
    take j ws @ f # take i (drop j ws)"
proof -
  have "other_frames fs service n (x # replicate i Run_Worker) = [f]"
    using assms worker_frames_only(1) [of fs service _ i "[]"] by (cases x) simp_all
  moreover have "wire_frames (replicate i Run_Worker) ws' os = take i ws'" for ws' os
    using worker_frames_only(2) [of i "[]" ws' os] by simp
  ultimately show ?thesis
    using assms(1) by (cases x) (simp_all add: worker_frames_only)
qed

lemma transfer_frames_bytes: "concat (transfer_frames clk key service fname content) = transfer_bytes clk key service fname content"
  by (simp add: transfer_frames_def transfer_bytes_def Let_def)

text \<open>A host with a transfer that is about to start.\<close>

definition about_to_send :: "host \<Rightarrow> u32 \<Rightarrow> u16 \<Rightarrow> bytes \<Rightarrow> nat \<Rightarrow> bytes \<Rightarrow> bytes \<Rightarrow> bool" where
  "about_to_send h key sid peer r fname content \<longleftrightarrow>
     map_of (sessions_m h) sid = Some r \<and> GetSessionIDFromServiceName peer h = Some sid \<and> writing_frames (sess h r) \<and>
     map_of (fileTransferContext_m h) key = Some (BVFileTransferContext_ctor True content fname key, r) \<and>
     content \<noteq> [] \<and> length content + unat (DetermineChunkSize (word_of_nat (length content))) < 2 ^ 32"

lemma about_to_send_ready:
  assumes "about_to_send h key sid peer r fname content"
  shows "sender_ready clk (thisMachineServiceName (sess h r)) key sid peer r (ftcid h)
    (transfer_frames clk key (thisMachineServiceName (sess h r)) fname content) (0, h)"
  using assms to_send.first [of content clk _ fname key] by (auto simp: about_to_send_def sender_ready_def)

lemma sender_ready_done:
  assumes "sender_ready clk service key sid peer r n [] (k, h)"
  shows "\<exists>c. map_of (fileTransferContext_m h) key = Some (c, r) \<and> \<not> ft_isRunning c"
  using assms to_send_Nil by (auto simp: sender_ready_def)

lemma large_file_chunks: "256 \<le> length content \<Longrightarrow> length content < 2 ^ 32 \<Longrightarrow> 256 \<le> unat (DetermineChunkSize (word_of_nat (length content)))"
proof -
  assume "256 \<le> length content" "length content < 2 ^ 32"
  then have "\<not> (word_of_nat (length content) :: u32) < 256"
    by (simp add: word_less_nat_alt unat_word_of_nat32)
  then show ?thesis by (simp add: DetermineChunkSize_def)
qed

text \<open>What the receiver makes of a transfer that another frame gets into after \<open>j\<close> chunks.\<close>

lemma receive_intruded:
  assumes eqs: "fs = word_of_nat (length content)" "cs = DetermineChunkSize fs" "D = data_frames clk 1 key (unat cs) content"
    and st: "frame_stream (begin_frame (clk 0) key cs fs service fname @ concat (take j D) @ f @ concat (drop j D)) (sess h r)"
    and est: "sstate (sess h r) = BVSESSIONSTATE_ESTABLISHED"
    and ok: "name_fits service fname" "not_chat_time (clk 0)" and j: "j < length D"
    and f: "length f = 138" "f ! 12 \<notin> {REG_FILE_TRANSFER_CHUNK_SENT, REG_FILE_TRANSFER_END}"
    and pl: "256 \<le> unat cs" "set content \<inter> {REG_FILE_TRANSFER_CHUNK_SENT, REG_FILE_TRANSFER_END} = {}"
  shows "\<exists>h'. io_reads (Suc j + N) env r h = Inr h' \<and> appMail h' = appMail h @
    file_mail BVEVENTTYPE_APP_FILE_TRANSFER_BEGIN key cs fs (service @ str ''|'' @ fname) # take j (chunk_mails key cs fs content) \<and>
    fileReadBuf (sess h' r) \<noteq> None"
proof -
  have cs: "unat cs + 21 < 2 ^ 32" using DetermineChunkSize_bounds(2) [of fs] by (simp add: eqs(2))
  let ?mail = "file_mail BVEVENTTYPE_APP_FILE_TRANSFER_BEGIN key cs fs (service @ str ''|'' @ fname)"
  from begin_step [OF st est ok cs, of env] obtain s1 where s1: "io_read_step env r h = Inr (PutMessageIntoAppMailbox ?mail (set_sess r s1 h))"
      "chunk_stream (unat cs + 21) (concat (take j D) @ f @ concat (drop j D)) s1" "s_csize s1 = cs" "s_fsize s1 = fs"
    by blast
  define h1 where "h1 = PutMessageIntoAppMailbox ?mail (set_sess r s1 h)"
  have h1: "sess h1 r = s1" "appMail h1 = appMail h @ [?mail]" by (simp_all add: h1_def PutMessageIntoAppMailbox_def)
  have "chunk_stream (unat cs + 21) (concat (take j D) @ f @ concat (drop j D)) (sess h1 r)" "s_csize (sess h1 r) = cs"
    using s1 h1 by simp_all
  from receive_some_chunks [OF this [unfolded eqs(3)] cs j [unfolded eqs(3)], of env, folded eqs(3)] obtain h2 where h2:
      "io_reads j env r h1 = Inr h2" "appMail h2 = appMail h1 @ take j (chunk_mails key cs fs content)"
      "chunk_stream (unat cs + 21) (f @ concat (drop j D)) (sess h2 r)" "same_peer (sess h1 r) (sess h2 r)"
    using h1(1) s1(4) by auto
  have sz: "s_csize (sess h2 r) = cs" using h2(4) h1(1) s1(3) by (simp add: same_peer_def)
  have "\<exists>h' i. io_reads N env r h2 = Inr h' \<and> appMail h' = appMail h2 \<and>
      chunk_stream (unat cs + 21) (drop (i * (unat cs + 21)) (f @ concat (drop j D))) (sess h' r)"
  proof (rule foreign_blocks [OF h2(3) sz refl cs])
    fix i assume "Suc i * (unat cs + 21) \<le> length (f @ concat (drop j D))"
    then show "(f @ concat (drop j D)) ! (i * (unat cs + 21) + 12) \<notin> {REG_FILE_TRANSFER_CHUNK_SENT, REG_FILE_TRANSFER_END}"
      by (intro shifted_blocks_foreign [OF f, where A = "insert 0 (set content)"])
        (use pl in \<open>auto simp: eqs(3) msgtype_defs dest!: in_set_dropD data_frames_elems\<close>)
  qed
  then obtain h' where "io_reads N env r h2 = Inr h'" "appMail h' = appMail h2" "fileReadBuf (sess h' r) \<noteq> None"
    by (auto simp: chunk_stream_def)
  then show ?thesis
    using s1(1) h2(1,2) h1(2) by (intro exI [of _ h']) (simp add: h1_def io_reads_add)
qed

section \<open>Properties\<close>





section \<open>Witnesses\<close>

definition example_letter :: bytes where
  "example_letter = replicate 300 65"

definition example_sending :: host where
  "example_sending = example_host\<lparr>fileTransferContext_m := [(7, (BVFileTransferContext_ctor True example_letter (str ''a.txt'') 7, 0))]\<rparr>"

lemma example_about_to_send: "about_to_send example_sending 7 0 (str ''bob'') 0 (str ''a.txt'') example_letter"
  by (simp add: about_to_send_def example_sending_def example_host_def GetSessionIDFromServiceName_def writing_frames_def
      can_write_def example_session_def example_sock_def example_letter_def DetermineChunkSize_def)

lemma example_sending_name: "str ''alice'' = thisMachineServiceName (sess example_sending 0)"
  by (simp add: example_sending_def example_host_def example_session_def)

lemma example_names_fit: "name_fits (str ''alice'') (str ''a.txt'')" "not_chat_time 5"
  by (simp_all add: name_fits_def not_chat_time_def str_def msgtype_defs)

lemma example_chunks: "DetermineChunkSize (word_of_nat (length example_letter)) = 256" "length (data_frames clk k key 256 example_letter) = 2"
  by (simp_all add: example_letter_def DetermineChunkSize_def data_frames_Cons)





end
