(* ===== verification/Partial_Transfers.thy ===== *)
theory Partial_Transfers
  imports Tcp_Session
begin

text \<open>
  The operations of a session that read and write what the socket takes at a time (\<open>WriteSome\<close>, \<open>ReadSomeCallback\<close> and
  their callbacks in \<open>include/BVTCPSession.hpp\<close> and \<open>src/BVTCPSession.cpp\<close>). How many bytes a call transfers is an argument.
\<close>

section \<open>Writing\<close>

text \<open>\<open>async_write_some\<close> of the whole buffer: the connection takes at most \<open>k\<close> bytes from its start.\<close>

definition async_write_some :: "nat \<Rightarrow> session \<Rightarrow> session" where
  "async_write_some k s =
     (if broken (sk s) then s\<lparr>sk := (sk s)\<lparr>writes := writes (sk s) @ [(True, 0)]\<rparr>\<rparr>
      else s\<lparr>sk := (sk s)\<lparr>tx := tx (sk s) @ take k (writeBuf s), writes := writes (sk s) @ [(False, min k (length (writeBuf s)))]\<rparr>\<rparr>)"

definition WriteSome :: "nat \<Rightarrow> session \<Rightarrow> session" where
  "WriteSome k s = async_write_some k s"

definition RequestSomeWrite :: "bytes \<Rightarrow> nat \<Rightarrow> session \<Rightarrow> session" where
  "RequestSomeWrite d k s = WriteSome k (s\<lparr>writeBuf := d\<rparr>)"

definition WriteSomeCallback :: "nat \<Rightarrow> bool \<Rightarrow> nat \<Rightarrow> session \<Rightarrow> session" where
  "WriteSomeCallback k ec bytes_transferred s =
     (if ec then s
      else
        (let s = s\<lparr>totalBytesWritten := totalBytesWritten s + bytes_transferred\<rparr> in
         if totalBytesWritten s = length (writeBuf s) then ClearWriteBuffer s else async_write_some k s))"

text \<open>The oldest write completes and its callback runs; \<open>k\<close>: what a write that the callback starts transfers.\<close>

definition some_written :: "nat \<Rightarrow> session \<Rightarrow> session" where
  "some_written k s =
     (case writes (sk s) of
        [] \<Rightarrow> s
      | (ec, n) # ws \<Rightarrow> WriteSomeCallback k ec n (s\<lparr>sk := (sk s)\<lparr>writes := ws\<rparr>\<rparr>))"

section \<open>Reading\<close>

definition ReadSomeCallback :: "bool \<Rightarrow> nat \<Rightarrow> session \<Rightarrow> session result" where
  "ReadSomeCallback ec bytes_transferred s =
     (if ec then Inr s
      else
        (let s = s\<lparr>totalBytesRead := totalBytesRead s + bytes_transferred\<rparr> in
         if totalBytesRead s = MAX_MESSAGE_SIZE_BYTES then ClearReadBuffer s
         else
           (case readBuf s of
              None \<Rightarrow> Inl Null_Deref
            | Some b \<Rightarrow>
                (if totalBytesRead s > length b then Inl Out_Of_Bounds
                 else Inr (s\<lparr>sk := (sk s)\<lparr>reads := reads (sk s) @
                     [\<lparr>rr_target = To_readBuf, rr_off = totalBytesRead s, rr_len = MAX_MESSAGE_SIZE_BYTES - totalBytesRead s, rr_filled = False\<rparr>]\<rparr>\<rparr>)))))"

text \<open>\<open>async_read_some\<close> completes with the \<open>k\<close> bytes that are there, into the place it was given.\<close>

definition some_arrived :: "nat \<Rightarrow> session \<Rightarrow> session result" where
  "some_arrived k s =
     (case reads (sk s) of
        [] \<Rightarrow> Inr s
      | r # rs \<Rightarrow>
          (let n = min k (min (rr_len r) (length (rx (sk s)))) in
           if n = 0 then Inr s
           else
             (case readBuf s of
                None \<Rightarrow> Inl Null_Deref
              | Some b \<Rightarrow>
                  (if length b < rr_off r + n then Inl Out_Of_Bounds
                   else ReadSomeCallback False n
                     (s\<lparr>readBuf := Some (memcpy_at b (rr_off r) (take n (rx (sk s)))),
                        sk := (sk s)\<lparr>rx := drop n (rx (sk s)), reads := rs\<rparr>\<rparr>)))))"

section \<open>Properties\<close>

text \<open>Data the connection takes at once reaches it whole and the write buffer is cleared; when it is taken in two parts, the second part is taken from the start of the data again, so that the peer gets the first bytes twice and the last ones never.\<close>

theorem some_write_repeats:
  assumes "writes (sk s) = []" "\<not> broken (sk s)" "totalBytesWritten s = 0" "0 < k" "k < length d"
  shows "tx (sk (some_written j (RequestSomeWrite d (length d) s))) = tx (sk s) @ d"
    "writeBuf (some_written j (RequestSomeWrite d (length d) s)) = zeros 138"
    "tx (sk (some_written (length d - k) (RequestSomeWrite d k s))) = tx (sk s) @ take k d @ take (length d - k) d"
    "writes (sk (some_written j (some_written (length d - k) (RequestSomeWrite d k s)))) = []"
  using assms
  by (simp_all add: some_written_def RequestSomeWrite_def WriteSome_def async_write_some_def WriteSomeCallback_def ClearWriteBuffer_def
      MESSAGE_FRAME_SIZE_BYTES_def)

text \<open>A read of this kind is given more room than the buffer has: once a peer has sent more than 138 bytes in one go, they are stored past its end.\<close>

theorem some_read_overflows:
  assumes "readBuf s = Some b" "length b = 138" "totalBytesRead s = 0" "reads (sk s) = []" "138 < length (rx (sk s))" "138 < k"
  shows "\<exists>s'. ReadSomeCallback False 0 s = Inr s' \<and> some_arrived k s' = Inl Out_Of_Bounds"
  using assms by (cases "rx (sk s)") (simp_all add: ReadSomeCallback_def some_arrived_def MAX_MESSAGE_SIZE_BYTES_def Let_def)

end
