(* ===== verification/Spec2Isabelle.thy ===== *)
theory Spec2Isabelle
  imports Program_Run Program_Avahi Handshake Terminal Transfer_Interleaving Partial_Transfers
begin

text \<open>
  A verification development of LocalChat, a chat and file transfer program for the local network
  (C++ under src/include, src/src and src/mac-gui). A host announces itself by DNS service discovery, opens one
  TCP session to every other host it finds, and exchanges chat messages and files over it.

  \<^bold>\<open>The parts and how they interact.\<close> Discovery and the application are components that talk through
  a broker: a component owns a mailbox (a thread-safe queue), a thread that runs its handlers, and
  the broker's queue into which it sends. Discovery publishes lists of services; the application
  asks for their resolution, resolves the host and tells the connection manager to dial. The
  connection manager keeps the table of sessions and the pending and running file transfers; a
  session reads and writes frames of 138 bytes, or file frames of a negotiated size, on its
  socket. What a session receives for the user goes through the manager into the mailbox of the
  application, which logs, stores and shows it.

  \<^bold>\<open>The theories.\<close>

  \<^item> \<open>LC_Prelude\<close>: results (\<open>error + 'a\<close>), bytes and C strings, \<open>std::map\<close> as a sorted association list
    (the locale \<open>std_map\<close>, interpreted on it), lemma collections.
  \<^item> \<open>Threadsafe_Queue\<close> (include/threadsafequeue.hpp): the nodes and the dummy tail, \<open>push\<close>, \<open>try_pop\<close>,
    \<open>wait_and_pop\<close>; the locale \<open>fifo\<close>, interpreted on them; the step relation \<open>tsq_step\<close> of producers and
    consumers that hold the tail and the head mutex, and its invariant.
  \<^item> \<open>Linked_List\<close> (src/linked_list.c): the C list over an explicit store; its loops are partial functions,
    where \<open>None\<close> is a loop that does not end; refinement of lists of addresses.
  \<^item> \<open>Common_Types\<close> (include/BVTCPCommon.hpp, BV.hpp, BVEvent.hpp, const.h, api_common.h): codes, headers, nodes,
    session data, the chat log.
  \<^item> \<open>Wire_Format\<close>: the byte layout of message and file frames and its inverse.
  \<^item> \<open>Tcp_Session\<close> (include/BVTCPSession.hpp): the buffers of a session and its socket: bytes received and not
    read, bytes sent, reads started and not completed. \<open>speculative\<close> says that a read whose bytes are there
    is performed inside the call that starts it, which asio may do.
  \<^item> \<open>File_Transfer\<close> (include/BVFileTransferContext.hpp): the outgoing transfer. The worker loop is a partial
    function over 32-bit counters; that it ends is proved for files where the counters do not wrap.
  \<^item> \<open>Received_File\<close> (include/BVReceivedFile.hpp): the incoming file over a file system whose operations can
    fail; the locale \<open>file_sink\<close>, interpreted on \<open>Begin\<close>, \<open>AppendChunk\<close> and \<open>Finish\<close>.
  \<^item> \<open>Message_Broker\<close> (src/BVBroker.cpp, include/BVComponent.hpp): subscriber ids, subscriptions, routing, the
    broker's and the components' threads over shared message objects; the locale \<open>handler_simulation\<close>, interpreted
    on the macOS and the console client.
  \<^item> \<open>Connection_Manager\<close> (include/BVTCPConnectionManager.hpp and .cpp): the record \<open>host\<close> and every operation
    on it; sessions are references into a store, since tables, handlers and transfers share them.
  \<^item> \<open>Session_Table\<close>: the manager as a state machine (\<open>host_step\<close>, \<open>host_reach\<close>) and the invariant of its tables.
  \<^item> \<open>Session_Handlers\<close> (src/BVTCPSession.cpp): the receive handlers and read callbacks, one read completion
    as \<open>io_read_step\<close>; what each kind of frame does to a session that waits for it.
  \<^item> \<open>Session_Safety\<close>: which bytes from a peer an established session survives, as progress and preservation of the
    well-formedness of its buffers (\<open>session_wf\<close>, \<open>session_run\<close>).
  \<^item> \<open>Transfer_Interleaving\<close>: the worker of an outgoing transfer, one turn at a time (\<open>worker_iteration\<close>), among the
    other operations that write to its session, and what the receiver makes of the frames.
  \<^item> \<open>Partial_Transfers\<close>: the reads and writes of what the socket takes at a time, which nothing calls.
  \<^item> \<open>Handshake\<close>: the handlers of the handshake put together over two hosts.
  \<^item> \<open>Console_App\<close> (src/BVApp_ConsoleClient.cpp): screens, keys, the handlers of the events, posted work;
    \<open>Console_Properties\<close> has what holds of them over all runs of \<open>app_step\<close>.
  \<^item> \<open>Terminal\<close> (class \<open>BVTerminal\<close> of include/BVApp_ConsoleClient.hpp): the attributes of the terminal device.
  \<^item> \<open>Discovery\<close> (src/bonjour_api.c, include/BVDiscovery.hpp, src/BVDiscovery_Bonjour.cpp, include/BVService.hpp,
    src/BVService_Bonjour.cpp): browsing and resolving with Bonjour over the C list of \<open>Linked_List\<close>, as a state machine
    (\<open>disc_step\<close>, \<open>disc_reach\<close>), and the registration of the service; the locale \<open>result_list\<close>, interpreted on the C
    list, is what both discovery components rely on.
  \<^item> \<open>Avahi_Discovery\<close> and \<open>Avahi_Registration\<close> (src/avahi_api.c, src/BVDiscovery_Avahi.cpp, src/BVService_Avahi.cpp): the same
    with Avahi; the worker thread as steps, with the race of its wait, the uncleared memory of results and the life time of strings as arguments.
  \<^item> \<open>Startup\<close> (src/main.cpp): attaching, subscribing and detaching the components.
  \<^item> \<open>Gui_Client\<close> (mac-gui/BVApp_GuiClient.hpp): the macOS client over the console client it inherits from.
  \<^item> \<open>Chat_Core\<close> (mac-gui/BVChatCore.hpp): starting and stopping the parts of the macOS client.
  \<^item> \<open>Typed_Mail\<close>: the payload type of every event (\<open>typed\<close>); sessions, the application and discovery send typed messages only,
    and what their handlers do with them.
  \<^item> \<open>Process\<close> (src/main.cpp): the running program for any discovery component (\<open>assemble\<close>, \<open>proc_step\<close>): the threads of the
    broker, of both mailboxes and of discovery, and the event loop, in any order over the queues of the broker. The locale
    \<open>discovery_part\<close> says what the program needs of its discovery component and has the invariant of the program
    (\<open>prog_inv\<close>); \<open>one_shot_worker\<close> extends it. \<open>quit_bound\<close> bounds the steps left after quitting by the messages in front of
    the termination message: a round of the broker puts a message into at most two mailboxes, so it weighs three.
  \<^item> \<open>Program_Run\<close>: the program on macOS (\<open>main_start\<close>, \<open>proc_reach\<close>); interprets \<open>one_shot_worker\<close> on the Bonjour component.
  \<^item> \<open>Program_Avahi\<close>: the program on Linux (\<open>linux_start\<close>, \<open>linux_reach\<close>); interprets \<open>discovery_part\<close> on the Avahi component,
    whose worker thread runs until it is told to stop.
  \<^item> this theory: what holds between two hosts, from one application to the other.

  \<^bold>\<open>What is shown.\<close> A file accepted by its receiver is stored there with the sender's content; a typed line
  is logged on the other side; a service the daemon reports is dialed; of two hosts one dials; the handshake establishes and files both sessions; the session table
  has one session per peer in every reachable state; the broker delivers exactly what was
  subscribed, in order; the queue is linearizable; frames are read back as they were written; the
  worker loop ends; discovery never faults and reports what the daemon reported; start-up connects each
  component to its events; over every run of the program, in any order of its threads, no handler is given
  a message of the wrong type and quitting ends every thread, on Linux provided that browsing is not paused; what a
  transfer and the other senders write to a session is an interleaving of whole frames; an established session survives every harmless frame; the macOS client does to the state it inherits what the console
  client does. Beside these stand the theorems about what the code does where it goes wrong:
  lost and misread frames, transfers destroyed by a frame sent meanwhile, frames that make it read outside its buffers, shared payloads, empty files, full disks, ids that wrap around, offers
  that wedge the screen, services that get lost or
  misnamed in discovery, threads that cannot be stopped, a program that hangs when it is quit while paused, a client that is deaf after a restart.

  \<^bold>\<open>Conventions.\<close> Machine integers are words of their width. What the program reads from outside is an
  argument: the clock, the file system's answers, resolved endpoints, error codes of completions and
  the uninitialised bytes of a stack buffer (\<open>e_garbage\<close>). Exceptions and undefined behaviour are the \<open>error\<close>
  values of results. \<open>io_reads n\<close> runs at most n read completions and stops when none is due.

  \<^bold>\<open>Not modelled.\<close> The client libraries of the DNS-SD and Avahi daemons and boost are outside: what they return is
  an argument. Logging and the daemon's version query are output only;
  the Objective-C bridge and the SwiftUI views of the macOS client are in other languages. Thread objects have no state
  beyond running and ended; the worker threads of file transfers touch sessions only: they are interleaved with the other
  writes in \<open>Transfer_Interleaving\<close> and are not threads of \<open>proc_step\<close>. A write puts a whole frame on the connection at once.
  A fault of a handler, of a worker thread or of the event loop ends the process, as a step of its own. Accessors, functions with empty bodies
  and headers with declarations only have no counterpart.
\<close>

section \<open>Concrete hosts\<close>

text \<open>Bob's side of the session.\<close>

definition example_bob :: host where
  "example_bob = example_host\<lparr>sess := (\<lambda>_. example_session (str ''bob'') (str ''alice''))\<rparr>"

lemma example_bob_session [simp]: "sess example_bob q = example_session (str ''bob'') (str ''alice'')"
    "serviceName_of example_bob q = str ''alice''"
  by (simp_all add: example_bob_def serviceName_of_def example_session_def)

text \<open>Alice has offered her notes to Bob.\<close>

definition example_offering :: host where
  "example_offering = example_host\<lparr>pendingOutgoing_m := [(7, 0, str ''/w/notes.txt'')]\<rparr>"

section \<open>From one application to the other\<close>

lemma chat_line_sent:
  assumes line: "\<forall>c \<in> set line. isprint c" "take 3 line \<noteq> str ''|f ''"
    and sid: "GetSessionIDFromServiceName peer (mgr a) = Some sid" "map_of (sessions_m (mgr a)) sid = Some r"
    and up: "can_write (sess (mgr a) r)" and m: "m = ConstructChatMessageFromInput (ae_now aenv) line"
  shows "\<exists>a'. SendChatLine aenv peer line a = Inr a' \<and> tx (sk (sess (mgr a') r)) = tx (sk (sess (mgr a) r)) @ msg_bytes m \<and>
    log_of peer a' = log_of peer a @
      [\<lparr>cm_textData = line, cm_sender = sd_hostname (thisMachineServiceData a), cm_timestamp = ae_now aenv\<rparr>]"
proof -
  have plain: "plain_chat m" unfolding m by (rule console_chat_plain [OF line(1)])
  define s where "s = (sess (mgr a) r)\<lparr>totalBytesWritten := 0, writeBuf := msg_bytes m,
      sk := (sk (sess (mgr a) r))\<lparr>tx := tx (sk (sess (mgr a) r)) @ msg_bytes m, writes := writes (sk (sess (mgr a) r)) @ [(False, 138)]\<rparr>\<rparr>"
  have "WriteMessageFrame m (sess (mgr a) r) = Inr s"
    unfolding s_def by (rule WriteMessageFrame_tx) (use up plain in \<open>simp_all add: can_write_def plain_chat_def\<close>)
  then have send: "SendDataToNode m sid (mgr a) = Inr (BVSTATUS_OK, set_sess r s (mgr a))"
    using sid(2) by (simp add: SendDataToNode_def with_sess_def)
  define a' where "a' = log_message peer \<lparr>cm_textData = line, cm_sender = sd_hostname (thisMachineServiceData a),
      cm_timestamp = mh_timestamp (m_header m)\<rparr> (a\<lparr>mgr := set_sess r s (mgr a)\<rparr>)"
  have ts: "mh_timestamp (m_header m) = ae_now aenv" by (simp add: m ConstructChatMessageFromInput_def Let_def)
  have "SendChatLine aenv peer line a = Inr a'"
    using sid(1) line(2) send by (simp add: SendChatLine_def Let_def m [symmetric] a'_def)
  moreover have "mgr a' = set_sess r s (mgr a)" by (simp add: a'_def log_message_def split: option.splits)
  moreover have "log_of peer a' = log_of peer a @
      [\<lparr>cm_textData = line, cm_sender = sd_hostname (thisMachineServiceData a), cm_timestamp = ae_now aenv\<rparr>]"
    by (simp add: a'_def log_of_log_message ts)
  ultimately show ?thesis by (simp add: s_def)
qed

lemma chat_frame_logged:
  assumes line: "\<forall>c \<in> set line. isprint c" and m: "m = ConstructChatMessageFromInput now line"
    and l: "listening (sess hb q)" "sstate (sess hb q) = BVSESSIONSTATE_ESTABLISHED" "rx (sk (sess hb q)) = []"
  shows "\<exists>hb' mails b'. io_read_step env q (arrive (msg_bytes m) q hb) = Inr hb' \<and> appMail hb' = appMail hb @ mails \<and>
    listening (sess hb' q) \<and> run_mail (console_handlers benv) mails b = Inr b' \<and>
    log_of (serviceName_of hb q) b' = log_of (serviceName_of hb q) b @
      [\<lparr>cm_textData = take 128 line, cm_sender = serviceName_of hb q, cm_timestamp = now\<rparr>] \<and>
    posted b' = posted b @ [Post_Message (serviceName_of hb q) (take 128 line)]"
proof -
  let ?h = "arrive (msg_bytes m) q hb" and ?peer = "serviceName_of hb q"
  define hb' where "hb' = PutMessageIntoAppMailbox (chat_mail ?peer m)
      (set_sess q ((sess ?h q)\<lparr>readBuf := Some (zeros 138), sk := (sk (sess ?h q))\<lparr>rx := []\<rparr>\<rparr>) ?h)"
  define b' where "b' = (log_message ?peer \<lparr>cm_textData = take 128 line, cm_sender = ?peer, cm_timestamp = now\<rparr> b)
      \<lparr>posted := posted b @ [Post_Message ?peer (take 128 line)]\<rparr>"
  have "io_read_step env q ?h = Inr hb'"
    using chat_step [of ?h q "[]" m env] l console_chat_plain [OF line] m by (simp add: hb'_def)
  moreover have "appMail hb' = appMail hb @ [chat_mail ?peer m]" "listening (sess hb' q)"
    using l by (simp_all add: hb'_def PutMessageIntoAppMailbox_def listening_def)
  moreover have "run_mail (console_handlers benv) [chat_mail ?peer m] b = Inr b'"
    by (simp add: b'_def m console_chat_text HandleMessageIncoming_def Let_def)
  moreover have "log_of ?peer b' = log_of ?peer b @ [\<lparr>cm_textData = take 128 line, cm_sender = ?peer, cm_timestamp = now\<rparr>]"
      "posted b' = posted b @ [Post_Message ?peer (take 128 line)]"
    by (simp_all add: b'_def log_of_log_message)
  ultimately show ?thesis by blast
qed

text \<open>C2: a line typed in a chat reaches the log of the peer: it is appended to the own log, one frame is sent, and any host whose established session receives that frame hands it to its application, which logs the first 128 bytes of the line under the name of the sender and posts the notification; the session waits for the next frame.\<close>

theorem chat_end_to_end:
  assumes line: "\<forall>c \<in> set line. isprint c" "take 3 line \<noteq> str ''|f ''"
    and sid: "GetSessionIDFromServiceName peer (mgr a) = Some sid" "map_of (sessions_m (mgr a)) sid = Some r"
    and up: "can_write (sess (mgr a) r)"
  shows "\<exists>a' sent. SendChatLine aenv peer line a = Inr a' \<and>
    tx (sk (sess (mgr a') r)) = tx (sk (sess (mgr a) r)) @ sent \<and>
    log_of peer a' = log_of peer a @
      [\<lparr>cm_textData = line, cm_sender = sd_hostname (thisMachineServiceData a), cm_timestamp = ae_now aenv\<rparr>] \<and>
    (\<forall>hb q env benv b. listening (sess hb q) \<longrightarrow> sstate (sess hb q) = BVSESSIONSTATE_ESTABLISHED \<longrightarrow> rx (sk (sess hb q)) = [] \<longrightarrow>
       (\<exists>hb' mails b'. io_read_step env q (arrive sent q hb) = Inr hb' \<and> appMail hb' = appMail hb @ mails \<and>
          listening (sess hb' q) \<and> run_mail (console_handlers benv) mails b = Inr b' \<and>
          log_of (serviceName_of hb q) b' = log_of (serviceName_of hb q) b @
            [\<lparr>cm_textData = take 128 line, cm_sender = serviceName_of hb q, cm_timestamp = ae_now aenv\<rparr>] \<and>
          posted b' = posted b @ [Post_Message (serviceName_of hb q) (take 128 line)]))"
  using chat_line_sent [OF line sid up refl, where aenv = aenv] chat_frame_logged [OF line(1) refl, where now = "ae_now aenv"] by blast

theorem chat_end_to_end_witness:
  "\<exists>a' sent hb' mails b'. SendChatLine example_app_env (str ''bob'') (str ''hello'') example_app = Inr a' \<and>
     io_read_step example_env 0 (arrive sent 0 example_bob) = Inr hb' \<and> appMail hb' = appMail example_bob @ mails \<and>
     run_mail (console_handlers example_app_env) mails example_app = Inr b' \<and>
     map cm_textData (log_of (str ''alice'') b') = [str ''hello'']"
proof -
  have line: "\<forall>c \<in> set (str ''hello''). isprint c" "take 3 (str ''hello'') \<noteq> str ''|f ''" "take 128 (str ''hello'') = str ''hello''"
    by (simp_all add: str_def isprint_def)
  have sid: "GetSessionIDFromServiceName (str ''bob'') (mgr example_app) = Some 0" "map_of (sessions_m (mgr example_app)) 0 = Some 0"
    by (simp_all add: example_app_def example_host_def GetSessionIDFromServiceName_def)
  have up: "can_write (sess (mgr example_app) 0)"
    by (simp add: example_app_def example_host_session can_write_def example_session_def example_sock_def)
  have l: "listening (sess example_bob 0)" "sstate (sess example_bob 0) = BVSESSIONSTATE_ESTABLISHED" "rx (sk (sess example_bob 0)) = []"
    by (simp_all)
  have nil: "log_of n example_app = []" for n by (simp add: log_of_def example_app_def)
  obtain a' sent where s: "SendChatLine example_app_env (str ''bob'') (str ''hello'') example_app = Inr a'"
      "\<forall>hb q env benv b. listening (sess hb q) \<longrightarrow> sstate (sess hb q) = BVSESSIONSTATE_ESTABLISHED \<longrightarrow> rx (sk (sess hb q)) = [] \<longrightarrow>
       (\<exists>hb' mails b'. io_read_step env q (arrive sent q hb) = Inr hb' \<and> appMail hb' = appMail hb @ mails \<and>
          listening (sess hb' q) \<and> run_mail (console_handlers benv) mails b = Inr b' \<and>
          log_of (serviceName_of hb q) b' = log_of (serviceName_of hb q) b @
            [\<lparr>cm_textData = take 128 (str ''hello''), cm_sender = serviceName_of hb q, cm_timestamp = ae_now example_app_env\<rparr>] \<and>
          posted b' = posted b @ [Post_Message (serviceName_of hb q) (take 128 (str ''hello''))])"
    using chat_end_to_end [OF line(1,2) sid up, of example_app_env] by blast
  show ?thesis
    using s(1) s(2) [rule_format, OF l, of example_env example_app_env example_app] nil by (fastforce simp: line(3))
qed

text \<open>C1: when the offer of a non-empty file is accepted, the worker loop ends, and whatever established session of whatever host receives the bytes it sent, the application there stores a file under the directory of the sender that has exactly the content of the original, and the session is ready for the next frame.\<close>

theorem file_transfer_end_to_end:
  assumes offer: "map_of (pendingOutgoing_m hs) key = Some (sid, fpath)" "map_of (sessions_m hs) sid = Some r"
    and content: "fs_files fs fpath = Some content" "fs_open_ok fs fpath" "content \<noteq> []"
      "length content + unat (DetermineChunkSize (word_of_nat (length content))) < 2 ^ 32"
    and up: "\<not> broken (sk (sess hs r))"
    and name: "service = thisMachineServiceName (sess hs r)" "fname = path_filename fpath" "name_fits service fname"
      "bar \<notin> set service" "not_chat_time (clk 0)"
  shows "\<exists>hs1 hs2 sent. SignalFileTransfer fs key True hs = Inr hs1 \<and> run_transfer clk key hs1 = Some hs2 \<and>
    tx (sk (sess hs2 r)) = tx (sk (sess hs r)) @ sent \<and>
    (\<forall>hr q env aenv a. listening (sess hr q) \<longrightarrow> sstate (sess hr q) = BVSESSIONSTATE_ESTABLISHED \<longrightarrow>
       rx (sk (sess hr q)) = [] \<longrightarrow> writable (ae_cwd aenv) service fname (a_fs a) \<longrightarrow>
       (\<exists>n hr' mails a'. io_reads n env q (arrive sent q hr) = Inr hr' \<and> appMail hr' = appMail hr @ mails \<and>
          run_mail (console_handlers aenv) mails a = Inr a' \<and>
          stored (ae_cwd aenv) service fname (a_fs a') = Some content \<and>
          frame_stream [] (sess hr' q)))"
proof -
  obtain hs1 where hs1: "SignalFileTransfer fs key True hs = Inr hs1"
      "map_of (fileTransferContext_m hs1) key = Some (BVFileTransferContext_ctor True content fname key, r)"
      "sess hs1 = sess hs"
    using SignalFileTransfer_accept [OF offer content(1)] content(2) name(2) by auto
  have "\<not> broken (sk (sess hs1 r))" using up hs1(3) by simp
  from run_transfer_sends [OF hs1(2) this content(3,4), of clk] obtain hs2 where hs2: "run_transfer clk key hs1 = Some hs2"
      "tx (sk (sess hs2 r)) = tx (sk (sess hs r)) @ transfer_bytes clk key service fname content"
    using hs1(3) name(1) by auto
  have len: "length content < 2 ^ 32" using content(4) by simp
  have "\<exists>n hr' mails a'. io_reads n env q (arrive (transfer_bytes clk key service fname content) q hr) = Inr hr' \<and>
      appMail hr' = appMail hr @ mails \<and> run_mail (console_handlers aenv) mails a = Inr a' \<and>
      stored (ae_cwd aenv) service fname (a_fs a') = Some content \<and> frame_stream [] (sess hr' q)"
    if r: "listening (sess hr q)" "sstate (sess hr q) = BVSESSIONSTATE_ESTABLISHED" "rx (sk (sess hr q)) = []"
      and w: "writable (ae_cwd aenv) service fname (a_fs a)" for hr q env aenv a
  proof -
    let ?h = "arrive (transfer_bytes clk key service fname content) q hr"
    have h: "frame_stream (transfer_bytes clk key service fname content @ []) (sess ?h q)"
        "sstate (sess ?h q) = BVSESSIONSTATE_ESTABLISHED" "appMail ?h = appMail hr"
      using r by (auto simp: arrive_def frame_stream_def listening_def)
    from receive_transfer [OF h(1,2) name(3,5) content(3), of env] obtain n hr' where hr':
        "io_reads n env q ?h = Inr hr'" "appMail hr' = appMail hr @ transfer_mails key service fname content"
        "frame_stream [] (sess hr' q)"
      using h(3) by auto
    have "\<exists>a'. run_mail (console_handlers aenv) (transfer_mails key service fname content) a = Inr a' \<and>
        stored (ae_cwd aenv) service fname (a_fs a') = Some content"
      unfolding transfer_mails_def Let_def
      using file_mails_stored [OF w name(4), of "DetermineChunkSize (word_of_nat (length content))" content
          "word_of_nat (length content)" key] DetermineChunkSize_bounds(1) [of "word_of_nat (length content)"]
        content(3) unat_word_of_nat32 [OF len] by auto
    with hr' show ?thesis by blast
  qed
  with hs1(1) hs2 show ?thesis by blast
qed

theorem file_transfer_end_to_end_witness:
  "\<exists>hs1 hs2 sent n hr' mails a'. SignalFileTransfer example_fs 7 True example_offering = Inr hs1 \<and>
     run_transfer (\<lambda>_. 5) 7 hs1 = Some hs2 \<and> tx (sk (sess hs2 0)) = sent \<and>
     io_reads n example_env 0 (arrive sent 0 example_bob) = Inr hr' \<and> appMail hr' = appMail example_bob @ mails \<and>
     run_mail (console_handlers example_app_env) mails example_app = Inr a' \<and>
     stored (str ''/w'') (str ''alice'') (str ''notes.txt'') (a_fs a') = Some [1, 2, 3]"
proof -
  let ?s = "str ''alice''" and ?f = "str ''notes.txt''" and ?p = "str ''/w/notes.txt''"
  have o: "map_of (pendingOutgoing_m example_offering) 7 = Some (0, ?p)" "map_of (sessions_m example_offering) 0 = Some 0"
    by (simp_all add: example_offering_def example_host_def)
  have c: "fs_files example_fs ?p = Some [1, 2, 3]" "fs_open_ok example_fs ?p" "[1, 2, 3] \<noteq> ([] :: bytes)"
      "length [1, 2, 3 :: byte] + unat (DetermineChunkSize (word_of_nat (length [1, 2, 3 :: byte]))) < 2 ^ 32"
    by (simp_all add: example_fs_def DetermineChunkSize_def)
  have sess: "sess example_offering 0 = example_session (str ''alice'') (str ''bob'')"
    by (simp add: example_offering_def example_host_session)
  have up: "\<not> broken (sk (sess example_offering 0))" "tx (sk (sess example_offering 0)) = []"
    by (simp_all add: sess example_session_def example_sock_def)
  have nm: "?s = thisMachineServiceName (sess example_offering 0)" "?f = path_filename ?p" "name_fits ?s ?f" "bar \<notin> set ?s"
      "not_chat_time ((\<lambda>_. 5) (0::nat))"
    by (simp_all add: sess) (simp_all add: path_filename_def str_def name_fits_def bar_def not_chat_time_def example_session_def slash_def msgtype_defs)
  have l: "listening (sess example_bob 0)" "sstate (sess example_bob 0) = BVSESSIONSTATE_ESTABLISHED" "rx (sk (sess example_bob 0)) = []"
    by simp_all
  have w: "writable (ae_cwd example_app_env) ?s ?f (a_fs example_app)"
    using example_writable by (simp add: example_app_env_def example_app_def)
  have cwd: "ae_cwd example_app_env = str ''/w''" by (simp add: example_app_env_def)
  obtain hs1 hs2 sent where st: "SignalFileTransfer example_fs 7 True example_offering = Inr hs1"
      "run_transfer (\<lambda>_. 5) 7 hs1 = Some hs2" "tx (sk (sess hs2 0)) = [] @ sent"
    and rc: "\<And>hr q env aenv a. listening (sess hr q) \<Longrightarrow> sstate (sess hr q) = BVSESSIONSTATE_ESTABLISHED \<Longrightarrow>
       rx (sk (sess hr q)) = [] \<Longrightarrow> writable (ae_cwd aenv) ?s ?f (a_fs a) \<Longrightarrow>
       (\<exists>n hr' mails a'. io_reads n env q (arrive sent q hr) = Inr hr' \<and> appMail hr' = appMail hr @ mails \<and>
          run_mail (console_handlers aenv) mails a = Inr a' \<and>
          stored (ae_cwd aenv) ?s ?f (a_fs a') = Some [1, 2, 3] \<and> frame_stream [] (sess hr' q))"
    using file_transfer_end_to_end [OF o c up(1) nm] unfolding up(2) by (elim exE conjE) blast
  from st rc [OF l w, of example_env] show ?thesis unfolding cwd append_Nil by blast
qed



end
